(* ===== verification/Rust_Prelude.thy ===== *)
theory Rust_Prelude
  imports Main "HOL-Library.Word"
begin

text \<open>
  What every component theory shares: the Rust notions the sources rest on.

  \<^item> \<open>result\<close> is Rust's \<^verbatim>\<open>Result\<close> with a third constructor \<open>Panic\<close> for the aborts of the
    sources (\<^verbatim>\<open>unwrap_abort!\<close>, \<^verbatim>\<open>panic!\<close>, \<^verbatim>\<open>assert!\<close>); \<open>and_then\<close> is the
    \<^verbatim>\<open>?\<close> operator (the first error or panic ends the function), \<open>map_err\<close> converts the error.
  \<^item> Machine integers are words of their width; \<open>checked_add\<close>, \<open>checked_sub\<close>, \<open>checked_mul\<close> and the
    \<open>saturating_\<close> operations are those of Rust's unsigned integer types, at any width.
  \<^item> \<open>Ordering\<close> and \<open>cmp\<close> are Rust's result of a comparison.
  \<^item> The collection \<open>word_nat\<close> moves a goal about words to the natural numbers they stand for, where
    linear arithmetic decides it: equality, order, the checked and the saturating operations.
\<close>

section \<open>Results\<close>

datatype ('a, 'e) result = Ok 'a | Err 'e | Panic

fun and_then :: "('a, 'e) result \<Rightarrow> ('a \<Rightarrow> ('b, 'e) result) \<Rightarrow> ('b, 'e) result" where
  "and_then (Ok x) f = f x"
| "and_then (Err e) f = Err e"
| "and_then Panic f = Panic"

fun map_err :: "('e \<Rightarrow> 'f) \<Rightarrow> ('a, 'e) result \<Rightarrow> ('a, 'f) result" where
  "map_err g (Ok x) = Ok x"
| "map_err g (Err e) = Err (g e)"
| "map_err g Panic = Panic"

text \<open>\<^verbatim>\<open>Option::ok_or\<close> and the kernel's \<^verbatim>\<open>unwrap_abort!\<close>.\<close>

fun ok_or :: "'a option \<Rightarrow> 'e \<Rightarrow> ('a, 'e) result" where
  "ok_or (Some x) e = Ok x"
| "ok_or None e = Err e"

fun unwrap_abort :: "'a option \<Rightarrow> ('a, 'e) result" where
  "unwrap_abort (Some x) = Ok x"
| "unwrap_abort None = Panic"

lemma and_then_eq_Ok [simp]: "and_then m f = Ok y \<longleftrightarrow> (\<exists>x. m = Ok x \<and> f x = Ok y)"
  by (cases m) auto

lemma and_then_eq_Err:
  "and_then m f = Err e \<longleftrightarrow> m = Err e \<or> (\<exists>x. m = Ok x \<and> f x = Err e)"
  by (cases m) auto

lemma and_then_eq_Panic:
  "and_then m f = Panic \<longleftrightarrow> m = Panic \<or> (\<exists>x. m = Ok x \<and> f x = Panic)"
  by (cases m) auto

lemma and_then_assoc: "and_then (and_then m f) g = and_then m (\<lambda>x. and_then (f x) g)"
  by (cases m) simp_all

lemma and_then_cong [fundef_cong]:
  "m = m' \<Longrightarrow> (\<And>x. m' = Ok x \<Longrightarrow> f x = f' x) \<Longrightarrow> and_then m f = and_then m' f'"
  by (cases m') simp_all

lemma map_err_eq_Ok [simp]: "map_err g m = Ok y \<longleftrightarrow> m = Ok y"
  by (cases m) auto

lemma map_err_eq_Panic [simp]: "map_err g m = Panic \<longleftrightarrow> m = Panic"
  by (cases m) auto

lemma ok_or_eq_Ok [simp]: "ok_or m e = Ok y \<longleftrightarrow> m = Some y"
  by (cases m) auto

lemma ok_or_not_Panic [simp]: "ok_or m e \<noteq> Panic"
  by (cases m) auto

lemma unwrap_abort_eq_Ok [simp]: "unwrap_abort m = Ok y \<longleftrightarrow> m = Some y"
  by (cases m) auto

lemma unwrap_abort_not_Err [simp]: "unwrap_abort m \<noteq> Err e"
  by (cases m) auto

lemma unwrap_abort_eq_Panic [simp]: "unwrap_abort m = Panic \<longleftrightarrow> m = None"
  by (cases m) auto

lemma if_Err_eq_Ok [simp]: "(if b then Err e else m) = Ok y \<longleftrightarrow> \<not> b \<and> m = Ok y"
  by simp

section \<open>Machine integers\<close>

type_synonym u16 = "16 word"
type_synonym u32 = "32 word"
type_synonym u64 = "64 word"
type_synonym u128 = "128 word"
type_synonym u256 = "256 word"
type_synonym u512 = "512 word"

named_theorems word_nat \<open>rules that move a goal on words to natural numbers\<close>

definition checked_add :: "'a::len word \<Rightarrow> 'a word \<Rightarrow> 'a word option" where
  "checked_add a b = (if unat a + unat b < 2 ^ LENGTH('a) then Some (a + b) else None)"

definition checked_sub :: "'a::len word \<Rightarrow> 'a word \<Rightarrow> 'a word option" where
  "checked_sub a b = (if b \<le> a then Some (a - b) else None)"

definition checked_mul :: "'a::len word \<Rightarrow> 'a word \<Rightarrow> 'a word option" where
  "checked_mul a b = (if unat a * unat b < 2 ^ LENGTH('a) then Some (a * b) else None)"

definition max_value :: "'a::len word" where
  "max_value = - 1"

definition saturating_add :: "'a::len word \<Rightarrow> 'a word \<Rightarrow> 'a word" where
  "saturating_add a b = (case checked_add a b of Some c \<Rightarrow> c | None \<Rightarrow> max_value)"

definition saturating_sub :: "'a::len word \<Rightarrow> 'a word \<Rightarrow> 'a word" where
  "saturating_sub a b = (if b \<le> a then a - b else 0)"

definition saturating_mul :: "'a::len word \<Rightarrow> 'a word \<Rightarrow> 'a word" where
  "saturating_mul a b = (case checked_mul a b of Some c \<Rightarrow> c | None \<Rightarrow> max_value)"

lemma unat_max_value: "unat (max_value :: 'a::len word) = 2 ^ LENGTH('a) - 1"
  by (simp add: max_value_def unsigned_minus_1_eq_mask mask_eq_exp_minus_1)

lemma unat_le_max: "unat (a :: 'a::len word) \<le> 2 ^ LENGTH('a) - 1"
  using unsigned_less [of a, where ?'a = nat] by linarith

lemma checked_add_eq_Some [word_nat]: "checked_add a b = Some c \<longleftrightarrow> unat c = unat a + unat b"
proof
  assume "checked_add a b = Some c"
  then show "unat c = unat a + unat b"
    by (auto simp: checked_add_def unat_word_ariths split: if_splits)
next
  assume sum: "unat c = unat a + unat b"
  moreover have "unat a + unat b < 2 ^ LENGTH('a)"
    using sum unsigned_less [of c, where ?'a = nat] by simp
  ultimately show "checked_add a b = Some c"
    by (simp add: checked_add_def word_unat_eq_iff unat_word_ariths)
qed

lemma checked_add_eq_None [word_nat]:
  "checked_add (a :: 'a::len word) b = None \<longleftrightarrow> 2 ^ LENGTH('a) \<le> unat a + unat b"
  by (auto simp: checked_add_def)

lemma checked_sub_eq_Some [word_nat]: "checked_sub a b = Some c \<longleftrightarrow> unat a = unat b + unat c"
proof
  assume "checked_sub a b = Some c"
  then show "unat a = unat b + unat c"
    by (auto simp: checked_sub_def unat_sub word_le_nat_alt split: if_splits)
next
  assume "unat a = unat b + unat c"
  then show "checked_sub a b = Some c"
    by (simp add: checked_sub_def word_unat_eq_iff unat_sub word_le_nat_alt)
qed

lemma checked_sub_eq_None [word_nat]: "checked_sub a b = None \<longleftrightarrow> unat a < unat b"
  by (auto simp: checked_sub_def word_le_nat_alt)

lemma checked_mul_eq_Some [word_nat]: "checked_mul a b = Some c \<longleftrightarrow> unat c = unat a * unat b"
proof
  assume "checked_mul a b = Some c"
  then show "unat c = unat a * unat b"
    by (auto simp: checked_mul_def unat_word_ariths split: if_splits)
next
  assume prod: "unat c = unat a * unat b"
  moreover have "unat a * unat b < 2 ^ LENGTH('a)"
    using prod unsigned_less [of c, where ?'a = nat] by simp
  ultimately show "checked_mul a b = Some c"
    by (simp add: checked_mul_def word_unat_eq_iff unat_word_ariths)
qed

lemma unat_saturating_add [word_nat]:
  "unat (saturating_add (a :: 'a::len word) b) = min (unat a + unat b) (2 ^ LENGTH('a) - 1)"
  by (auto simp: saturating_add_def checked_add_def unat_max_value unat_word_ariths)

lemma unat_saturating_mul [word_nat]:
  "unat (saturating_mul (a :: 'a::len word) b) = min (unat a * unat b) (2 ^ LENGTH('a) - 1)"
  by (auto simp: saturating_mul_def checked_mul_def unat_max_value unat_word_ariths)

lemma unat_saturating_sub [word_nat]: "unat (saturating_sub a b) = unat a - unat b"
  by (auto simp: saturating_sub_def unat_sub word_le_nat_alt)

lemmas word_order_nat [word_nat] = word_le_nat_alt word_less_nat_alt

lemma word_eq_nat: "a = b \<longleftrightarrow> unat a = unat b"
  by (rule word_unat_eq_iff)

text \<open>A guard on words that is known to fail, for the simplifier.\<close>

lemma word_guard: "a \<le> b \<Longrightarrow> \<not> b < (a :: 'a::len word)"
  by (simp add: not_less)

lemma saturating_sub_0 [simp]: "saturating_sub a 0 = a"
  by (simp add: saturating_sub_def)

lemma saturating_add_0 [simp]: "saturating_add a 0 = a" "saturating_add 0 a = a"
  by (simp_all add: saturating_add_def checked_add_def)

text \<open>The bounds of the widths the sources use, as numerals.\<close>

lemma u32_bound: "unat (a :: u32) < 4294967296"
  using unsigned_less [of a, where ?'a = nat] by simp

lemma u64_bound: "unat (a :: u64) < 18446744073709551616"
  using unsigned_less [of a, where ?'a = nat] by simp

lemma u128_bound: "unat (a :: u128) < 340282366920938463463374607431768211456"
  using unsigned_less [of a, where ?'a = nat] by simp

text \<open>Rust's \<^verbatim>\<open>as\<close> between unsigned types, when the target is wider.\<close>

lemma unat_ucast_up:
  "LENGTH('a) \<le> LENGTH('b) \<Longrightarrow> unat (ucast (a :: 'a::len word) :: 'b::len word) = unat a"
  by (simp add: unsigned_ucast_eq take_bit_nat_eq_self
    order_less_le_trans [OF unsigned_less])

section \<open>Orderings\<close>

datatype Ordering = Less | Equal | Greater

definition cmp :: "'a::linorder \<Rightarrow> 'a \<Rightarrow> Ordering" where
  "cmp a b = (if a < b then Less else if a = b then Equal else Greater)"

fun ord_reverse :: "Ordering \<Rightarrow> Ordering" where
  "ord_reverse Less = Greater"
| "ord_reverse Equal = Equal"
| "ord_reverse Greater = Less"

lemma cmp_simps [simp]:
  "cmp a a = Equal" "a < b \<Longrightarrow> cmp a b = Less" "b < a \<Longrightarrow> cmp a b = Greater"
  by (auto simp: cmp_def)

lemma cmp_eq: "cmp a b = Less \<longleftrightarrow> a < b" "cmp a b = Equal \<longleftrightarrow> a = b" "cmp a b = Greater \<longleftrightarrow> b < a"
  by (auto simp: cmp_def)

lemma ord_reverse_cmp [simp]: "ord_reverse (cmp a b) = cmp b a"
  by (auto simp: cmp_def)

lemma cmp_cong: "(a < b \<longleftrightarrow> c < d) \<Longrightarrow> (b < a \<longleftrightarrow> d < c) \<Longrightarrow> cmp a b = cmp c d"
  by (auto simp: cmp_def)

section \<open>State machines\<close>

text \<open>
  The interface the components' step relations are used through: initial states, steps, and an
  invariant that the initial states have and every step keeps.
\<close>

locale state_machine =
  fixes initial :: "'s \<Rightarrow> bool"
    and step :: "'s \<Rightarrow> 's \<Rightarrow> bool"
    and inv :: "'s \<Rightarrow> bool"
  assumes initial_inv: "initial s \<Longrightarrow> inv s"
    and step_inv: "inv s \<Longrightarrow> step s s' \<Longrightarrow> inv s'"
begin

lemma steps_inv: "step\<^sup>*\<^sup>* s s' \<Longrightarrow> inv s \<Longrightarrow> inv s'"
  by (induction rule: rtranclp_induct) (auto intro: step_inv)

lemma reachable_inv: "initial s \<Longrightarrow> step\<^sup>*\<^sup>* s s' \<Longrightarrow> inv s'"
  by (rule steps_inv) (auto intro: initial_inv)

end

section \<open>Lists\<close>

lemma sum_list_map_pointwise_le:
  "(\<And>x. x \<in> set xs \<Longrightarrow> f x \<le> (g x :: nat)) \<Longrightarrow> sum_list (map f xs) \<le> sum_list (map g xs)"
  by (induction xs) (auto intro!: add_mono)

lemma member_le_sum_list_nat: "x \<in> set xs \<Longrightarrow> f x \<le> sum_list (map (f :: 'a \<Rightarrow> nat) xs)"
  by (induction xs) auto

end
