(* ===== verification/Kernel_Number.thy ===== *)
theory Kernel_Number
  imports Rust_Prelude
begin

text \<open>
  The kernel's 256-bit number (\<^verbatim>\<open>src/contract/vault/kernel/src/math/number.rs\<close>) and its one
  arithmetic routine, multiply-then-divide with rounding.

  \<^item> The crate \<^verbatim>\<open>primitive_types\<close> (\<^verbatim>\<open>U256\<close>, \<^verbatim>\<open>U512\<close>) is not part of the repository. A
    \<^verbatim>\<open>U256\<close> is held as the 256-bit word its four little-endian limbs spell; the arithmetic the
    kernel takes from the crate is the record \<open>primitive_types\<close>, an argument of every definition
    that uses it, and the locale \<open>primitive_types_spec\<close> states the crate's documented behaviour.
    The instance \<open>word_types\<close> computes with words and shows that the contract can be met.
  \<^item> \<open>mul_div_with_rounding\<close> keeps the order of the fast paths of the source; the lemmas show that
    every path gives the floor or the ceiling of the exact quotient.
\<close>

unbundle bit_operations_syntax

type_synonym Number = u256

section \<open>The arithmetic taken from \<open>primitive_types\<close>\<close>

record primitive_types =
  u256_saturating_add :: "u256 \<Rightarrow> u256 \<Rightarrow> u256"
  u256_saturating_sub :: "u256 \<Rightarrow> u256 \<Rightarrow> u256"
  u256_saturating_mul :: "u256 \<Rightarrow> u256 \<Rightarrow> u256"
  u256_sub :: "u256 \<Rightarrow> u256 \<Rightarrow> u256"
  u256_full_mul :: "u256 \<Rightarrow> u256 \<Rightarrow> u512"
  u512_div :: "u512 \<Rightarrow> u512 \<Rightarrow> u512"
  u512_rem :: "u512 \<Rightarrow> u512 \<Rightarrow> u512"

section \<open>Conversions\<close>

definition limb :: "u256 \<Rightarrow> nat \<Rightarrow> u64" where
  "limb n i = ucast (drop_bit (64 * i) n)"

definition number_from :: "u128 \<Rightarrow> Number" where
  "number_from v = ucast v"

definition as_u128_trunc :: "Number \<Rightarrow> u128" where
  "as_u128_trunc n = ucast n"

definition as_u256_trunc :: "u512 \<Rightarrow> u256" where
  "as_u256_trunc q = ucast q"

definition as_u128_if_fits :: "u256 \<Rightarrow> u128 option" where
  "as_u128_if_fits v =
     (if limb v 2 \<noteq> 0 \<or> limb v 3 \<noteq> 0 then None
      else Some (push_bit 64 (ucast (limb v 1)) OR ucast (limb v 0)))"

definition as_u128_saturating :: "Number \<Rightarrow> u128" where
  "as_u128_saturating n = (if limb n 2 \<noteq> 0 \<or> limb n 3 \<noteq> 0 then max_value else ucast n)"

section \<open>Multiply and divide\<close>

definition mul_div_u128 :: "u128 \<Rightarrow> u128 \<Rightarrow> u128 \<Rightarrow> bool \<Rightarrow> Number option" where
  "mul_div_u128 x128 y128 denom128 round_up =
     (case checked_mul x128 y128 of
        None \<Rightarrow> None
      | Some product \<Rightarrow>
          let q = product div denom128 in
          if \<not> round_up then Some (number_from q)
          else if product mod denom128 = 0 then Some (number_from q)
          else Some (number_from (saturating_add q 1)))"

definition mul_div_wide :: "primitive_types \<Rightarrow> Number \<Rightarrow> Number \<Rightarrow> Number \<Rightarrow> bool \<Rightarrow> Number" where
  "mul_div_wide P x y denom round_up =
     (let prod = u256_full_mul P x y;
          d = ucast denom;
          base = as_u256_trunc (u512_div P prod d)
      in if \<not> round_up then base
         else if u512_rem P prod d = 0 then base
         else u256_saturating_add P base 1)"

definition mul_div_with_rounding ::
    "primitive_types \<Rightarrow> Number \<Rightarrow> Number \<Rightarrow> Number \<Rightarrow> bool \<Rightarrow> Number" where
  "mul_div_with_rounding P x y denom round_up =
     (if x = 0 \<or> y = 0 then 0
      else if denom = 0 then 0
      else if denom = 1 then u256_saturating_mul P x y
      else if x = denom then y
      else if y = denom then x
      else
        (case (as_u128_if_fits x, as_u128_if_fits y, as_u128_if_fits denom) of
           (Some x128, Some y128, Some denom128) \<Rightarrow>
             (case mul_div_u128 x128 y128 denom128 round_up of
                Some n \<Rightarrow> n
              | None \<Rightarrow> mul_div_wide P x y denom round_up)
         | _ \<Rightarrow> mul_div_wide P x y denom round_up))"

definition mul_div_floor :: "primitive_types \<Rightarrow> Number \<Rightarrow> Number \<Rightarrow> Number \<Rightarrow> Number" where
  "mul_div_floor P x y denom = mul_div_with_rounding P x y denom False"

definition mul_div_ceil :: "primitive_types \<Rightarrow> Number \<Rightarrow> Number \<Rightarrow> Number \<Rightarrow> Number" where
  "mul_div_ceil P x y denom = mul_div_with_rounding P x y denom True"

text \<open>
  The quotient over the natural numbers: the floor, one more when rounding up leaves a remainder,
  and 0 for a zero denominator.
\<close>

definition quot :: "nat \<Rightarrow> nat \<Rightarrow> nat \<Rightarrow> bool \<Rightarrow> nat" where
  "quot x y d round_up =
     (if d = 0 then 0
      else (x * y) div d + (if round_up \<and> (x * y) mod d \<noteq> 0 then 1 else 0))"

section \<open>Lemmas on the conversions\<close>

lemma unat_limb: "unat (limb n i) = (unat n div 2 ^ (64 * i)) mod 2 ^ 64"
proof -
  have "unat (drop_bit (64 * i) n) = unat n div 2 ^ (64 * i)"
    by (simp only: unsigned_drop_bit_eq take_bit_nat_eq_self [OF unsigned_less])
      (simp only: drop_bit_eq_div)
  then show ?thesis
    by (simp add: limb_def unsigned_ucast_eq take_bit_eq_mod)
qed

lemma unat_number_from [simp, word_nat]: "unat (number_from v) = unat v"
  by (simp add: number_from_def unat_ucast_up)

lemma number_from_eq_0 [simp]: "number_from v = 0 \<longleftrightarrow> v = 0"
  by (simp add: word_eq_nat [where ?'a = 256] word_eq_nat [where ?'a = 128])

lemma unat_as_u128_trunc [word_nat]: "unat (as_u128_trunc n) = unat n mod 2 ^ 128"
  by (simp add: as_u128_trunc_def unsigned_ucast_eq take_bit_eq_mod)

lemma unat_as_u256_trunc: "unat (as_u256_trunc q) = unat q mod 2 ^ 256"
  by (simp add: as_u256_trunc_def unsigned_ucast_eq take_bit_eq_mod)

lemma as_u128_trunc_number_from [simp]: "as_u128_trunc (number_from v) = v"
  using unsigned_less [of v, where ?'a = nat]
  by (simp add: word_eq_nat [where ?'a = 128] word_nat)

lemma limbs_high_zero: "limb n 2 = 0 \<and> limb n 3 = 0 \<longleftrightarrow> unat n < 2 ^ 128"
proof -
  have split: "unat n div 2 ^ 128 = (unat n div 2 ^ 128) mod 2 ^ 64 + 2 ^ 64 * (unat n div 2 ^ 192)"
    using mod_mult_div_eq [of "unat n div 2 ^ 128" "2 ^ 64"]
    by (simp add: div_mult2_eq [symmetric])
  have top: "(unat n div 2 ^ 192) mod 2 ^ 64 = unat n div 2 ^ 192"
    using unsigned_less [of n, where ?'a = nat] by (simp add: div_less_iff_less_mult)
  have "limb n 2 = 0 \<and> limb n 3 = 0 \<longleftrightarrow>
      (unat n div 2 ^ 128) mod 2 ^ 64 = 0 \<and> unat n div 2 ^ 192 = 0"
    using top by (simp add: word_eq_nat [where ?'a = 64] unat_limb)
  also have "\<dots> \<longleftrightarrow> unat n div 2 ^ 128 = 0"
    using split by (metis add_is_0 mult_is_0 power_not_zero zero_neq_numeral)
  also have "\<dots> \<longleftrightarrow> unat n < 2 ^ 128"
    by (simp add: div_eq_0_iff)
  finally show ?thesis .
qed

lemma as_u128_if_fits_low:
  "unat v < 2 ^ 128 \<Longrightarrow> push_bit 64 (ucast (limb v 1)) OR ucast (limb v 0) = (ucast v :: u128)"
  by (rule bit_word_eqI)
    (auto simp: bit_or_iff bit_push_bit_iff bit_ucast_iff bit_drop_bit_eq limb_def not_le)

lemma as_u128_if_fits_eq:
  "as_u128_if_fits v = (if unat v < 2 ^ 128 then Some (as_u128_trunc v) else None)"
  using limbs_high_zero [of v] as_u128_if_fits_low [of v]
  by (auto simp: as_u128_if_fits_def as_u128_trunc_def)

lemma unat_as_u128_saturating [word_nat]:
  "unat (as_u128_saturating n) = min (unat n) (2 ^ 128 - 1)"
  using limbs_high_zero [of n]
  by (auto simp: as_u128_saturating_def unat_max_value unsigned_ucast_eq take_bit_eq_mod)

lemma as_u128_trunc_fits: "unat n < 2 ^ 128 \<Longrightarrow> unat (as_u128_trunc n) = unat n"
  by (simp add: unat_as_u128_trunc)

section \<open>The quotient\<close>

lemma quot_0_left [simp]: "quot 0 y d up = 0"
  by (simp add: quot_def)

lemma quot_0_right [simp]: "quot x 0 d up = 0"
  by (simp add: quot_def)

lemma quot_floor: "quot x y d False = (x * y) div d"
  by (simp add: quot_def)

lemma quot_1 [simp]: "quot x y 1 up = x * y"
  by (simp add: quot_def)

lemma quot_cancel_left: "0 < d \<Longrightarrow> quot d y d up = y"
  by (simp add: quot_def)

lemma quot_cancel_right: "0 < d \<Longrightarrow> quot x d d up = x"
  by (simp add: quot_def)

lemma quot_floor_le: "quot x y d False * d \<le> x * y"
  by (simp add: quot_floor)

lemma quot_floor_gt: "0 < d \<Longrightarrow> x * y < (quot x y d False + 1) * d"
  by (simp add: quot_floor dividend_less_div_times)

lemma quot_ceil_ge: "0 < d \<Longrightarrow> x * y \<le> quot x y d True * d"
  by (auto simp: quot_def intro: less_imp_le dividend_less_div_times)

lemma quot_ceil_lt: "0 < d \<Longrightarrow> quot x y d True * d < x * y + d"
proof -
  have "0 < (x * y) mod d \<Longrightarrow> (x * y) div d * d < x * y"
    by (metis add.right_neutral div_mult_mod_eq nat_add_left_cancel_less)
  moreover assume "0 < d"
  ultimately show ?thesis by (auto simp: quot_def)
qed

lemma quot_floor_le_ceil: "quot x y d False \<le> quot x y d True"
  by (simp add: quot_def)

text \<open>Floor and ceiling as the greatest and the least integer on their side of the quotient.\<close>

lemma le_quot_floor: "0 < d \<Longrightarrow> n \<le> quot x y d False \<longleftrightarrow> n * d \<le> x * y"
  by (simp add: quot_floor less_eq_div_iff_mult_less_eq)

lemma quot_ceil_le: "0 < d \<Longrightarrow> quot x y d True \<le> n \<longleftrightarrow> x * y \<le> n * d"
proof
  assume d: "0 < d" and "quot x y d True \<le> n"
  then have "quot x y d True * d \<le> n * d" by simp
  with quot_ceil_ge [OF d] show "x * y \<le> n * d" by (rule order_trans)
next
  assume d: "0 < d" and "x * y \<le> n * d"
  with quot_ceil_lt [OF d, of x y] have "quot x y d True * d < (n + 1) * d" by simp
  then have "quot x y d True < n + 1" by (simp only: mult_less_cancel2)
  then show "quot x y d True \<le> n" by simp
qed

lemma quot_mono:
  assumes "x \<le> x'" and "y \<le> y'"
  shows "quot x y d up \<le> quot x' y' d up"
proof (cases "d = 0")
  case False
  then have d: "0 < d" by simp
  have le: "x * y \<le> x' * y'" using assms by (rule mult_le_mono)
  show ?thesis
  proof (cases up)
    case True
    have "x * y \<le> quot x' y' d True * d"
      using le quot_ceil_ge [OF d] by (rule order_trans)
    with d True show ?thesis by (simp add: quot_ceil_le)
  next
    case False
    with le show ?thesis by (simp add: quot_floor div_le_mono)
  qed
qed (simp add: quot_def)

lemma quot_le_left: "y \<le> d \<Longrightarrow> quot x y d up \<le> x"
proof (cases "d = 0")
  case False
  assume "y \<le> d"
  then have "quot x y d up \<le> quot x d d up" by (rule quot_mono [OF order_refl])
  with False show ?thesis by (simp add: quot_cancel_right)
qed (simp add: quot_def)

lemma quot_commute: "quot x y d up = quot y x d up"
  by (simp add: quot_def mult.commute)

lemma quot_ceil_pos: "0 < x \<Longrightarrow> 0 < y \<Longrightarrow> 0 < d \<Longrightarrow> 0 < quot x y d True"
  using quot_ceil_ge [of d x y] by (cases "quot x y d True") auto

lemma quot_bound: "0 < d \<Longrightarrow> quot x y d up \<le> x * y"
  by (cases up) (simp_all add: quot_floor quot_ceil_le div_le_dividend)

text \<open>The path of the source that stays within 128 bits.\<close>

lemma mul_div_u128_quot:
  assumes "mul_div_u128 a b c up = Some n" and "c \<noteq> 0" and "c \<noteq> 1"
  shows "unat n = quot (unat a) (unat b) (unat c) up"
proof -
  from assms(1) obtain p where p: "checked_mul a b = Some p"
    and n: "n = (if \<not> up \<or> p mod c = 0 then number_from (p div c)
      else number_from (saturating_add (p div c) 1))"
    by (auto simp: mul_div_u128_def Let_def split: option.splits if_splits)
  have c: "2 \<le> unat c"
    using assms(2,3) by (auto simp: word_eq_nat [where ?'a = 128] not_less_eq_eq)
  then have "unat p div unat c \<le> unat p div 2"
    by (intro div_le_mono2) auto
  with u128_bound [of p] have "unat p div unat c + 1 < 2 ^ 128" by simp
  then have "unat (saturating_add (p div c) 1) = unat p div unat c + 1"
    by (simp add: unat_saturating_add unat_div_distrib)
  then show ?thesis
    using p c by (auto simp: n quot_def word_nat word_eq_nat [where ?'a = 128] unat_div_distrib
      unat_mod_distrib)
qed

section \<open>The contract of \<open>primitive_types\<close> and what the routine computes under it\<close>

locale primitive_types_spec =
  fixes P :: primitive_types
  assumes saturating_add_law:
      "unat (u256_saturating_add P a b) = min (unat a + unat b) (2 ^ 256 - 1)"
    and saturating_sub_law: "unat (u256_saturating_sub P a b) = unat a - unat b"
    and saturating_mul_law:
      "unat (u256_saturating_mul P a b) = min (unat a * unat b) (2 ^ 256 - 1)"
    and sub_law: "b \<le> a \<Longrightarrow> unat (u256_sub P a b) = unat a - unat b"
    and full_mul_law: "unat (u256_full_mul P a b) = unat a * unat b"
    and div_law: "n \<noteq> 0 \<Longrightarrow> unat (u512_div P m n) = unat m div unat n"
    and rem_law: "n \<noteq> 0 \<Longrightarrow> unat (u512_rem P m n) = unat m mod unat n"
begin

lemma mul_div_wide_quot:
  assumes "d \<noteq> 0" and "quot (unat x) (unat y) (unat d) up < 2 ^ 256"
  shows "unat (mul_div_wide P x y d up) = quot (unat x) (unat y) (unat d) up"
proof -
  have d: "(ucast d :: u512) \<noteq> 0" "unat (ucast d :: u512) = unat d" "0 < unat d"
    using assms(1) by (simp_all add: unat_ucast_up word_eq_nat [where ?'a = 512]
      word_eq_nat [where ?'a = 256])
  have floor: "unat x * unat y div unat d < 2 ^ 256"
    using assms(2) quot_floor_le_ceil [of "unat x" "unat y" "unat d"]
    by (cases up) (simp_all add: quot_floor)
  have rem: "u512_rem P (u256_full_mul P x y) (ucast d) = 0 \<longleftrightarrow> (unat x * unat y) mod unat d = 0"
    using d by (simp add: word_eq_nat [where ?'a = 512] rem_law full_mul_law)
  have base: "unat (as_u256_trunc (u512_div P (u256_full_mul P x y) (ucast d))) =
      unat x * unat y div unat d"
    using d floor by (simp add: unat_as_u256_trunc div_law full_mul_law)
  show ?thesis
    using assms(2) d(3) floor base
    by (cases up; cases "(unat x * unat y) mod unat d = 0")
      (simp_all add: mul_div_wide_def Let_def rem quot_def saturating_add_law)
qed

lemma mul_div_quot:
  assumes "d \<noteq> 0" and "quot (unat x) (unat y) (unat d) up < 2 ^ 256"
  shows "unat (mul_div_with_rounding P x y d up) = quot (unat x) (unat y) (unat d) up"
proof -
  have d: "0 < unat d" using assms(1) by (simp add: unat_gt_0)
  consider "x = 0 \<or> y = 0" | "x \<noteq> 0" "y \<noteq> 0" "d = 1" | "x \<noteq> 0" "y \<noteq> 0" "d \<noteq> 1"
    by blast
  then show ?thesis
  proof cases
    case 2
    with assms show ?thesis
      by (simp add: mul_div_with_rounding_def saturating_mul_law min_def quot_1 [unfolded One_nat_def])
  next
    case 3
    show ?thesis
    proof (cases "unat d < 2 ^ 128")
      case True
      then have "as_u128_trunc d \<noteq> 0" "as_u128_trunc d \<noteq> 1"
        using assms(1) 3(3) by (auto simp: word_eq_nat [where ?'a = 128] word_eq_nat [where ?'a = 256]
          as_u128_trunc_fits)
      then show ?thesis
        using 3 assms d True mul_div_wide_quot [OF assms]
        by (auto simp: mul_div_with_rounding_def quot_cancel_left quot_cancel_right
          as_u128_if_fits_eq as_u128_trunc_fits dest: mul_div_u128_quot split: option.splits)
    next
      case False
      with 3 assms d show ?thesis
        by (simp add: mul_div_with_rounding_def quot_cancel_left quot_cancel_right
          as_u128_if_fits_eq mul_div_wide_quot)
    qed
  qed (auto simp: mul_div_with_rounding_def)
qed

text \<open>
  On 128-bit operands the product fits into 256 bits, so the routine is exact without condition: a
  zero denominator gives the 0 of \<open>quot\<close>.
\<close>

lemma mul_div_number_from:
  "unat (mul_div_with_rounding P (number_from x) (number_from y) (number_from d) up) =
     quot (unat x) (unat y) (unat d) up"
proof (cases "d = 0")
  case True
  then show ?thesis by (simp add: mul_div_with_rounding_def quot_def)
next
  case False
  have "unat x * unat y < 2 ^ 128 * 2 ^ 128"
    using u128_bound [of x] u128_bound [of y] by (intro mult_strict_mono) simp_all
  moreover have "quot (unat x) (unat y) (unat d) up \<le> unat x * unat y"
    using False by (simp add: quot_bound unat_gt_0)
  ultimately have "quot (unat x) (unat y) (unat d) up < 2 ^ 256"
    by simp
  with False show ?thesis
    using mul_div_quot [of "number_from d" "number_from x" "number_from y" up] by simp
qed

text \<open>
  Rounding down never exceeds the exact quotient, also where that does not fit into 256 bits.
\<close>

lemma mul_div_floor_le: "unat (mul_div_floor P x y d) \<le> quot (unat x) (unat y) (unat d) False"
proof (cases "quot (unat x) (unat y) (unat d) False < 2 ^ 256")
  case True
  show ?thesis
  proof (cases "d = 0")
    case False
    with True show ?thesis by (simp add: mul_div_floor_def mul_div_quot)
  qed (simp add: mul_div_floor_def mul_div_with_rounding_def)
next
  case False
  with unsigned_less [of "mul_div_floor P x y d", where ?'a = nat] show ?thesis by simp
qed

lemma mul_div_floor_quot:
  "d \<noteq> 0 \<Longrightarrow> quot (unat x) (unat y) (unat d) False < 2 ^ 256 \<Longrightarrow>
    unat (mul_div_floor P x y d) = quot (unat x) (unat y) (unat d) False"
  by (simp add: mul_div_floor_def mul_div_quot)

lemma mul_div_floor_number_from:
  "unat (mul_div_floor P (number_from x) (number_from y) (number_from d)) =
     quot (unat x) (unat y) (unat d) False"
  by (simp add: mul_div_floor_def mul_div_number_from)

lemma mul_div_ceil_number_from:
  "unat (mul_div_ceil P (number_from x) (number_from y) (number_from d)) =
     quot (unat x) (unat y) (unat d) True"
  by (simp add: mul_div_ceil_def mul_div_number_from)

end

section \<open>An instance of the contract\<close>

definition word_types :: primitive_types where
  "word_types = \<lparr>
     u256_saturating_add = saturating_add,
     u256_saturating_sub = saturating_sub,
     u256_saturating_mul = saturating_mul,
     u256_sub = (\<lambda>a b. a - b),
     u256_full_mul = (\<lambda>a b. ucast a * ucast b),
     u512_div = (\<lambda>m n. m div n),
     u512_rem = (\<lambda>m n. m mod n)\<rparr>"

lemma unat_less_exp: "2 ^ LENGTH('a) = m \<Longrightarrow> unat (a :: 'a::len word) < m"
  using unsigned_less [of a, where ?'a = nat] by simp

lemma unat_full_mul: "unat (ucast a * ucast b :: u512) = unat (a :: u256) * unat (b :: u256)"
proof -
  have "unat a * unat b < 2 ^ 256 * 2 ^ 256"
    by (intro mult_strict_mono unat_less_exp) simp_all
  then show ?thesis
    by (simp add: unat_word_ariths unat_ucast_up)
qed

interpretation words: primitive_types_spec word_types
  by unfold_locales
    (simp_all add: word_types_def unat_full_mul unat_saturating_add unat_saturating_sub
      unat_div_distrib unat_mod_distrib unat_sub unat_saturating_mul)

section \<open>Properties\<close>

text \<open>
  C13. Multiply-then-divide is exact. Under the documented behaviour of \<^verbatim>\<open>primitive_types\<close>,
  whichever of the fast paths \<open>mul_div_with_rounding\<close> takes, its result is the floor, or when
  rounding up the ceiling, of the exact rational quotient, as long as that fits into 256 bits.
\<close>

theorem mul_div_exact:
  assumes "primitive_types_spec P" and "d \<noteq> 0"
    and "unat x * unat y \<le> (2 ^ 256 - 1) * unat d"
  shows "if up
    then \<forall>k. unat (mul_div_with_rounding P x y d up) \<le> k \<longleftrightarrow> unat x * unat y \<le> k * unat d
    else \<forall>k. k \<le> unat (mul_div_with_rounding P x y d up) \<longleftrightarrow> k * unat d \<le> unat x * unat y"
proof -
  have d: "0 < unat d" using assms(2) by (simp add: unat_gt_0)
  have "quot (unat x) (unat y) (unat d) True \<le> 2 ^ 256 - 1"
    using d assms(3) by (simp add: quot_ceil_le)
  then have "quot (unat x) (unat y) (unat d) up < 2 ^ 256"
    using quot_floor_le_ceil [of "unat x" "unat y" "unat d"] by (cases up) simp_all
  then have "unat (mul_div_with_rounding P x y d up) = quot (unat x) (unat y) (unat d) up"
    by (rule primitive_types_spec.mul_div_quot [OF assms(1,2)])
  with d show ?thesis by (cases up) (simp_all add: quot_ceil_le le_quot_floor)
qed

theorem mul_div_exact_witness:
  "primitive_types_spec word_types \<and>
   (\<forall>k. unat (mul_div_with_rounding word_types 7 10 4 True) \<le> k \<longleftrightarrow> 70 \<le> k * 4) \<and>
   mul_div_with_rounding word_types 7 10 4 True = 18"
  using mul_div_exact [OF words.primitive_types_spec_axioms, of 4 7 10 True]
    words.primitive_types_spec_axioms
  by (simp add: mul_div_with_rounding_def as_u128_if_fits_eq mul_div_u128_def checked_mul_def
    as_u128_trunc_def number_from_def saturating_add_def checked_add_def)

end
