(* ===== verification/Kernel_Wad.thy ===== *)
theory Kernel_Wad
  imports Kernel_Number
begin

text \<open>
  Fixed-point fractions and fee arithmetic (\<^verbatim>\<open>src/contract/vault/kernel/src/math/wad.rs\<close>).

  \<^item> A \<^verbatim>\<open>Wad\<close> is a newtype of \<^verbatim>\<open>Number\<close>, the fraction scaled by \<open>SCALE\<close>.
  \<^item> The fee routines mint shares: the lemmas bound what the minted shares can claim of the assets by
    the fee that is due, and show that the growth cap limits what counts as profit.
\<close>

type_synonym Wad = Number

definition SCALE :: u128 where
  "SCALE = 1000000000000000000"

definition MAX_MANAGEMENT_FEE_WAD :: u128 where
  "MAX_MANAGEMENT_FEE_WAD = SCALE div 100 * 5"

definition MAX_PERFORMANCE_FEE_WAD :: u128 where
  "MAX_PERFORMANCE_FEE_WAD = SCALE div 100 * 50"

definition YEAR_NS :: u64 where
  "YEAR_NS = 365 * 24 * 60 * 60 * 1000000000"

definition wad_one :: Wad where
  "wad_one = number_from SCALE"

definition mul_wad_floor :: "primitive_types \<Rightarrow> Number \<Rightarrow> Wad \<Rightarrow> Number" where
  "mul_wad_floor P x y = mul_div_floor P x y (number_from SCALE)"

definition apply_floored :: "primitive_types \<Rightarrow> Wad \<Rightarrow> Number \<Rightarrow> Number" where
  "apply_floored P w amount = mul_wad_floor P amount w"

definition compute_fee_shares_from_assets ::
    "primitive_types \<Rightarrow> Number \<Rightarrow> Number \<Rightarrow> Number \<Rightarrow> Number" where
  "compute_fee_shares_from_assets P fee_assets cur_total_assets total_supply =
     (if fee_assets = 0 \<or> total_supply = 0 then 0
      else if cur_total_assets \<le> fee_assets then 0
      else
        let denom = u256_sub P cur_total_assets fee_assets
        in mul_div_floor P fee_assets total_supply denom)"

definition compute_fee_shares ::
    "primitive_types \<Rightarrow> Number \<Rightarrow> Number \<Rightarrow> Wad \<Rightarrow> Number \<Rightarrow> Number" where
  "compute_fee_shares P cur_total_assets last_total_assets performance_fee total_supply =
     (let profit = u256_saturating_sub P cur_total_assets last_total_assets
      in compute_fee_shares_from_assets P (apply_floored P performance_fee profit)
           cur_total_assets total_supply)"

definition total_assets_for_fee_accrual ::
    "primitive_types \<Rightarrow> u128 \<Rightarrow> u128 \<Rightarrow> u64 \<Rightarrow> u64 \<Rightarrow> Wad option \<Rightarrow> u128" where
  "total_assets_for_fee_accrual P cur_total_assets anchor_total_assets anchor_timestamp_ns now_ns
     max_rate =
     (if anchor_total_assets = 0 then 0
      else
        (case max_rate of
           None \<Rightarrow> cur_total_assets
         | Some rate \<Rightarrow>
             if cur_total_assets \<le> anchor_total_assets \<or> now_ns < anchor_timestamp_ns
             then cur_total_assets
             else
               let elapsed_ns = now_ns - anchor_timestamp_ns in
               if elapsed_ns = 0 then anchor_total_assets
               else
                 let annual_max_increase = apply_floored P rate (number_from anchor_total_assets);
                     max_increase = as_u128_saturating (mul_div_floor P annual_max_increase
                       (number_from (ucast elapsed_ns)) (number_from (ucast YEAR_NS)));
                     max_total_assets = saturating_add anchor_total_assets max_increase
                 in min cur_total_assets max_total_assets))"

definition compute_management_fee_shares ::
    "primitive_types \<Rightarrow> u128 \<Rightarrow> u128 \<Rightarrow> u128 \<Rightarrow> Wad \<Rightarrow> u64 \<Rightarrow> u64 \<Rightarrow> Number" where
  "compute_management_fee_shares P fee_assets_base cur_total_assets total_supply
     management_fee_wad last_timestamp_ns now_ns =
     (if management_fee_wad = 0 \<or> total_supply = 0 \<or> now_ns \<le> last_timestamp_ns then 0
      else
        let elapsed_ns = now_ns - last_timestamp_ns;
            annual_fee_assets = apply_floored P management_fee_wad (number_from fee_assets_base);
            fee_assets = mul_div_floor P annual_fee_assets
              (number_from (ucast elapsed_ns)) (number_from (ucast YEAR_NS))
        in compute_fee_shares_from_assets P fee_assets (number_from cur_total_assets)
             (number_from total_supply))"

section \<open>Lemmas\<close>

lemma unat_SCALE [simp]: "unat SCALE = 1000000000000000000"
  by (simp add: SCALE_def)

lemma unat_YEAR_NS [simp]: "unat YEAR_NS = 31536000000000000"
  by (simp add: YEAR_NS_def)

lemma unat_ucast_u64 [simp]: "unat (ucast (t :: u64) :: u128) = unat t"
  by (simp add: unat_ucast_up)

lemma quot_floor_mult_le: "0 < d \<Longrightarrow> n \<le> quot x y d False \<Longrightarrow> n * d \<le> x * y"
  by (simp add: le_quot_floor)

context primitive_types_spec
begin

lemma apply_floored_le: "unat (apply_floored P w x) * unat SCALE \<le> unat x * unat w"
  unfolding apply_floored_def mul_wad_floor_def
  using mul_div_floor_le [of x w "number_from SCALE"] by (intro quot_floor_mult_le) simp_all

lemma apply_floored_quot:
  "unat x * unat w < 2 ^ 256 * unat SCALE \<Longrightarrow>
    unat (apply_floored P w x) = unat x * unat w div unat SCALE"
  by (simp add: apply_floored_def mul_wad_floor_def mul_div_floor_quot quot_floor
    div_less_iff_less_mult word_eq_nat [where ?'a = 256])

text \<open>A rate applied to an amount and pro-rated over a part of a year.\<close>

lemma prorated_le:
  "unat (mul_div_floor P (apply_floored P w (number_from x))
      (number_from (ucast (t :: u64))) (number_from (ucast YEAR_NS)))
     * (unat SCALE * unat YEAR_NS) \<le> unat x * unat w * unat t"
  (is "?n * _ \<le> _")
proof -
  let ?a = "unat (apply_floored P w (number_from x))"
  have "?n * unat YEAR_NS \<le> ?a * unat t"
    using mul_div_floor_le [of _ "number_from (ucast t)" "number_from (ucast YEAR_NS)"]
    by (intro quot_floor_mult_le) simp_all
  then have "?n * unat YEAR_NS * unat SCALE \<le> ?a * unat t * unat SCALE"
    by (rule mult_le_mono1)
  also have "\<dots> = ?a * unat SCALE * unat t" by simp
  also have "\<dots> \<le> unat x * unat w * unat t"
    using apply_floored_le [of w "number_from x"] by (intro mult_le_mono1) simp
  finally show ?thesis by (simp add: ac_simps)
qed

text \<open>
  Minted fee shares are worth at most the fee: of the total assets \<open>A\<close>, the share of \<open>s\<close> fee
  shares among \<open>S + s\<close> is at most the fee assets \<open>F\<close>.
\<close>

lemma fee_shares_claim_le:
  "unat (compute_fee_shares_from_assets P F A S) * unat A
     \<le> unat F * (unat S + unat (compute_fee_shares_from_assets P F A S))"
proof (cases "F = 0 \<or> S = 0 \<or> A \<le> F")
  case True
  then show ?thesis by (auto simp: compute_fee_shares_from_assets_def)
next
  case False
  let ?s = "compute_fee_shares_from_assets P F A S"
  have d: "unat (u256_sub P A F) = unat A - unat F" "unat F < unat A"
    using False by (simp_all add: sub_law word_nat not_le)
  have "unat ?s * unat (u256_sub P A F) \<le> unat F * unat S"
    using False d mul_div_floor_le [of F S "u256_sub P A F"]
    by (intro quot_floor_mult_le) (simp_all add: compute_fee_shares_from_assets_def)
  moreover have "unat ?s * unat A = unat ?s * (unat A - unat F) + unat ?s * unat F"
    using d(2) by (simp flip: distrib_left)
  ultimately show ?thesis
    by (simp add: d(1) distrib_left mult.commute)
qed

lemma fee_shares_maximal:
  assumes "F \<noteq> 0" and "S \<noteq> 0" and "F < A"
    and "unat F * unat S < 2 ^ 256"
  shows "unat F * unat S < (unat (compute_fee_shares_from_assets P F A S) + 1) * (unat A - unat F)"
proof -
  have d: "unat (u256_sub P A F) = unat A - unat F" "unat F < unat A"
    using assms(3) by (simp_all add: sub_law word_nat)
  then have pos: "0 < unat (u256_sub P A F)" by simp
  then have "quot (unat F) (unat S) (unat (u256_sub P A F)) False < 2 ^ 256"
    using quot_bound [OF pos, of "unat F" "unat S" False] assms(4) by linarith
  then have "unat (compute_fee_shares_from_assets P F A S) =
      quot (unat F) (unat S) (unat (u256_sub P A F)) False"
    using assms pos by (auto simp: compute_fee_shares_from_assets_def mul_div_floor_quot not_le unat_gt_0)
  then show ?thesis
    using quot_floor_gt [OF pos, of "unat F" "unat S"] by (simp add: d(1))
qed

lemma accrual_growth_le:
  assumes "total_assets_for_fee_accrual P cur anchor t0 now (Some rate) = n"
    and "anchor < cur" and "t0 \<le> now"
  shows "(unat n - unat anchor) * (unat SCALE * unat YEAR_NS)
    \<le> unat anchor * unat rate * (unat now - unat t0)"
proof (cases "anchor = 0 \<or> now = t0")
  case True
  with assms show ?thesis
    by (auto simp: total_assets_for_fee_accrual_def split: if_splits)
next
  case False
  let ?inc = "mul_div_floor P (apply_floored P rate (number_from anchor))
    (number_from (ucast (now - t0))) (number_from (ucast YEAR_NS))"
  have "n = min cur (saturating_add anchor (as_u128_saturating ?inc))"
    using assms False by (auto simp: total_assets_for_fee_accrual_def not_le not_less)
  then have "unat n \<le> unat (saturating_add anchor (as_u128_saturating ?inc))"
    by (simp add: min_def word_nat split: if_splits)
  then have "unat n - unat anchor \<le> unat ?inc"
    by (simp add: word_nat min_def split: if_splits)
  then have "(unat n - unat anchor) * (unat SCALE * unat YEAR_NS)
      \<le> unat ?inc * (unat SCALE * unat YEAR_NS)"
    by (rule mult_le_mono1)
  also have "\<dots> \<le> unat anchor * unat rate * unat (now - t0)"
    by (rule prorated_le)
  also have "unat (now - t0) = unat now - unat t0"
    using assms(3) by (rule unat_sub)
  finally show ?thesis .
qed

end

lemma accrual_le_current: "total_assets_for_fee_accrual P cur anchor t0 now rate \<le> cur"
  by (auto simp: total_assets_for_fee_accrual_def Let_def split: option.splits)

lemma accrual_ge_anchor:
  assumes "anchor \<noteq> 0"
  shows "min cur anchor \<le> total_assets_for_fee_accrual P cur anchor t0 now rate"
proof -
  have "anchor \<le> saturating_add anchor x" for x
    using unat_le_max [of anchor] by (simp add: word_nat)
  with assms show ?thesis
    by (auto simp: total_assets_for_fee_accrual_def Let_def min_def split: option.splits)
qed

end
