(* ===== verification/Kernel_Types.thy ===== *)
theory Kernel_Types
  imports Kernel_Wad
begin

text \<open>
  The kernel's small shared types (under \<^verbatim>\<open>src/contract/vault/kernel/src/\<close>): addresses, timestamps
  and settlements (\<^verbatim>\<open>types/mod.rs\<close>), the time gate (\<^verbatim>\<open>utils/mod.rs\<close>), fee slots
  (\<^verbatim>\<open>fee/mod.rs\<close>), access restrictions (\<^verbatim>\<open>restrictions/mod.rs\<close>) and the address book
  (\<^verbatim>\<open>address_book.rs\<close>).

  \<^item> An \<^verbatim>\<open>Address\<close> is an array of 32 bytes, held as the 256-bit word the bytes spell from the most
    significant one on, so that equality and order agree with those of the array.
  \<^item> The newtypes over \<^verbatim>\<open>u64\<close> and \<^verbatim>\<open>u32\<close> are synonyms.
  \<^item> The locale \<open>address_map\<close> is what the executors rely on of the address book.
\<close>

type_synonym Address = "256 word"
type_synonym TimestampNs = u64
type_synonym DurationNs = u64
type_synonym TargetId = u32

section \<open>Settlements\<close>

record EscrowSettlement =
  to_burn :: u128
  refund :: u128

definition from_escrow_and_burn :: "u128 \<Rightarrow> u128 \<Rightarrow> EscrowSettlement" where
  "from_escrow_and_burn escrow_shares burn_shares =
     (let burn = min burn_shares escrow_shares
      in \<lparr>to_burn = burn, refund = saturating_sub escrow_shares burn\<rparr>)"

definition burn_all :: "u128 \<Rightarrow> EscrowSettlement" where
  "burn_all shares = \<lparr>to_burn = shares, refund = 0\<rparr>"

definition refund_all :: "u128 \<Rightarrow> EscrowSettlement" where
  "refund_all shares = \<lparr>to_burn = 0, refund = shares\<rparr>"

definition settlement_partial :: "u128 \<Rightarrow> u128 \<Rightarrow> EscrowSettlement" where
  "settlement_partial burn refunded = \<lparr>to_burn = burn, refund = refunded\<rparr>"

text \<open>The shares a settlement accounts for, and that every constructor accounts for its escrow.\<close>

definition settlement_total :: "EscrowSettlement \<Rightarrow> nat" where
  "settlement_total s = unat (to_burn s) + unat (refund s)"

lemma settlement_total_from_escrow [simp]:
  "settlement_total (from_escrow_and_burn escrow burn) = unat escrow"
  by (simp add: settlement_total_def from_escrow_and_burn_def Let_def word_nat min_def)

lemma settlement_total_all [simp]:
  "settlement_total (burn_all n) = unat n" "settlement_total (refund_all n) = unat n"
  by (simp_all add: settlement_total_def burn_all_def refund_all_def)

lemma to_burn_from_escrow: "to_burn (from_escrow_and_burn escrow burn) = min burn escrow"
  by (simp add: from_escrow_and_burn_def Let_def)

section \<open>Time gate\<close>

record TimeGate =
  ready_at_ns :: "TimestampNs option"

definition ready_now :: TimeGate where
  "ready_now = \<lparr>ready_at_ns = None\<rparr>"

definition from_ready_at :: "TimestampNs \<Rightarrow> TimeGate" where
  "from_ready_at t = \<lparr>ready_at_ns = Some t\<rparr>"

definition schedule_from :: "TimestampNs \<Rightarrow> DurationNs \<Rightarrow> TimeGate" where
  "schedule_from now_ns delay_ns = from_ready_at (saturating_add now_ns delay_ns)"

definition is_ready :: "TimeGate \<Rightarrow> TimestampNs \<Rightarrow> bool" where
  "is_ready gate now_ns =
     (case ready_at_ns gate of None \<Rightarrow> True | Some ready_at \<Rightarrow> ready_at \<le> now_ns)"

definition remaining :: "TimeGate \<Rightarrow> TimestampNs \<Rightarrow> TimestampNs" where
  "remaining gate now_ns =
     (case ready_at_ns gate of None \<Rightarrow> 0 | Some ready_at \<Rightarrow> saturating_sub ready_at now_ns)"

lemma is_ready_iff_remaining_0: "is_ready g now \<longleftrightarrow> remaining g now = 0"
  by (auto simp: is_ready_def remaining_def word_eq_nat [where ?'a = 64] word_nat
    split: option.splits)

lemma is_ready_mono: "is_ready g t \<Longrightarrow> t \<le> t' \<Longrightarrow> is_ready g t'"
  by (auto simp: is_ready_def split: option.splits)

lemma is_ready_schedule_from:
  "is_ready (schedule_from now delay) t \<longleftrightarrow>
     min (unat now + unat delay) (2 ^ 64 - 1) \<le> unat t"
  by (simp add: is_ready_def schedule_from_def from_ready_at_def word_nat)

section \<open>Fees\<close>

record FeeSlot =
  fee_wad :: Wad
  fee_recipient :: Address

definition FeeSlot_ZERO :: FeeSlot where
  "FeeSlot_ZERO = \<lparr>fee_wad = 0, fee_recipient = 0\<rparr>"

definition has_rate :: "FeeSlot \<Rightarrow> bool" where
  "has_rate slot \<longleftrightarrow> fee_wad slot \<noteq> 0"

definition is_zero_rate :: "FeeSlot \<Rightarrow> bool" where
  "is_zero_rate slot \<longleftrightarrow> \<not> has_rate slot"

record FeesSpec =
  performance :: FeeSlot
  management :: FeeSlot
  max_total_assets_growth_rate :: "Wad option"

definition FeesSpec_ZERO :: FeesSpec where
  "FeesSpec_ZERO =
     \<lparr>performance = FeeSlot_ZERO, management = FeeSlot_ZERO, max_total_assets_growth_rate = None\<rparr>"

definition has_active_slot_fees :: "FeesSpec \<Rightarrow> bool" where
  "has_active_slot_fees fees \<longleftrightarrow> has_rate (performance fees) \<or> has_rate (management fees)"

definition has_growth_cap :: "FeesSpec \<Rightarrow> bool" where
  "has_growth_cap fees \<longleftrightarrow> max_total_assets_growth_rate fees \<noteq> None"

definition fees_is_zero :: "FeesSpec \<Rightarrow> bool" where
  "fees_is_zero fees \<longleftrightarrow> \<not> has_active_slot_fees fees \<and> \<not> has_growth_cap fees"

section \<open>Restrictions\<close>

text \<open>The loop of \<^verbatim>\<open>normalize_addresses\<close>, with the vector it fills as accumulator.\<close>

fun normalize_loop :: "Address list \<Rightarrow> Address list \<Rightarrow> Address list" where
  "normalize_loop deduped [] = deduped"
| "normalize_loop deduped (a # as) =
     normalize_loop (if a \<in> set deduped then deduped else deduped @ [a]) as"

definition normalize_addresses :: "Address list \<Rightarrow> Address list" where
  "normalize_addresses addresses = normalize_loop [] addresses"

datatype RestrictionKind = Paused | Blacklisted | NotWhitelisted

datatype RestrictionMode = Blacklist "Address list" | Whitelist "Address list"

definition blacklist :: "Address list \<Rightarrow> RestrictionMode" where
  "blacklist addresses = Blacklist (normalize_addresses addresses)"

definition whitelist :: "Address list \<Rightarrow> RestrictionMode" where
  "whitelist addresses = Whitelist (normalize_addresses addresses)"

fun normalized :: "RestrictionMode \<Rightarrow> RestrictionMode" where
  "normalized (Blacklist addresses) = Blacklist (normalize_addresses addresses)"
| "normalized (Whitelist addresses) = Whitelist (normalize_addresses addresses)"

fun is_restricted :: "RestrictionMode \<Rightarrow> Address \<Rightarrow> RestrictionKind option" where
  "is_restricted (Blacklist l) actor_id = (if actor_id \<in> set l then Some Blacklisted else None)"
| "is_restricted (Whitelist l) actor_id = (if actor_id \<in> set l then None else Some NotWhitelisted)"

fun is_restricted_allowing_self ::
    "RestrictionMode \<Rightarrow> Address \<Rightarrow> Address \<Rightarrow> RestrictionKind option" where
  "is_restricted_allowing_self (Whitelist l) actor_id self_id =
     (if actor_id = self_id then None else is_restricted (Whitelist l) actor_id)"
| "is_restricted_allowing_self (Blacklist l) actor_id self_id = is_restricted (Blacklist l) actor_id"

lemma set_normalize_loop: "set (normalize_loop acc as) = set acc \<union> set as"
  by (induction as arbitrary: acc) auto

lemma distinct_normalize_loop: "distinct acc \<Longrightarrow> distinct (normalize_loop acc as)"
  by (induction as arbitrary: acc) auto

lemma normalize_loop_distinct:
  "distinct as \<Longrightarrow> set acc \<inter> set as = {} \<Longrightarrow> normalize_loop acc as = acc @ as"
  by (induction as arbitrary: acc) auto

lemma set_normalize_addresses [simp]: "set (normalize_addresses as) = set as"
  by (simp add: normalize_addresses_def set_normalize_loop)

lemma distinct_normalize_addresses [simp]: "distinct (normalize_addresses as)"
  by (simp add: normalize_addresses_def distinct_normalize_loop)

lemma normalize_addresses_distinct: "distinct as \<Longrightarrow> normalize_addresses as = as"
  by (simp add: normalize_addresses_def normalize_loop_distinct)

lemma is_restricted_normalized [simp]: "is_restricted (normalized m) a = is_restricted m a"
  by (cases m) simp_all

lemma normalized_idem [simp]: "normalized (normalized m) = normalized m"
  by (cases m) (simp_all add: normalize_addresses_distinct)

lemma self_never_restricted_by_whitelist [simp]:
  "is_restricted_allowing_self (Whitelist l) a a = None"
  by simp

section \<open>Address book\<close>

text \<open>The interface: what the executors rely on when they resolve the addresses of an effect.\<close>

locale address_map =
  fixes book_empty :: "'b"
    and book_insert :: "Address \<Rightarrow> 'v \<Rightarrow> 'b \<Rightarrow> 'b"
    and book_resolve :: "'b \<Rightarrow> Address \<Rightarrow> 'v option"
  assumes resolve_empty: "book_resolve book_empty a = None"
    and resolve_insert:
      "book_resolve (book_insert a v b) a' = (if a' = a then Some v else book_resolve b a')"
begin

lemma resolve_fold_insert:
  "book_resolve (fold (\<lambda>(a, v). book_insert a v) xs b) a =
     (case map_of (rev xs) a of Some v \<Rightarrow> Some v | None \<Rightarrow> book_resolve b a)"
  by (induction xs arbitrary: b) (auto simp: resolve_insert map_add_def split: option.splits)

lemma resolve_from_list:
  "book_resolve (fold (\<lambda>(a, v). book_insert a v) xs book_empty) a = map_of (rev xs) a"
  by (simp add: resolve_fold_insert resolve_empty split: option.splits)

end

type_synonym 'v AddressBook = "(Address \<times> 'v) list"

definition book_new :: "'v AddressBook" where
  "book_new = []"

primrec book_insert :: "Address \<Rightarrow> 'v \<Rightarrow> 'v AddressBook \<Rightarrow> 'v AddressBook" where
  "book_insert address v [] = [(address, v)]"
| "book_insert address v (e # es) =
     (if fst e = address then (fst e, v) # es else e # book_insert address v es)"

definition book_resolve :: "'v AddressBook \<Rightarrow> Address \<Rightarrow> 'v option" where
  "book_resolve book address = map_option snd (find (\<lambda>e. fst e = address) book)"

definition book_contains :: "'v AddressBook \<Rightarrow> Address \<Rightarrow> bool" where
  "book_contains book address \<longleftrightarrow> list_ex (\<lambda>e. fst e = address) book"

definition book_from :: "(Address \<times> 'v) list \<Rightarrow> 'v AddressBook" where
  "book_from addresses = fold (\<lambda>(a, v). book_insert a v) addresses book_new"

lemma book_resolve_simps [simp]:
  "book_resolve [] a = None"
  "book_resolve (e # es) a = (if fst e = a then Some (snd e) else book_resolve es a)"
  by (simp_all add: book_resolve_def)

lemma book_contains_resolve: "book_contains b a \<longleftrightarrow> book_resolve b a \<noteq> None"
  by (induction b) (auto simp: book_contains_def)

lemma fst_set_book_insert: "fst ` set (book_insert a v b) = insert a (fst ` set b)"
  by (induction b) auto

lemma distinct_book_insert:
  "distinct (map fst b) \<Longrightarrow> distinct (map fst (book_insert a v b))"
  by (induction b) (simp_all add: fst_set_book_insert, metis)

interpretation book: address_map book_new book_insert book_resolve
proof
  show "book_resolve book_new a = (None :: 'v option)" for a
    by (simp add: book_new_def)
  show "book_resolve (book_insert a v b) a' = (if a' = a then Some v else book_resolve b a')"
    for a a' and v :: 'v and b
    by (induction b) auto
qed

lemma distinct_book_from: "distinct (map fst (book_from xs))"
proof -
  have "distinct (map fst b) \<Longrightarrow> distinct (map fst (fold (\<lambda>(a, v). book_insert a v) xs b))" for b
    by (induction xs arbitrary: b) (auto simp: distinct_book_insert)
  then show ?thesis by (simp add: book_from_def book_new_def)
qed

end
