(* ===== verification/Kernel_Escrow.thy ===== *)
theory Kernel_Escrow
  imports Kernel_Types
begin

text \<open>
  Escrowed shares and their settlement
  (\<^verbatim>\<open>src/contract/vault/kernel/src/state/escrow/mod.rs\<close>).

  The lemmas show that a settlement accounts for the whole escrow, that a partial one burns at least
  the proportion of the shares that is paid for, and that applying a settlement never creates shares.
\<close>

record EscrowEntry =
  entry_owner :: Address
  entry_shares :: u128
  entry_created_at_ns :: TimestampNs
  entry_expected_assets :: u128

record SettlementResult =
  burned :: u128
  refunded :: u128
  result_remaining :: u128

record EscrowStats =
  stats_count :: u32
  stats_total_shares :: u128
  stats_total_expected_assets :: u128

definition apply_settlement :: "EscrowEntry \<Rightarrow> EscrowSettlement \<Rightarrow> SettlementResult option" where
  "apply_settlement entry settlement =
     (case checked_add (to_burn settlement) (refund settlement) of
        None \<Rightarrow> None
      | Some total_settled \<Rightarrow>
          if entry_shares entry < total_settled then None
          else Some \<lparr>burned = to_burn settlement, refunded = refund settlement,
            result_remaining = saturating_sub (entry_shares entry) total_settled\<rparr>)"

definition settle_proportional_raw ::
    "primitive_types \<Rightarrow> u128 \<Rightarrow> u128 \<Rightarrow> u128 \<Rightarrow> EscrowSettlement" where
  "settle_proportional_raw P shares expected actual =
     (if shares = 0 then \<lparr>to_burn = 0, refund = 0\<rparr>
      else if actual = 0 then refund_all shares
      else if expected = 0 then refund_all shares
      else if expected \<le> actual then burn_all shares
      else
        let burn = as_u128_trunc (mul_div_ceil P (number_from shares) (number_from actual)
              (number_from expected))
        in settlement_partial burn (saturating_sub shares burn))"

definition settle_proportional :: "primitive_types \<Rightarrow> EscrowEntry \<Rightarrow> u128 \<Rightarrow> EscrowSettlement" where
  "settle_proportional P entry actual =
     settle_proportional_raw P (entry_shares entry) (entry_expected_assets entry) actual"

definition can_apply_settlement :: "EscrowEntry \<Rightarrow> EscrowSettlement \<Rightarrow> bool" where
  "can_apply_settlement entry settlement =
     (case checked_add (to_burn settlement) (refund settlement) of
        None \<Rightarrow> False
      | Some settled \<Rightarrow> settled \<le> entry_shares entry)"

definition is_stale :: "EscrowEntry \<Rightarrow> TimestampNs \<Rightarrow> u64 \<Rightarrow> bool" where
  "is_stale entry now_ns max_age_ns \<longleftrightarrow>
     saturating_add (entry_created_at_ns entry) max_age_ns < now_ns"

definition stats_add :: "EscrowEntry \<Rightarrow> EscrowStats \<Rightarrow> EscrowStats" where
  "stats_add entry stats =
     \<lparr>stats_count = saturating_add (stats_count stats) 1,
      stats_total_shares = saturating_add (stats_total_shares stats) (entry_shares entry),
      stats_total_expected_assets =
        saturating_add (stats_total_expected_assets stats) (entry_expected_assets entry)\<rparr>"

definition compute_escrow_stats :: "EscrowEntry list \<Rightarrow> EscrowStats" where
  "compute_escrow_stats entries =
     fold stats_add entries
       \<lparr>stats_count = 0, stats_total_shares = 0, stats_total_expected_assets = 0\<rparr>"

definition find_by_owner :: "EscrowEntry list \<Rightarrow> Address \<Rightarrow> EscrowEntry option" where
  "find_by_owner entries owner = find (\<lambda>e. entry_owner e = owner) entries"

definition total_burn :: "EscrowSettlement list \<Rightarrow> u128" where
  "total_burn settlements = fold (\<lambda>s acc. saturating_add acc (to_burn s)) settlements 0"

definition total_refund :: "EscrowSettlement list \<Rightarrow> u128" where
  "total_refund settlements = fold (\<lambda>s acc. saturating_add acc (refund s)) settlements 0"

section \<open>Lemmas\<close>

text \<open>Saturating sums over a list are the exact sum, cut at the largest value.\<close>

lemma unat_fold_saturating_add:
  "unat (fold (\<lambda>x acc. saturating_add acc (f x)) xs (a :: 'w::len word)) =
     min (unat a + sum_list (map (unat \<circ> f) xs)) (2 ^ LENGTH('w) - 1)"
proof (induction xs arbitrary: a)
  case Nil
  then show ?case using unat_le_max [of a] by simp
next
  case (Cons x xs)
  then show ?case by (auto simp: word_nat min_def add.assoc)
qed

lemma unat_total_burn:
  "unat (total_burn ss) = min (sum_list (map (unat \<circ> to_burn) ss)) (2 ^ 128 - 1)"
  by (simp add: total_burn_def unat_fold_saturating_add)

lemma unat_total_refund:
  "unat (total_refund ss) = min (sum_list (map (unat \<circ> refund) ss)) (2 ^ 128 - 1)"
  by (simp add: total_refund_def unat_fold_saturating_add)

lemma fold_stats_add:
  "unat (stats_total_shares (fold stats_add es s)) =
     min (unat (stats_total_shares s) + sum_list (map (unat \<circ> entry_shares) es)) (2 ^ 128 - 1)"
proof (induction es arbitrary: s)
  case Nil
  then show ?case using unat_le_max [of "stats_total_shares s"] by simp
next
  case (Cons e es)
  then show ?case by (simp add: stats_add_def word_nat min_def add.assoc)
qed

lemma stats_total_shares_escrow:
  "unat (stats_total_shares (compute_escrow_stats es)) =
     min (sum_list (map (unat \<circ> entry_shares) es)) (2 ^ 128 - 1)"
  by (simp add: compute_escrow_stats_def fold_stats_add)

lemma apply_settlement_conserves:
  "apply_settlement e s = Some r \<Longrightarrow>
    unat (burned r) + unat (refunded r) + unat (result_remaining r) = unat (entry_shares e)"
  by (auto simp: apply_settlement_def word_nat not_less split: option.splits if_splits)

lemma apply_settlement_iff: "(\<exists>r. apply_settlement e s = Some r) \<longleftrightarrow> can_apply_settlement e s"
  by (auto simp: apply_settlement_def can_apply_settlement_def not_le split: option.splits)

text \<open>The partial case: the shares burned are the ceiling of the paid proportion.\<close>

context primitive_types_spec
begin

lemma partial_burn:
  assumes "actual < expected"
  shows "unat (as_u128_trunc (mul_div_ceil P (number_from shares) (number_from actual)
      (number_from expected))) = quot (unat shares) (unat actual) (unat expected) True"
proof -
  have "quot (unat shares) (unat actual) (unat expected) True \<le> unat shares"
    using assms by (intro quot_le_left) (simp add: word_nat)
  then have "quot (unat shares) (unat actual) (unat expected) True < 2 ^ 128"
    using unat_le_max [of shares] by simp
  then show ?thesis by (simp add: as_u128_trunc_fits mul_div_ceil_number_from)
qed

lemma settle_proportional_raw_total:
  "settlement_total (settle_proportional_raw P shares expected actual) = unat shares"
proof (cases "shares = 0 \<or> actual = 0 \<or> expected = 0 \<or> expected \<le> actual")
  case True
  then show ?thesis
    by (auto simp: settle_proportional_raw_def, simp_all add: settlement_total_def)
next
  case False
  then have lt: "actual < expected" by (simp add: not_le)
  have "quot (unat shares) (unat actual) (unat expected) True \<le> unat shares"
    using lt by (intro quot_le_left) (simp add: word_nat)
  with False show ?thesis
    by (simp add: settle_proportional_raw_def Let_def settlement_total_def settlement_partial_def
      partial_burn [OF lt] unat_saturating_sub)
qed

lemma settle_proportional_raw_burn:
  assumes "shares \<noteq> 0" and "actual \<noteq> 0" and "expected \<noteq> 0"
  shows "unat shares * min (unat actual) (unat expected)
      \<le> unat (to_burn (settle_proportional_raw P shares expected actual)) * unat expected"
    and "to_burn (settle_proportional_raw P shares expected actual) \<noteq> 0"
proof -
  have e: "0 < unat expected" using assms(3) by (simp add: unat_gt_0)
  have burn: "unat (to_burn (settle_proportional_raw P shares expected actual)) =
      (if expected \<le> actual then unat shares
       else quot (unat shares) (unat actual) (unat expected) True)"
  proof (cases "actual < expected")
    case True
    then have "\<not> expected \<le> actual" by (simp add: not_le)
    with assms True show ?thesis
      by (simp add: settle_proportional_raw_def Let_def settlement_partial_def partial_burn)
  next
    case False
    then have "expected \<le> actual" by (simp add: not_less)
    with assms show ?thesis by (simp add: settle_proportional_raw_def burn_all_def)
  qed
  show "unat shares * min (unat actual) (unat expected)
      \<le> unat (to_burn (settle_proportional_raw P shares expected actual)) * unat expected"
    using quot_ceil_ge [OF e, of "unat shares" "unat actual"]
    by (auto simp: burn word_nat min_def)
  have "0 < unat shares" "0 < unat actual" using assms by (simp_all add: unat_gt_0)
  with e have "0 < unat (to_burn (settle_proportional_raw P shares expected actual))"
    by (simp add: burn quot_ceil_pos)
  then show "to_burn (settle_proportional_raw P shares expected actual) \<noteq> 0"
    by (simp add: unat_gt_0)
qed

end

end
