(* ===== verification/Kernel_Settlement.thy ===== *)
theory Kernel_Settlement
  imports Kernel_Escrow
begin

text \<open>
  Pending withdrawals and how they are settled: the pure functions of
  \<^verbatim>\<open>src/contract/vault/kernel/src/state/queue/mod.rs\<close> up to the queue's storage types.

  A settlement splits the escrowed shares into a part that is burned and a part that is refunded. The
  lemmas show that nothing is lost, that a payout never exceeds what is available or expected, and
  that assets never leave without burning at least their proportion of the shares.
\<close>

section \<open>Requests and checks\<close>

definition MAX_PENDING :: nat where
  "MAX_PENDING = 1024"

definition MIN_WITHDRAWAL_ASSETS :: u128 where
  "MIN_WITHDRAWAL_ASSETS = 1000"

definition MAX_QUEUE_LENGTH :: u32 where
  "MAX_QUEUE_LENGTH = of_nat MAX_PENDING"

definition DEFAULT_COOLDOWN_NS :: u64 where
  "DEFAULT_COOLDOWN_NS = 60 * 60 * 1000000000"

record PendingWithdrawal =
  owner :: Address
  receiver :: Address
  escrow_shares :: u128
  expected_assets :: u128
  requested_at_ns :: TimestampNs

record WithdrawalResult =
  assets_out :: u128
  settlement :: EscrowSettlement

record WithdrawalRequestStatus =
  status_index :: u32
  status_depth_assets :: u128
  status_withdrawal :: PendingWithdrawal

record QueueStatus =
  queue_length :: u32
  total_expected_assets :: u128
  total_escrow_shares :: u128

definition is_valid_withdrawal_amount :: "u128 \<Rightarrow> bool" where
  "is_valid_withdrawal_amount assets \<longleftrightarrow> MIN_WITHDRAWAL_ASSETS \<le> assets"

definition can_enqueue :: "u32 \<Rightarrow> bool" where
  "can_enqueue current_length \<longleftrightarrow> current_length < MAX_QUEUE_LENGTH"

definition is_past_cooldown :: "TimestampNs \<Rightarrow> TimestampNs \<Rightarrow> u64 \<Rightarrow> bool" where
  "is_past_cooldown requested_at now_ns cooldown_ns \<longleftrightarrow>
     saturating_add requested_at cooldown_ns \<le> now_ns"

definition can_satisfy_withdrawal :: "PendingWithdrawal \<Rightarrow> u128 \<Rightarrow> bool" where
  "can_satisfy_withdrawal w available \<longleftrightarrow> expected_assets w \<le> available"

definition can_partially_satisfy :: "PendingWithdrawal \<Rightarrow> u128 \<Rightarrow> bool" where
  "can_partially_satisfy w available \<longleftrightarrow>
     0 < available \<and> available < expected_assets w \<and> MIN_WITHDRAWAL_ASSETS \<le> available"

fun count_satisfiable_loop ::
    "u32 \<Rightarrow> u128 \<Rightarrow> PendingWithdrawal list \<Rightarrow> u128 \<Rightarrow> u32 \<times> u128" where
  "count_satisfiable_loop count total_assets [] available = (count, total_assets)"
| "count_satisfiable_loop count total_assets (w # ws) available =
     (let new_total = saturating_add total_assets (expected_assets w)
      in if available < new_total then (count, total_assets)
         else count_satisfiable_loop (saturating_add count 1) new_total ws available)"

definition count_satisfiable :: "PendingWithdrawal list \<Rightarrow> u128 \<Rightarrow> u32 \<times> u128" where
  "count_satisfiable withdrawals available = count_satisfiable_loop 0 0 withdrawals available"

section \<open>Settlements\<close>

definition compute_settlement ::
    "primitive_types \<Rightarrow> u128 \<Rightarrow> u128 \<Rightarrow> u128 \<Rightarrow> EscrowSettlement" where
  "compute_settlement P escrow expected actual =
     (if escrow = 0 then \<lparr>to_burn = 0, refund = 0\<rparr>
      else if actual = 0 then refund_all escrow
      else if expected = 0 then refund_all escrow
      else if expected \<le> actual then burn_all escrow
      else
        let shares_to_burn = as_u128_trunc (mul_div_ceil P (number_from escrow)
              (number_from actual) (number_from expected));
            shares_to_refund = saturating_sub escrow shares_to_burn
        in settlement_partial shares_to_burn shares_to_refund)"

definition compute_settlement_by_price ::
    "primitive_types \<Rightarrow> u128 \<Rightarrow> Wad \<Rightarrow> Wad \<Rightarrow> EscrowSettlement" where
  "compute_settlement_by_price P escrow share_price_wad original_share_price_wad =
     (if escrow = 0 \<or> original_share_price_wad = 0 then \<lparr>to_burn = 0, refund = 0\<rparr>
      else if original_share_price_wad \<le> share_price_wad then burn_all escrow
      else
        let shares_to_burn = as_u128_trunc (mul_div_ceil P (number_from escrow)
              share_price_wad original_share_price_wad);
            shares_to_refund = saturating_sub escrow shares_to_burn
        in settlement_partial shares_to_burn shares_to_refund)"

definition compute_idle_settlement ::
    "primitive_types \<Rightarrow> u128 \<Rightarrow> u128 \<Rightarrow> u128 \<Rightarrow> WithdrawalResult option" where
  "compute_idle_settlement P escrow expected available =
     (if expected = 0 then
        Some \<lparr>assets_out = 0,
          settlement = (if 0 < available then burn_all escrow else refund_all escrow)\<rparr>
      else if expected \<le> available then
        Some \<lparr>assets_out = expected, settlement = burn_all escrow\<rparr>
      else if available = 0 then None
      else
        Some \<lparr>assets_out = available,
          settlement = compute_settlement P escrow expected available\<rparr>)"

definition compute_full_withdrawal ::
    "primitive_types \<Rightarrow> PendingWithdrawal \<Rightarrow> u128 \<Rightarrow> WithdrawalResult option" where
  "compute_full_withdrawal P w available =
     (case compute_idle_settlement P (escrow_shares w) (expected_assets w) available of
        None \<Rightarrow> None
      | Some result \<Rightarrow> if assets_out result = expected_assets w then Some result else None)"

definition compute_partial_withdrawal ::
    "primitive_types \<Rightarrow> PendingWithdrawal \<Rightarrow> u128 \<Rightarrow> WithdrawalResult" where
  "compute_partial_withdrawal P w available =
     (let actual = min available (expected_assets w)
      in \<lparr>assets_out = actual,
          settlement = compute_settlement P (escrow_shares w) (expected_assets w) actual\<rparr>)"

definition status_add :: "PendingWithdrawal \<Rightarrow> QueueStatus \<Rightarrow> QueueStatus" where
  "status_add w status =
     \<lparr>queue_length = saturating_add (queue_length status) 1,
      total_expected_assets = saturating_add (total_expected_assets status) (expected_assets w),
      total_escrow_shares = saturating_add (total_escrow_shares status) (escrow_shares w)\<rparr>"

definition compute_queue_status :: "PendingWithdrawal list \<Rightarrow> QueueStatus" where
  "compute_queue_status withdrawals =
     fold status_add withdrawals
       \<lparr>queue_length = 0, total_expected_assets = 0, total_escrow_shares = 0\<rparr>"

fun find_request_status_loop ::
    "u32 \<Rightarrow> u128 \<Rightarrow> PendingWithdrawal list \<Rightarrow> Address \<Rightarrow> WithdrawalRequestStatus option" where
  "find_request_status_loop index depth_assets [] owner_id = None"
| "find_request_status_loop index depth_assets (w # ws) owner_id =
     (if owner w = owner_id then
        Some \<lparr>status_index = index, status_depth_assets = depth_assets, status_withdrawal = w\<rparr>
      else find_request_status_loop (saturating_add index 1)
        (saturating_add depth_assets (expected_assets w)) ws owner_id)"

definition find_request_status ::
    "PendingWithdrawal list \<Rightarrow> Address \<Rightarrow> WithdrawalRequestStatus option" where
  "find_request_status withdrawals owner_id = find_request_status_loop 0 0 withdrawals owner_id"

section \<open>Lemmas\<close>

text \<open>The queue's own settlement function is the escrow module's proportional one.\<close>

lemma compute_settlement_eq: "compute_settlement P escrow expected actual =
    settle_proportional_raw P escrow expected actual"
  by (simp add: compute_settlement_def settle_proportional_raw_def Let_def)

text \<open>The exact expected assets of a list of requests.\<close>

definition sum_expected :: "PendingWithdrawal list \<Rightarrow> nat" where
  "sum_expected ws = sum_list (map (unat \<circ> expected_assets) ws)"

definition sum_escrow :: "PendingWithdrawal list \<Rightarrow> nat" where
  "sum_escrow ws = sum_list (map (unat \<circ> escrow_shares) ws)"

lemma sum_expected_simps [simp]:
  "sum_expected [] = 0" "sum_expected (w # ws) = unat (expected_assets w) + sum_expected ws"
  "sum_expected (ws @ ws') = sum_expected ws + sum_expected ws'"
  by (simp_all add: sum_expected_def)

lemma sum_escrow_simps [simp]:
  "sum_escrow [] = 0" "sum_escrow (w # ws) = unat (escrow_shares w) + sum_escrow ws"
  "sum_escrow (ws @ ws') = sum_escrow ws + sum_escrow ws'"
  by (simp_all add: sum_escrow_def)

lemma count_satisfiable_loop_prefix:
  assumes "unat t + sum_expected ws < 2 ^ 128" and "unat c + length ws < 2 ^ 32"
    and "unat t \<le> unat available"
    and "count_satisfiable_loop c t ws available = (c', t')"
  shows "\<exists>n \<le> length ws. unat c' = unat c + n \<and> unat t' = unat t + sum_expected (take n ws)
    \<and> unat t' \<le> unat available
    \<and> (n < length ws \<longrightarrow> unat available < unat t + sum_expected (take (Suc n) ws))"
  using assms
proof (induction ws arbitrary: c t)
  case (Cons w ws)
  let ?t = "saturating_add t (expected_assets w)" and ?c = "saturating_add c 1"
  have t: "unat ?t = unat t + unat (expected_assets w)" and c: "unat ?c = unat c + 1"
    using Cons.prems(1,2) by (simp_all add: word_nat)
  show ?case
  proof (cases "available < ?t")
    case True
    with Cons.prems t show ?thesis by (intro exI [of _ 0]) (auto simp: word_less_nat_alt)
  next
    case False
    then have "\<exists>n \<le> length ws. unat c' = unat ?c + n \<and> unat t' = unat ?t + sum_expected (take n ws)
      \<and> unat t' \<le> unat available
      \<and> (n < length ws \<longrightarrow> unat available < unat ?t + sum_expected (take (Suc n) ws))"
      using Cons.prems t c
      by (intro Cons.IH) (auto simp: word_less_nat_alt not_less)
    then obtain n where "n \<le> length ws" "unat c' = unat ?c + n"
      "unat t' = unat ?t + sum_expected (take n ws)" "unat t' \<le> unat available"
      "n < length ws \<longrightarrow> unat available < unat ?t + sum_expected (take (Suc n) ws)"
      by blast
    with t c show ?thesis by (intro exI [of _ "Suc n"]) (simp add: add.assoc)
  qed
qed simp

lemma fold_status_add_escrow:
  "unat (total_escrow_shares (fold status_add ws s)) =
     min (unat (total_escrow_shares s) + sum_escrow ws) (2 ^ 128 - 1)"
proof (induction ws arbitrary: s)
  case Nil
  then show ?case using unat_le_max [of "total_escrow_shares s"] by simp
next
  case (Cons w ws)
  then show ?case by (auto simp: status_add_def word_nat min_def add.assoc)
qed

lemma fold_status_add_expected:
  "unat (total_expected_assets (fold status_add ws s)) =
     min (unat (total_expected_assets s) + sum_expected ws) (2 ^ 128 - 1)"
proof (induction ws arbitrary: s)
  case Nil
  then show ?case using unat_le_max [of "total_expected_assets s"] by simp
next
  case (Cons w ws)
  then show ?case by (auto simp: status_add_def word_nat min_def add.assoc)
qed

text \<open>The status of the first request of an owner: its position and what is queued before it.\<close>

lemma find_request_status_loop_first:
  assumes "find_request_status_loop i d ws a = Some st"
    and "unat d + sum_expected ws < 2 ^ 128" and "unat i + length ws < 2 ^ 32"
  shows "\<exists>pre post. ws = pre @ status_withdrawal st # post \<and> owner (status_withdrawal st) = a
    \<and> (\<forall>w \<in> set pre. owner w \<noteq> a) \<and> unat (status_index st) = unat i + length pre
    \<and> unat (status_depth_assets st) = unat d + sum_expected pre"
  using assms
proof (induction ws arbitrary: i d)
  case (Cons w ws)
  show ?case
  proof (cases "owner w = a")
    case True
    with Cons.prems show ?thesis by (intro exI [of _ "[]"] exI [of _ ws]) auto
  next
    case False
    have step: "unat (saturating_add d (expected_assets w)) = unat d + unat (expected_assets w)"
      "unat (saturating_add i 1) = unat i + 1"
      using Cons.prems by (simp_all add: word_nat)
    with Cons.prems False obtain pre post where
      "ws = pre @ status_withdrawal st # post" "owner (status_withdrawal st) = a"
      "\<forall>w \<in> set pre. owner w \<noteq> a"
      "unat (status_index st) = unat (saturating_add i 1) + length pre"
      "unat (status_depth_assets st) =
        unat (saturating_add d (expected_assets w)) + sum_expected pre"
      using Cons.IH [of "saturating_add i 1" "saturating_add d (expected_assets w)"] by auto
    with step False show ?thesis by (intro exI [of _ "w # pre"] exI [of _ post]) simp
  qed
qed simp

lemma find_request_status_loop_None:
  "find_request_status_loop i d ws a = None \<longleftrightarrow> (\<forall>w \<in> set ws. owner w \<noteq> a)"
  by (induction ws arbitrary: i d) auto

context primitive_types_spec
begin

lemma compute_settlement_total [simp]:
  "settlement_total (compute_settlement P escrow expected actual) = unat escrow"
  by (simp add: compute_settlement_eq settle_proportional_raw_total)

lemma by_price_total:
  "original \<noteq> 0 \<Longrightarrow>
    settlement_total (compute_settlement_by_price P escrow price original) = unat escrow"
proof (cases "escrow = 0 \<or> original \<le> price")
  case True
  then show "original \<noteq> 0 \<Longrightarrow> ?thesis"
    by (auto simp: compute_settlement_by_price_def, simp_all add: settlement_total_def)
next
  case False
  assume original: "original \<noteq> 0"
  have le: "quot (unat escrow) (unat price) (unat original) True \<le> unat escrow"
    using False by (intro quot_le_left) (simp add: word_nat not_le)
  then have "quot (unat escrow) (unat price) (unat original) True < 2 ^ 128"
    using unat_le_max [of escrow] by simp
  then have "unat (as_u128_trunc (mul_div_ceil P (number_from escrow) price original)) =
      quot (unat escrow) (unat price) (unat original) True"
    using original mul_div_quot [of original "number_from escrow" price True]
    by (simp add: as_u128_trunc_fits mul_div_ceil_def)
  with False original le show ?thesis
    by (simp add: compute_settlement_by_price_def Let_def settlement_total_def
      settlement_partial_def unat_saturating_sub)
qed

lemma idle_settlement_total:
  "compute_idle_settlement P escrow expected available = Some r \<Longrightarrow>
    settlement_total (settlement r) = unat escrow"
  by (auto simp: compute_idle_settlement_def split: if_splits)

lemma idle_settlement_burn:
  assumes "compute_idle_settlement P escrow expected available = Some r" and "escrow \<noteq> 0"
  shows "unat escrow * unat (assets_out r) \<le> unat (to_burn (settlement r)) * unat expected"
proof (cases "expected \<noteq> 0 \<and> available \<noteq> 0 \<and> available < expected")
  case True
  then have "r = \<lparr>assets_out = available,
      settlement = settle_proportional_raw P escrow expected available\<rparr>"
    using assms(1) by (auto simp: compute_idle_settlement_def compute_settlement_eq not_le
      split: if_splits)
  with True assms(2) settle_proportional_raw_burn(1) [of escrow available expected]
  show ?thesis by (simp add: word_less_nat_alt)
next
  case False
  with assms show ?thesis
    by (auto simp: compute_idle_settlement_def burn_all_def not_le not_less split: if_splits)
qed

end

lemma idle_settlement_bounds:
  "compute_idle_settlement P escrow expected available = Some r \<Longrightarrow>
    assets_out r \<le> expected \<and> assets_out r \<le> available"
  by (auto simp: compute_idle_settlement_def not_le split: if_splits)

end
