(* ===== verification/Kernel_Queue.thy ===== *)
theory Kernel_Queue
  imports Kernel_Settlement
begin

text \<open>
  The withdrawal queue (\<^verbatim>\<open>src/contract/vault/kernel/src/state/queue/mod.rs\<close>, storage types).

  \<^item> \<open>PendingWithdrawals\<close> is a vector of entries sorted by id, searched by the binary search of the
    standard library, which is modelled by its loop. The locale \<open>id_map\<close> is its contract as a map;
    the interpretation \<open>pending\<close> discharges it.
  \<^item> \<open>WithdrawQueue\<close> adds the head pointer, the next id and the cached totals. The locale
    \<open>fifo\<close> is its contract as a first-in first-out queue of withdrawals, with the abstraction
    \<open>queue_list\<close> and the invariant \<open>queue_wf\<close>; the interpretation \<open>fq\<close> discharges it.
  \<^item> \<open>queue_wf\<close> is stronger than the \<^verbatim>\<open>check_invariants\<close> of the source, which is not kept by
    the operations on its own: it also says that the ids are strictly increasing and below the next
    id, and that an empty queue has its head pointer at the next id.
\<close>

section \<open>Binary search of the standard library\<close>

text \<open>
  The loop of \<^verbatim>\<open>slice::binary_search_by\<close>: it halves the size and moves the base past every
  element that does not compare greater.
\<close>

function search_loop :: "('a \<Rightarrow> Ordering) \<Rightarrow> 'a list \<Rightarrow> nat \<Rightarrow> nat \<Rightarrow> nat" where
  "search_loop f xs base n =
     (if n \<le> 1 then base
      else
        let half = n div 2;
            mid = base + half
        in search_loop f xs (if f (xs ! mid) = Greater then base else mid) (n - half))"
  by pat_completeness auto
termination
  by (relation "measure (\<lambda>(f, xs, base, n). n)") auto

declare search_loop.simps [simp del]

definition binary_search_by :: "('a \<Rightarrow> Ordering) \<Rightarrow> 'a list \<Rightarrow> (nat, nat) result" where
  "binary_search_by f xs =
     (if xs = [] then Err 0
      else
        let base = search_loop f xs 0 (length xs) in
        (case f (xs ! base) of
           Equal \<Rightarrow> Ok base
         | Less \<Rightarrow> Err (base + 1)
         | Greater \<Rightarrow> Err base))"

section \<open>\<open>PendingWithdrawals\<close>\<close>

record PendingWithdrawalEntry =
  pw_id :: u64
  pw_withdrawal :: PendingWithdrawal

type_synonym PendingWithdrawals = "PendingWithdrawalEntry list"

definition pw_new :: PendingWithdrawals where
  "pw_new = []"

definition locate :: "PendingWithdrawals \<Rightarrow> u64 \<Rightarrow> (nat, nat) result" where
  "locate entries i = binary_search_by (\<lambda>e. cmp (pw_id e) i) entries"

definition pw_insert ::
    "PendingWithdrawals \<Rightarrow> u64 \<Rightarrow> PendingWithdrawal \<Rightarrow> PendingWithdrawal option \<times> PendingWithdrawals"
  where
  "pw_insert entries i w =
     (case locate entries i of
        Ok index \<Rightarrow>
          (Some (pw_withdrawal (entries ! index)),
           entries[index := (entries ! index)\<lparr>pw_withdrawal := w\<rparr>])
      | Err index \<Rightarrow>
          (None, take index entries @ \<lparr>pw_id = i, pw_withdrawal = w\<rparr> # drop index entries)
      | Panic \<Rightarrow> (None, entries))"

definition pw_remove ::
    "PendingWithdrawals \<Rightarrow> u64 \<Rightarrow> PendingWithdrawal option \<times> PendingWithdrawals" where
  "pw_remove entries i =
     (case locate entries i of
        Ok index \<Rightarrow>
          (Some (pw_withdrawal (entries ! index)), take index entries @ drop (index + 1) entries)
      | _ \<Rightarrow> (None, entries))"

definition pw_get :: "PendingWithdrawals \<Rightarrow> u64 \<Rightarrow> PendingWithdrawal option" where
  "pw_get entries i =
     (case locate entries i of Ok index \<Rightarrow> Some (pw_withdrawal (entries ! index)) | _ \<Rightarrow> None)"

definition pw_contains_key :: "PendingWithdrawals \<Rightarrow> u64 \<Rightarrow> bool" where
  "pw_contains_key entries i = (case locate entries i of Ok index \<Rightarrow> True | _ \<Rightarrow> False)"

definition pw_keys :: "PendingWithdrawals \<Rightarrow> u64 list" where
  "pw_keys entries = map pw_id entries"

definition pw_values :: "PendingWithdrawals \<Rightarrow> PendingWithdrawal list" where
  "pw_values entries = map pw_withdrawal entries"

definition pw_iter :: "PendingWithdrawals \<Rightarrow> (u64 \<times> PendingWithdrawal) list" where
  "pw_iter entries = map (\<lambda>e. (pw_id e, pw_withdrawal e)) entries"

text \<open>The check of \<^verbatim>\<open>from_sorted_entries\<close>, with the last id it has seen.\<close>

fun sorted_entries_check :: "u64 option \<Rightarrow> (u64 \<times> PendingWithdrawal) list \<Rightarrow> bool" where
  "sorted_entries_check last_id [] = True"
| "sorted_entries_check last_id ((i, w) # es) =
     ((case last_id of None \<Rightarrow> True | Some prev \<Rightarrow> \<not> i \<le> prev) \<and> sorted_entries_check (Some i) es)"

definition from_sorted_entries ::
    "(u64 \<times> PendingWithdrawal) list \<Rightarrow> (PendingWithdrawals, 'e) result" where
  "from_sorted_entries entries =
     (if sorted_entries_check None entries
      then Ok (map (\<lambda>(i, w). \<lparr>pw_id = i, pw_withdrawal = w\<rparr>) entries) else Panic)"

text \<open>\<^verbatim>\<open>FromIterator\<close>: one insertion per element, a duplicate id panics.\<close>

fun pw_from_iter_loop ::
    "PendingWithdrawals \<Rightarrow> (u64 \<times> PendingWithdrawal) list \<Rightarrow> (PendingWithdrawals, 'e) result" where
  "pw_from_iter_loop entries [] = Ok entries"
| "pw_from_iter_loop entries ((i, w) # es) =
     (case pw_insert entries i w of
        (None, entries') \<Rightarrow> pw_from_iter_loop entries' es
      | (Some old, entries') \<Rightarrow> Panic)"

definition pw_from_iter :: "(u64 \<times> PendingWithdrawal) list \<Rightarrow> (PendingWithdrawals, 'e) result" where
  "pw_from_iter es = pw_from_iter_loop pw_new es"

section \<open>\<open>WithdrawQueue\<close>\<close>

datatype QueueError =
    QueueErrorFull u32 u32
  | WithdrawalNotFound u64
  | QueueErrorEmpty
  | InvariantViolation string
  | CacheOverflow

record WithdrawQueue =
  pending_withdrawals :: PendingWithdrawals
  next_withdraw_to_execute :: u64
  next_pending_withdrawal_id :: u64
  cached_total_escrow :: u128
  cached_total_expected :: u128

definition compute_pending_totals :: "PendingWithdrawal list \<Rightarrow> u128 \<times> u128" where
  "compute_pending_totals ws =
     fold (\<lambda>w (esc, exp). (saturating_add esc (escrow_shares w),
       saturating_add exp (expected_assets w))) ws (0, 0)"

definition queue_new :: WithdrawQueue where
  "queue_new = \<lparr>pending_withdrawals = pw_new, next_withdraw_to_execute = 0,
     next_pending_withdrawal_id = 0, cached_total_escrow = 0, cached_total_expected = 0\<rparr>"

definition queue_with_state ::
    "(u64 \<times> PendingWithdrawal) list \<Rightarrow> u64 \<Rightarrow> u64 \<Rightarrow> (WithdrawQueue, 'e) result" where
  "queue_with_state entries next_execute next_id =
     and_then (from_sorted_entries entries) (\<lambda>pending.
       (case compute_pending_totals (pw_values pending) of (esc, exp) \<Rightarrow>
          Ok \<lparr>pending_withdrawals = pending, next_withdraw_to_execute = next_execute,
            next_pending_withdrawal_id = next_id, cached_total_escrow = esc,
            cached_total_expected = exp\<rparr>))"

definition queue_len :: "WithdrawQueue \<Rightarrow> nat" where
  "queue_len q = length (pending_withdrawals q)"

definition queue_is_empty :: "WithdrawQueue \<Rightarrow> bool" where
  "queue_is_empty q \<longleftrightarrow> pending_withdrawals q = []"

definition queue_can_enqueue :: "WithdrawQueue \<Rightarrow> u32 \<Rightarrow> bool" where
  "queue_can_enqueue q max_pending \<longleftrightarrow>
     length (pending_withdrawals q) < min (unat max_pending) MAX_PENDING"

definition enqueue_withdrawal ::
    "WithdrawQueue \<Rightarrow> PendingWithdrawal \<Rightarrow> u32 \<Rightarrow> (u64 \<times> WithdrawQueue, QueueError) result" where
  "enqueue_withdrawal q w max_pending =
     (if \<not> queue_can_enqueue q max_pending then
        Err (QueueErrorFull (of_nat (length (pending_withdrawals q))) max_pending)
      else
        let i = next_pending_withdrawal_id q in
        and_then (ok_or (checked_add i 1) (InvariantViolation ''next_pending_withdrawal_id overflow''))
          (\<lambda>next_id.
        and_then (ok_or (checked_add (cached_total_escrow q) (escrow_shares w)) CacheOverflow)
          (\<lambda>new_escrow.
        and_then (ok_or (checked_add (cached_total_expected q) (expected_assets w)) CacheOverflow)
          (\<lambda>new_expected.
        Ok (i, q\<lparr>pending_withdrawals := snd (pw_insert (pending_withdrawals q) i w),
          next_pending_withdrawal_id := next_id,
          cached_total_escrow := new_escrow,
          cached_total_expected := new_expected\<rparr>)))))"

definition enqueue ::
    "WithdrawQueue \<Rightarrow> Address \<Rightarrow> Address \<Rightarrow> u128 \<Rightarrow> u128 \<Rightarrow> TimestampNs \<Rightarrow> u32
      \<Rightarrow> (u64 \<times> WithdrawQueue, QueueError) result" where
  "enqueue q owner_id receiver_id escrow expected requested_at max_pending =
     enqueue_withdrawal q
       \<lparr>owner = owner_id, receiver = receiver_id, escrow_shares = escrow,
        expected_assets = expected, requested_at_ns = requested_at\<rparr> max_pending"

definition queue_head :: "WithdrawQueue \<Rightarrow> (u64 \<times> PendingWithdrawal) option" where
  "queue_head q =
     map_option (\<lambda>w. (next_withdraw_to_execute q, w))
       (pw_get (pending_withdrawals q) (next_withdraw_to_execute q))"

definition dequeue ::
    "WithdrawQueue \<Rightarrow> ((u64 \<times> PendingWithdrawal) option \<times> WithdrawQueue, 'e) result" where
  "dequeue q =
     (if queue_is_empty q then Ok (None, q)
      else
        let head_id = next_withdraw_to_execute q in
        (case pw_remove (pending_withdrawals q) head_id of
           (None, _) \<Rightarrow> Ok (None, q)
         | (Some w, rest) \<Rightarrow>
             and_then (unwrap_abort (checked_sub (cached_total_escrow q) (escrow_shares w))) (\<lambda>esc.
             and_then (unwrap_abort (checked_sub (cached_total_expected q) (expected_assets w)))
               (\<lambda>exp.
             Ok (Some (head_id, w),
               q\<lparr>pending_withdrawals := rest,
                 cached_total_escrow := esc,
                 cached_total_expected := exp,
                 next_withdraw_to_execute :=
                   (case pw_keys rest of k # ks \<Rightarrow> k | [] \<Rightarrow> next_pending_withdrawal_id q)\<rparr>)))))"

definition queue_get :: "WithdrawQueue \<Rightarrow> u64 \<Rightarrow> PendingWithdrawal option" where
  "queue_get q i = pw_get (pending_withdrawals q) i"

definition queue_contains :: "WithdrawQueue \<Rightarrow> u64 \<Rightarrow> bool" where
  "queue_contains q i = pw_contains_key (pending_withdrawals q) i"

definition check_invariants :: "WithdrawQueue \<Rightarrow> bool" where
  "check_invariants q =
     (if next_pending_withdrawal_id q < next_withdraw_to_execute q then False
      else if \<not> queue_is_empty q \<and>
        \<not> pw_contains_key (pending_withdrawals q) (next_withdraw_to_execute q) then False
      else
        (case compute_pending_totals (pw_values (pending_withdrawals q)) of (esc, exp) \<Rightarrow>
           if cached_total_escrow q \<noteq> esc then False
           else if cached_total_expected q \<noteq> exp then False
           else True))"

definition check_invariants_with_max :: "WithdrawQueue \<Rightarrow> u32 \<Rightarrow> bool" where
  "check_invariants_with_max q max_pending =
     (if \<not> check_invariants q then False
      else
        let len = length (pending_withdrawals q) in
        if unat max_pending < len \<or> MAX_PENDING < unat max_pending then False else True)"

definition queue_status :: "WithdrawQueue \<Rightarrow> QueueStatus" where
  "queue_status q =
     \<lparr>queue_length = of_nat (length (pending_withdrawals q)),
      total_expected_assets = cached_total_expected q,
      total_escrow_shares = cached_total_escrow q\<rparr>"

section \<open>The binary search\<close>

lemma search_loop_post:
  fixes key :: "'a \<Rightarrow> 'k::linorder"
  assumes "sorted (map key xs)"
    and "1 \<le> n" and "base + n \<le> length xs"
    and "base = 0 \<or> key (xs ! base) \<le> k"
    and "\<And>j. base + n \<le> j \<Longrightarrow> j < length xs \<Longrightarrow> k < key (xs ! j)"
  shows "let b = search_loop (\<lambda>e. cmp (key e) k) xs base n in
    b < length xs \<and> (b = 0 \<or> key (xs ! b) \<le> k) \<and> (\<forall>j. b < j \<and> j < length xs \<longrightarrow> k < key (xs ! j))"
  using assms(2-)
proof (induction n arbitrary: base rule: less_induct)
  case (less n)
  show ?case
  proof (cases "n \<le> 1")
    case True
    with less.prems show ?thesis by (subst search_loop.simps) (auto simp: Let_def)
  next
    case False
    define half mid where "half = n div 2" and "mid = base + half"
    have half: "1 \<le> half" "half < n" "half \<le> n - half" and mid: "mid < length xs"
      using False less.prems(2) by (auto simp: half_def mid_def)
    define base' where "base' = (if cmp (key (xs ! mid)) k = Greater then base else mid)"
    have step: "search_loop (\<lambda>e. cmp (key e) k) xs base n =
        search_loop (\<lambda>e. cmp (key e) k) xs base' (n - half)"
      using False by (subst search_loop.simps) (simp add: Let_def half_def mid_def base'_def)
    have "k < key (xs ! j)" if "base' + (n - half) \<le> j" "j < length xs" for j
    proof (cases "k < key (xs ! mid)")
      case True
      then have "base' = base" by (auto simp: base'_def cmp_def)
      with that half have "mid \<le> j" by (simp add: mid_def)
      then have "key (xs ! mid) \<le> key (xs ! j)"
        using assms(1) that(2) by (auto simp: sorted_iff_nth_mono)
      with True show ?thesis by (rule order_less_le_trans)
    next
      case False
      then have "base' = mid" by (auto simp: base'_def cmp_def not_less)
      with that half have "base + n \<le> j" by (simp add: mid_def)
      with that(2) show ?thesis by (intro less.prems(4))
    qed
    moreover have "base' = 0 \<or> key (xs ! base') \<le> k"
      using less.prems(3) by (auto simp: base'_def cmp_def not_less)
    moreover have "base' + (n - half) \<le> length xs"
      using less.prems(2) half by (auto simp: base'_def mid_def)
    ultimately show ?thesis
      using half less.IH [of "n - half" base'] unfolding step by simp
  qed
qed

lemma binary_search_by_cases:
  fixes key :: "'a \<Rightarrow> 'k::linorder"
  assumes "sorted_wrt (<) (map key xs)"
  shows "(\<exists>b < length xs. key (xs ! b) = k \<and> binary_search_by (\<lambda>e. cmp (key e) k) xs = Ok b) \<or>
    (\<exists>b \<le> length xs. binary_search_by (\<lambda>e. cmp (key e) k) xs = Err b \<and>
       (\<forall>e \<in> set (take b xs). key e < k) \<and> (\<forall>e \<in> set (drop b xs). k < key e))"
proof (cases "xs = []")
  case True
  then show ?thesis by (simp add: binary_search_by_def)
next
  case False
  have sorted: "sorted (map key xs)" using assms by (rule strict_sorted_imp_sorted)
  define b where "b = search_loop (\<lambda>e. cmp (key e) k) xs 0 (length xs)"
  have b: "b < length xs" "b = 0 \<or> key (xs ! b) \<le> k"
    "\<And>j. b < j \<Longrightarrow> j < length xs \<Longrightarrow> k < key (xs ! j)"
    using search_loop_post [of key xs "length xs" 0 k] sorted False
    by (auto simp: b_def Let_def Suc_le_eq)
  have before: "key (xs ! j) < key (xs ! b)" if "j < b" for j
    using assms b(1) that by (simp add: sorted_wrt_iff_nth_less)
  have res: "binary_search_by (\<lambda>e. cmp (key e) k) xs =
      (case cmp (key (xs ! b)) k of Equal \<Rightarrow> Ok b | Less \<Rightarrow> Err (b + 1) | Greater \<Rightarrow> Err b)"
    using False by (simp add: binary_search_by_def Let_def flip: b_def)
  consider "key (xs ! b) = k" | "key (xs ! b) < k" | "k < key (xs ! b)" by fastforce
  then show ?thesis
  proof cases
    case 1
    with b(1) show ?thesis by (intro disjI1 exI [of _ b]) (simp add: res)
  next
    case 2
    have "key e < k" if "e \<in> set (take (b + 1) xs)" for e
    proof -
      from that obtain j where "j \<le> b" "e = xs ! j"
        using b(1) by (auto simp: in_set_conv_nth less_Suc_eq_le)
      with before [of j] 2 show ?thesis by (cases "j = b") auto
    qed
    moreover have "k < key e" if "e \<in> set (drop (b + 1) xs)" for e
      using that b(3) by (auto simp: in_set_conv_nth)
    ultimately show ?thesis
      using 2 b(1) by (intro disjI2 exI [of _ "b + 1"]) (simp add: res)
  next
    case 3
    then have "b = 0" using b(2) by auto
    moreover have "k < key e" if "e \<in> set xs" for e
    proof -
      from that obtain j where "j < length xs" "e = xs ! j" by (auto simp: in_set_conv_nth)
      with b(3) [of j] 3 \<open>b = 0\<close> show ?thesis by (cases "j = 0") auto
    qed
    ultimately show ?thesis
      using 3 by (intro disjI2 exI [of _ 0]) (auto simp: res)
  qed
qed

section \<open>\<open>PendingWithdrawals\<close> as a map\<close>

definition ids_sorted :: "PendingWithdrawals \<Rightarrow> bool" where
  "ids_sorted entries = sorted_wrt (<) (map pw_id entries)"

text \<open>The contract: a finite map that reports the value an operation replaces.\<close>

locale id_map =
  fixes map_empty :: "'m"
    and map_insert :: "'m \<Rightarrow> u64 \<Rightarrow> 'v \<Rightarrow> 'v option \<times> 'm"
    and map_remove :: "'m \<Rightarrow> u64 \<Rightarrow> 'v option \<times> 'm"
    and map_get :: "'m \<Rightarrow> u64 \<Rightarrow> 'v option"
    and map_inv :: "'m \<Rightarrow> bool"
  assumes inv_empty: "map_inv map_empty"
    and get_empty: "map_get map_empty i = None"
    and inv_insert: "map_inv m \<Longrightarrow> map_inv (snd (map_insert m i v))"
    and insert_old: "map_inv m \<Longrightarrow> fst (map_insert m i v) = map_get m i"
    and get_insert:
      "map_inv m \<Longrightarrow> map_get (snd (map_insert m i v)) j = (if j = i then Some v else map_get m j)"
    and inv_remove: "map_inv m \<Longrightarrow> map_inv (snd (map_remove m i))"
    and remove_old: "map_inv m \<Longrightarrow> fst (map_remove m i) = map_get m i"
    and get_remove:
      "map_inv m \<Longrightarrow> map_get (snd (map_remove m i)) j = (if j = i then None else map_get m j)"
begin

text \<open>
  Building the map from a list, one insertion per element and a panic on a duplicate: it returns
  exactly when the ids are fresh and distinct, and then looks up what the list holds.
\<close>

lemma from_iter:
  assumes nil: "\<And>m. loop m [] = Ok m"
    and cons: "\<And>m i v es. loop m ((i, v) # es) =
      (case map_insert m i v of (None, m') \<Rightarrow> loop m' es | (Some old, m') \<Rightarrow> (Panic :: ('m, 'e) result))"
    and "map_inv m"
  shows "if distinct (map fst es) \<and> (\<forall>i \<in> fst ` set es. map_get m i = None)
    then \<exists>m'. loop m es = Ok m' \<and> map_inv m' \<and>
      (\<forall>j. map_get m' j = (case map_of es j of None \<Rightarrow> map_get m j | Some v \<Rightarrow> Some v))
    else loop m es = Panic"
  using assms(3)
proof (induction es arbitrary: m)
  case Nil
  then show ?case by (simp add: nil)
next
  case (Cons e es)
  obtain i v where e: "e = (i, v)" by fastforce
  obtain old m' where ins: "map_insert m i v = (old, m')" by fastforce
  have old: "old = map_get m i" and inv: "map_inv m'"
    and get: "\<And>j. map_get m' j = (if j = i then Some v else map_get m j)"
    using insert_old [OF Cons.prems, of i v] inv_insert [OF Cons.prems, of i v]
      get_insert [OF Cons.prems, of i v] by (simp_all add: ins)
  show ?case
  proof (cases old)
    case (Some w)
    with old have "map_get m i = Some w" by simp
    with Some show ?thesis by (simp add: e cons ins)
  next
    case None
    have loop: "loop m ((i, v) # es) = loop m' es" by (simp add: cons ins None)
    have fresh: "distinct (map fst (e # es)) \<and> (\<forall>i \<in> fst ` set (e # es). map_get m i = None) \<longleftrightarrow>
        distinct (map fst es) \<and> (\<forall>i \<in> fst ` set es. map_get m' i = None)"
      using None old by (auto simp: e get)
    show ?thesis
    proof (cases "distinct (map fst es) \<and> (\<forall>i \<in> fst ` set es. map_get m' i = None)")
      case True
      with Cons.IH [OF inv] obtain r where r: "loop m' es = Ok r" "map_inv r"
        "\<And>j. map_get r j = (case map_of es j of None \<Rightarrow> map_get m' j | Some v \<Rightarrow> Some v)"
        by auto
      have "map_of es i = None"
        using True by (auto simp: map_of_eq_None_iff get split: if_splits)
      with r show ?thesis
        unfolding if_P [OF fresh [THEN iffD2, OF True]]
        by (intro exI [of _ r]) (auto simp: loop e get split: option.splits)
    next
      case False
      with Cons.IH [OF inv] fresh show ?thesis unfolding e loop by argo
    qed
  qed
qed

end

lemma locate_cases:
  assumes "ids_sorted xs"
  obtains (found) k where "locate xs i = Ok k" "k < length xs" "pw_id (xs ! k) = i"
  | (absent) k where "locate xs i = Err k" "k \<le> length xs"
      "\<forall>e \<in> set (take k xs). pw_id e < i" "\<forall>e \<in> set (drop k xs). i < pw_id e"
  using binary_search_by_cases [of pw_id xs i] assms
  by (auto simp: locate_def ids_sorted_def)

lemma ids_sorted_distinct: "ids_sorted xs \<Longrightarrow> distinct (map pw_id xs)"
  by (simp add: ids_sorted_def strict_sorted_iff)

lemma map_fst_pw_iter [simp]: "map fst (pw_iter xs) = map pw_id xs"
  by (simp add: pw_iter_def comp_def)

lemma pw_get_map_of:
  assumes "ids_sorted xs"
  shows "pw_get xs i = map_of (pw_iter xs) i"
  using assms
proof (cases rule: locate_cases [where i = i])
  case (found k)
  then have "(i, pw_withdrawal (xs ! k)) \<in> set (pw_iter xs)"
    by (force simp: pw_iter_def)
  then have "map_of (pw_iter xs) i = Some (pw_withdrawal (xs ! k))"
    by (intro map_of_is_SomeI) (simp_all add: ids_sorted_distinct [OF assms])
  with found show ?thesis by (simp add: pw_get_def)
next
  case (absent k)
  have "set xs = set (take k xs) \<union> set (drop k xs)"
    by (metis append_take_drop_id set_append)
  with absent(3,4) have "map_of (pw_iter xs) i = None"
    by (auto simp: pw_iter_def map_of_eq_None_iff)
  with absent(1) show ?thesis by (simp add: pw_get_def)
qed

lemma pw_contains_key_get: "pw_contains_key xs i \<longleftrightarrow> pw_get xs i \<noteq> None"
  by (simp add: pw_contains_key_def pw_get_def split: result.splits)

text \<open>Insertion and removal on the sorted vector, as splits of the vector.\<close>

lemma pw_insert_split:
  assumes "ids_sorted xs"
  obtains (replace) ys e zs where "xs = ys @ e # zs" "pw_id e = i"
      "pw_insert xs i w = (Some (pw_withdrawal e), ys @ e\<lparr>pw_withdrawal := w\<rparr> # zs)"
  | (new) ys zs where "xs = ys @ zs" "\<forall>e \<in> set ys. pw_id e < i" "\<forall>e \<in> set zs. i < pw_id e"
      "pw_insert xs i w = (None, ys @ \<lparr>pw_id = i, pw_withdrawal = w\<rparr> # zs)"
  using assms
proof (cases rule: locate_cases [where i = i])
  case (found k)
  then show thesis
    by (intro replace [of "take k xs" "xs ! k" "drop (Suc k) xs"])
      (simp_all add: pw_insert_def id_take_nth_drop upd_conv_take_nth_drop)
next
  case (absent k)
  then show thesis
    by (intro new [of "take k xs" "drop k xs"]) (simp_all add: pw_insert_def)
qed

lemma pw_remove_split:
  assumes "ids_sorted xs"
  obtains (found) ys e zs where "xs = ys @ e # zs" "pw_id e = i"
      "pw_remove xs i = (Some (pw_withdrawal e), ys @ zs)"
  | (absent) "\<forall>e \<in> set xs. pw_id e \<noteq> i" "pw_remove xs i = (None, xs)"
  using assms
proof (cases rule: locate_cases [where i = i])
  case (found k)
  then show thesis
    by (intro that(1) [of "take k xs" "xs ! k" "drop (Suc k) xs"])
      (simp_all add: pw_remove_def id_take_nth_drop)
next
  case (absent k)
  have "set xs = set (take k xs) \<union> set (drop k xs)"
    by (metis append_take_drop_id set_append)
  with absent show thesis by (intro that(2)) (auto simp: pw_remove_def)
qed

lemma ids_sorted_middle:
  "ids_sorted (ys @ e # zs) \<longleftrightarrow> ids_sorted (ys @ zs) \<and>
    (\<forall>y \<in> set ys. pw_id y < pw_id e) \<and> (\<forall>z \<in> set zs. pw_id e < pw_id z)"
  by (auto simp: ids_sorted_def sorted_wrt_append)

lemma pw_get_middle:
  assumes "ids_sorted (ys @ e # zs)"
  shows "pw_get (ys @ e # zs) j = (if j = pw_id e then Some (pw_withdrawal e) else pw_get (ys @ zs) j)"
proof -
  have "map_of (pw_iter ys) (pw_id e) = None"
    using assms by (auto simp: ids_sorted_middle map_of_eq_None_iff pw_iter_def)
  with assms show ?thesis
    by (auto simp: pw_get_map_of ids_sorted_middle) (simp_all add: pw_iter_def map_add_def split: option.split)
qed

interpretation pending: id_map pw_new pw_insert pw_remove pw_get ids_sorted
proof
  fix xs :: PendingWithdrawals and i j w
  show "ids_sorted pw_new" by (simp add: pw_new_def ids_sorted_def)
  show "pw_get pw_new i = None" by (simp add: pw_new_def pw_get_def locate_def binary_search_by_def)
  assume xs: "ids_sorted xs"
  show "ids_sorted (snd (pw_insert xs i w))"
    by (cases rule: pw_insert_split [OF xs, of i w]) (use xs in \<open>auto simp: ids_sorted_middle\<close>)
  show "fst (pw_insert xs i w) = pw_get xs i"
  proof (cases rule: pw_insert_split [OF xs, of i w])
    case (2 ys zs)
    then have "map_of (pw_iter xs) i = None" by (auto simp: map_of_eq_None_iff pw_iter_def)
    with 2(4) show ?thesis by (simp add: pw_get_map_of [OF xs])
  qed (use xs in \<open>auto simp: pw_get_middle\<close>)
  show "pw_get (snd (pw_insert xs i w)) j = (if j = i then Some w else pw_get xs j)"
    by (cases rule: pw_insert_split [OF xs, of i w])
      (use xs in \<open>auto simp: pw_get_middle ids_sorted_middle\<close>)
  show "ids_sorted (snd (pw_remove xs i))"
    by (cases rule: pw_remove_split [OF xs, of i]) (use xs in \<open>auto simp: ids_sorted_middle\<close>)
  have absent: "pw_get xs i = None" if "\<forall>e \<in> set xs. pw_id e \<noteq> i"
    using that by (auto simp: pw_get_map_of [OF xs] map_of_eq_None_iff pw_iter_def)
  show "fst (pw_remove xs i) = pw_get xs i"
    by (cases rule: pw_remove_split [OF xs, of i]) (use xs absent in \<open>auto simp: pw_get_middle\<close>)
  show "pw_get (snd (pw_remove xs i)) j = (if j = i then None else pw_get xs j)"
  proof (cases rule: pw_remove_split [OF xs, of i])
    case (1 ys e zs)
    then have "pw_get (ys @ zs) i = None"
      using xs by (auto simp: pw_get_map_of ids_sorted_middle map_of_eq_None_iff pw_iter_def)
    with 1 xs show ?thesis by (auto simp: pw_get_middle)
  qed (use absent in auto)
qed

lemma pw_from_iter_correct:
  "if distinct (map fst es)
   then \<exists>m. pw_from_iter es = (Ok m :: (_, 'e) result) \<and> ids_sorted m \<and> pw_get m = map_of es
   else pw_from_iter es = (Panic :: (_, 'e) result)"
proof -
  have "(case map_of es j of None \<Rightarrow> pw_get pw_new j | Some v \<Rightarrow> Some v) = map_of es j" for j
    by (simp add: pending.get_empty split: option.split)
  with pending.from_iter
    [of "pw_from_iter_loop :: _ \<Rightarrow> _ \<Rightarrow> (_, 'e) result" pw_new es] show ?thesis
    by (cases "distinct (map fst es)")
      (simp_all add: pw_from_iter_def pending.inv_empty pending.get_empty fun_eq_iff)
qed

section \<open>The queue as a first-in first-out queue\<close>

definition queue_list :: "WithdrawQueue \<Rightarrow> (u64 \<times> PendingWithdrawal) list" where
  "queue_list q = pw_iter (pending_withdrawals q)"

definition queue_wf :: "WithdrawQueue \<Rightarrow> bool" where
  "queue_wf q \<longleftrightarrow>
     ids_sorted (pending_withdrawals q) \<and>
     (\<forall>e \<in> set (pending_withdrawals q). pw_id e < next_pending_withdrawal_id q) \<and>
     next_withdraw_to_execute q =
       (case pw_keys (pending_withdrawals q) of k # ks \<Rightarrow> k | [] \<Rightarrow> next_pending_withdrawal_id q) \<and>
     unat (cached_total_escrow q) = sum_escrow (pw_values (pending_withdrawals q)) \<and>
     unat (cached_total_expected q) = sum_expected (pw_values (pending_withdrawals q))"

datatype queue_op = EnqueueOp PendingWithdrawal u32 | DequeueOp

text \<open>
  A sequence of operations: what was accepted, what was served, and the queue it leaves. A refused
  request leaves the queue as it was.
\<close>

fun run_ops ::
    "('q \<Rightarrow> PendingWithdrawal \<Rightarrow> u32 \<Rightarrow> (u64 \<times> 'q, QueueError) result)
      \<Rightarrow> ('q \<Rightarrow> ((u64 \<times> PendingWithdrawal) option \<times> 'q, 'e) result)
      \<Rightarrow> queue_op list \<Rightarrow> 'q
      \<Rightarrow> ((u64 \<times> PendingWithdrawal) list \<times> (u64 \<times> PendingWithdrawal) list \<times> 'q, 'e) result" where
  "run_ops enq deq [] q = Ok ([], [], q)"
| "run_ops enq deq (EnqueueOp w m # ops) q =
     (case enq q w m of
        Ok (i, q') \<Rightarrow>
          and_then (run_ops enq deq ops q') (\<lambda>(accepted, served, r). Ok ((i, w) # accepted, served, r))
      | Err e \<Rightarrow> run_ops enq deq ops q
      | Panic \<Rightarrow> Panic)"
| "run_ops enq deq (DequeueOp # ops) q =
     and_then (deq q) (\<lambda>(x, q').
       and_then (run_ops enq deq ops q') (\<lambda>(accepted, served, r).
         Ok (accepted, (case x of None \<Rightarrow> served | Some e \<Rightarrow> e # served), r)))"

locale fifo =
  fixes entries :: "'q \<Rightarrow> (u64 \<times> PendingWithdrawal) list"
    and wf :: "'q \<Rightarrow> bool"
    and next_id :: "'q \<Rightarrow> u64"
    and enq :: "'q \<Rightarrow> PendingWithdrawal \<Rightarrow> u32 \<Rightarrow> (u64 \<times> 'q, QueueError) result"
    and deq :: "'q \<Rightarrow> ((u64 \<times> PendingWithdrawal) option \<times> 'q, 'e) result"
  assumes enq_not_panic: "enq q w m \<noteq> Panic"
    and enq_wf: "wf q \<Longrightarrow> enq q w m = Ok (i, q') \<Longrightarrow> wf q'"
    and enq_entries: "wf q \<Longrightarrow> enq q w m = Ok (i, q') \<Longrightarrow> entries q' = entries q @ [(i, w)]"
    and enq_id: "wf q \<Longrightarrow> enq q w m = Ok (i, q') \<Longrightarrow> i = next_id q \<and> unat (next_id q') = unat i + 1"
    and deq_empty: "wf q \<Longrightarrow> entries q = [] \<Longrightarrow> deq q = Ok (None, q)"
    and deq_head: "wf q \<Longrightarrow> entries q = x # xs \<Longrightarrow>
      \<exists>q'. deq q = Ok (Some x, q') \<and> wf q' \<and> entries q' = xs \<and> next_id q' = next_id q"
begin

lemma deq_cases:
  assumes "wf q"
  obtains x q' where "deq q = Ok (x, q')" "wf q'" "next_id q' = next_id q"
    "entries q = (case x of None \<Rightarrow> [] | Some e \<Rightarrow> [e]) @ entries q'"
  using assms deq_empty [OF assms] deq_head [OF assms] by (cases "entries q") auto

text \<open>
  No run panics; what it serves, followed by what it leaves, is what it started with followed by what
  it accepted, in this order; and the accepted requests carry consecutive ids.
\<close>

lemma run_fifo:
  assumes "wf q"
  shows "\<exists>accepted served q'. run_ops enq deq ops q = Ok (accepted, served, q') \<and> wf q' \<and>
    entries q @ accepted = served @ entries q' \<and>
    map (unat \<circ> fst) accepted = [unat (next_id q) ..< unat (next_id q')] \<and>
    unat (next_id q) \<le> unat (next_id q')"
  using assms
proof (induction ops arbitrary: q)
  case (Cons a ops)
  show ?case
  proof (cases a)
    case (EnqueueOp w m)
    show ?thesis
    proof (cases "enq q w m")
      case (Ok p)
      obtain i r where p: "p = (i, r)" by fastforce
      note enq = Ok [unfolded p]
      from Cons.IH [OF enq_wf [OF Cons.prems enq]] obtain acc srv q' where
        "run_ops enq deq ops r = Ok (acc, srv, q')" "wf q'" "entries r @ acc = srv @ entries q'"
        "map (unat \<circ> fst) acc = [unat (next_id r) ..< unat (next_id q')]"
        "unat (next_id r) \<le> unat (next_id q')"
        by blast
      with enq_entries [OF Cons.prems enq] enq_id [OF Cons.prems enq] show ?thesis
        by - (rule exI [of _ "(i, w) # acc"], rule exI [of _ srv], rule exI [of _ q'],
          simp add: EnqueueOp enq upt_conv_Cons comp_def)
    next
      case (Err e)
      with Cons.IH [OF Cons.prems] show ?thesis by (simp add: EnqueueOp)
    qed (simp add: enq_not_panic)
  next
    case DequeueOp
    obtain x r where deq: "deq q = Ok (x, r)" "wf r" "next_id r = next_id q"
      "entries q = (case x of None \<Rightarrow> [] | Some e \<Rightarrow> [e]) @ entries r"
      using Cons.prems by (rule deq_cases)
    from Cons.IH [OF deq(2)] obtain acc srv q' where
      "run_ops enq deq ops r = Ok (acc, srv, q')" "wf q'" "entries r @ acc = srv @ entries q'"
      "map (unat \<circ> fst) acc = [unat (next_id r) ..< unat (next_id q')]"
      "unat (next_id r) \<le> unat (next_id q')"
      by blast
    with deq show ?thesis by (cases x) (auto simp: DequeueOp comp_def)
  qed
qed simp

end

lemma pw_values_simps [simp]:
  "pw_values [] = []" "pw_values (e # es) = pw_withdrawal e # pw_values es"
  "pw_values (es @ es') = pw_values es @ pw_values es'"
  by (simp_all add: pw_values_def)

lemma pw_insert_last:
  assumes "ids_sorted xs" and "\<forall>e \<in> set xs. pw_id e < i"
  shows "pw_insert xs i w = (None, xs @ [\<lparr>pw_id = i, pw_withdrawal = w\<rparr>])"
proof (cases rule: pw_insert_split [OF assms(1), of i w])
  case (1 ys e zs)
  with assms(2) show ?thesis by auto
next
  case (2 ys zs)
  with assms(2) have "zs = []" by (cases zs) auto
  with 2 show ?thesis by simp
qed

lemma pw_remove_first:
  assumes "ids_sorted (e # es)"
  shows "pw_remove (e # es) (pw_id e) = (Some (pw_withdrawal e), es)"
proof (cases rule: pw_remove_split [OF assms, of "pw_id e"])
  case (1 ys e' zs)
  have "e' = e \<and> ys = []"
    using assms 1(1,2) by (cases ys) (auto simp: ids_sorted_def sorted_wrt_append)
  with 1 show ?thesis by simp
qed simp

lemma ids_sorted_snoc:
  "ids_sorted (xs @ [e]) \<longleftrightarrow> ids_sorted xs \<and> (\<forall>x \<in> set xs. pw_id x < pw_id e)"
  using ids_sorted_middle [of xs e "[]"] by simp

lemma ids_sorted_Cons: "ids_sorted (e # es) \<longleftrightarrow> ids_sorted es \<and> (\<forall>x \<in> set es. pw_id e < pw_id x)"
  using ids_sorted_middle [of "[]" e es] by simp

text \<open>When a request is accepted, and what the queue is then.\<close>

lemma enqueue_withdrawal_Ok:
  "enqueue_withdrawal q w m = Ok (i, q') \<longleftrightarrow>
    queue_can_enqueue q m \<and> i = next_pending_withdrawal_id q \<and>
    (\<exists>next_id esc exp. checked_add i 1 = Some next_id \<and>
      checked_add (cached_total_escrow q) (escrow_shares w) = Some esc \<and>
      checked_add (cached_total_expected q) (expected_assets w) = Some exp \<and>
      q' = q\<lparr>pending_withdrawals := snd (pw_insert (pending_withdrawals q) i w),
        next_pending_withdrawal_id := next_id, cached_total_escrow := esc,
        cached_total_expected := exp\<rparr>)"
  by (auto simp: enqueue_withdrawal_def Let_def)

lemma enqueue_withdrawal_not_Panic: "enqueue_withdrawal q w m \<noteq> Panic"
  by (auto simp: enqueue_withdrawal_def Let_def and_then_eq_Panic)

lemma enqueue_withdrawal_wf:
  assumes "queue_wf q" and "enqueue_withdrawal q w m = Ok (i, q')"
  shows "queue_wf q'" and "queue_list q' = queue_list q @ [(i, w)]"
    and "i = next_pending_withdrawal_id q" and "unat (next_pending_withdrawal_id q') = unat i + 1"
proof -
  let ?xs = "pending_withdrawals q"
  from assms(2) have i: "i = next_pending_withdrawal_id q"
    and pending: "pending_withdrawals q' = snd (pw_insert ?xs i w)"
    and id: "unat (next_pending_withdrawal_id q') = unat i + 1"
    and exe: "next_withdraw_to_execute q' = next_withdraw_to_execute q"
    and esc: "unat (cached_total_escrow q') = unat (cached_total_escrow q) + unat (escrow_shares w)"
    and exp: "unat (cached_total_expected q') =
      unat (cached_total_expected q) + unat (expected_assets w)"
    by (auto simp: enqueue_withdrawal_Ok checked_add_eq_Some)
  have new: "pending_withdrawals q' = ?xs @ [\<lparr>pw_id = i, pw_withdrawal = w\<rparr>]"
    using assms(1) by (simp add: pending i queue_wf_def pw_insert_last)
  have lt: "next_pending_withdrawal_id q < next_pending_withdrawal_id q'"
    using id by (simp add: i word_less_nat_alt)
  show "queue_list q' = queue_list q @ [(i, w)]"
    by (simp add: queue_list_def new pw_iter_def)
  show "queue_wf q'"
    using assms(1) by (auto simp: queue_wf_def new i ids_sorted_snoc esc exp exe pw_keys_def
      intro: lt order.strict_trans [OF _ lt] split: list.splits)
qed (use assms(2) in \<open>auto simp: enqueue_withdrawal_Ok checked_add_eq_Some\<close>)

lemma queue_head_list:
  assumes "queue_wf q"
  shows "queue_head q = (case queue_list q of [] \<Rightarrow> None | x # xs \<Rightarrow> Some x)"
proof (cases "pending_withdrawals q")
  case Nil
  then show ?thesis
    by (simp add: queue_head_def queue_list_def pw_iter_def pw_get_def locate_def
      binary_search_by_def)
next
  case (Cons e es)
  with assms have "pw_get (e # es) (pw_id e) = Some (pw_withdrawal e)"
    using pw_get_middle [of "[]" e es] by (simp add: queue_wf_def)
  with Cons assms show ?thesis
    by (simp add: queue_head_def queue_list_def pw_iter_def queue_wf_def pw_keys_def)
qed

lemma dequeue_empty: "queue_list q = [] \<Longrightarrow> dequeue q = Ok (None, q)"
  by (simp add: dequeue_def queue_is_empty_def queue_list_def pw_iter_def)

lemma dequeue_head:
  assumes "queue_wf q" and "queue_list q = (i, w) # xs"
  shows "\<exists>q'. dequeue q = Ok (Some (i, w), q') \<and> queue_wf q' \<and> queue_list q' = xs \<and>
    next_pending_withdrawal_id q' = next_pending_withdrawal_id q"
proof -
  from assms(2) obtain e es where q: "pending_withdrawals q = e # es"
    and e: "pw_id e = i" "pw_withdrawal e = w" and xs: "xs = pw_iter es"
    by (auto simp: queue_list_def pw_iter_def)
  from assms(1) have head: "next_withdraw_to_execute q = i"
    and rem: "pw_remove (e # es) i = (Some w, es)"
    and esc: "unat (cached_total_escrow q) = unat (escrow_shares w) + sum_escrow (pw_values es)"
    and exp: "unat (cached_total_expected q) =
      unat (expected_assets w) + sum_expected (pw_values es)"
    using pw_remove_first [of e es] by (auto simp: queue_wf_def q e pw_keys_def)
  obtain esc' where esc': "checked_sub (cached_total_escrow q) (escrow_shares w) = Some esc'"
    using esc by (cases "checked_sub (cached_total_escrow q) (escrow_shares w)")
      (auto simp: checked_sub_eq_None)
  obtain exp' where exp': "checked_sub (cached_total_expected q) (expected_assets w) = Some exp'"
    using exp by (cases "checked_sub (cached_total_expected q) (expected_assets w)")
      (auto simp: checked_sub_eq_None)
  define q' where "q' = q\<lparr>pending_withdrawals := es, cached_total_escrow := esc',
    cached_total_expected := exp', next_withdraw_to_execute :=
      (case pw_keys es of k # ks \<Rightarrow> k | [] \<Rightarrow> next_pending_withdrawal_id q)\<rparr>"
  have "dequeue q = Ok (Some (i, w), q')"
    by (simp add: dequeue_def queue_is_empty_def Let_def q head rem esc' exp' q'_def)
  moreover have "queue_wf q'"
    using assms(1) esc exp esc' exp'
    by (simp add: q'_def queue_wf_def q ids_sorted_Cons checked_sub_eq_Some split: list.split)
  ultimately show ?thesis by (intro exI [of _ q']) (simp add: q'_def queue_list_def xs)
qed

interpretation fq: fifo queue_list queue_wf next_pending_withdrawal_id enqueue_withdrawal dequeue
proof
  show "enqueue_withdrawal q w m \<noteq> Panic" for q w m by (rule enqueue_withdrawal_not_Panic)
  fix q assume "queue_wf q"
  note wf = enqueue_withdrawal_wf [OF this] and deq = dequeue_head [OF this]
  show "queue_wf q'" if "enqueue_withdrawal q w m = Ok (i, q')" for w m i q'
    using that by (rule wf)
  show "queue_list q' = queue_list q @ [(i, w)]" if "enqueue_withdrawal q w m = Ok (i, q')" for w m i q'
    using that by (rule wf)
  show "i = next_pending_withdrawal_id q \<and> unat (next_pending_withdrawal_id q') = unat i + 1"
    if "enqueue_withdrawal q w m = Ok (i, q')" for w m i q'
    using wf(3,4) [OF that] by simp
  show "dequeue q = Ok (None, q)" if "queue_list q = []"
    using that by (rule dequeue_empty)
  show "\<exists>q'. dequeue q = Ok (Some x, q') \<and> queue_wf q' \<and> queue_list q' = xs \<and>
      next_pending_withdrawal_id q' = next_pending_withdrawal_id q"
    if "queue_list q = x # xs" for x xs
    using that deq by (cases x) simp
qed

section \<open>The invariants of the source\<close>

lemma compute_pending_totals_fold:
  "fold (\<lambda>w (esc, exp). (saturating_add esc (escrow_shares w),
     saturating_add exp (expected_assets w))) ws (a, b) =
   (fold (\<lambda>w esc. saturating_add esc (escrow_shares w)) ws a,
    fold (\<lambda>w exp. saturating_add exp (expected_assets w)) ws b)"
  by (induction ws arbitrary: a b) simp_all

lemma compute_pending_totals_exact:
  assumes "compute_pending_totals ws = (esc, exp)"
  shows "unat esc = min (sum_escrow ws) (2 ^ 128 - 1)"
    and "unat exp = min (sum_expected ws) (2 ^ 128 - 1)"
  using assms unat_fold_saturating_add [of escrow_shares ws "0 :: u128"]
    unat_fold_saturating_add [of expected_assets ws "0 :: u128"]
  by (auto simp: compute_pending_totals_def compute_pending_totals_fold sum_escrow_def
    sum_expected_def)

lemma queue_wf_check_invariants:
  assumes "queue_wf q"
  shows "check_invariants q"
proof -
  let ?xs = "pending_withdrawals q"
  obtain esc exp where tot: "compute_pending_totals (pw_values ?xs) = (esc, exp)" by fastforce
  have "cached_total_escrow q = esc" "cached_total_expected q = exp"
    using assms compute_pending_totals_exact [OF tot] unat_le_max [of "cached_total_escrow q"]
      unat_le_max [of "cached_total_expected q"]
    by (simp_all add: word_eq_nat [where ?'a = 128] queue_wf_def)
  moreover have "next_withdraw_to_execute q \<le> next_pending_withdrawal_id q"
    using assms by (auto simp: queue_wf_def pw_keys_def split: list.splits)
  moreover have "?xs \<noteq> [] \<Longrightarrow> pw_contains_key ?xs (next_withdraw_to_execute q)"
    using queue_head_list [OF assms]
    by (auto simp: pw_contains_key_get queue_head_def queue_list_def pw_iter_def split: list.splits)
  ultimately show ?thesis
    by (auto simp: check_invariants_def tot queue_is_empty_def not_less)
qed

text \<open>
  On its own the check of the source is not kept: an empty queue whose head pointer lags behind the
  next id passes it, and the next request is then stored where the head pointer does not find it.
\<close>

lemma check_invariants_not_inductive:
  "\<exists>q w q' i. check_invariants q \<and> enqueue_withdrawal q w 1 = Ok (i, q') \<and>
     \<not> check_invariants q' \<and> queue_head q' = None"
  by (rule exI [of _ "\<lparr>pending_withdrawals = [], next_withdraw_to_execute = 0,
      next_pending_withdrawal_id = 5, cached_total_escrow = 0, cached_total_expected = 0\<rparr>"],
    rule exI [of _ "\<lparr>owner = 0, receiver = 0, escrow_shares = 1, expected_assets = 1,
      requested_at_ns = 0\<rparr>"])
    (simp add: check_invariants_def enqueue_withdrawal_def queue_is_empty_def
      compute_pending_totals_def queue_can_enqueue_def MAX_PENDING_def checked_add_def pw_insert_def
      locate_def binary_search_by_def pw_contains_key_def queue_head_def pw_get_def
      search_loop.simps cmp_def)

lemma queue_wf_new: "queue_wf queue_new" "queue_list queue_new = []"
  by (simp_all add: queue_wf_def queue_new_def pw_new_def ids_sorted_def pw_keys_def queue_list_def
    pw_iter_def)

text \<open>The bound on the length, kept by enqueueing within it.\<close>

lemma queue_len_list: "length (queue_list q) = queue_len q"
  by (simp add: queue_list_def queue_len_def pw_iter_def)

lemma enqueue_withdrawal_len:
  "queue_wf q \<Longrightarrow> enqueue_withdrawal q w m = Ok (i, q') \<Longrightarrow>
    queue_len q' \<le> unat m \<and> queue_len q' \<le> MAX_PENDING"
  using enqueue_withdrawal_wf(2) [of q w m i q']
  by (simp flip: queue_len_list)
    (auto simp: enqueue_withdrawal_Ok queue_can_enqueue_def queue_list_def pw_iter_def)

text \<open>Totals read off the cache, on a well-formed queue.\<close>

lemma queue_wf_totals:
  assumes "queue_wf q"
  shows "unat (cached_total_escrow q) = sum_escrow (map snd (queue_list q))"
    and "unat (cached_total_expected q) = sum_expected (map snd (queue_list q))"
  using assms by (simp_all add: queue_wf_def queue_list_def pw_iter_def pw_values_def comp_def)

lemma sorted_entries_check_sorted:
  "sorted_entries_check l es \<longleftrightarrow>
    (\<forall>k. l = Some k \<longrightarrow> (\<forall>e \<in> set es. k < fst e)) \<and> sorted_wrt (<) (map fst es)"
proof (induction es arbitrary: l)
  case (Cons e es)
  then show ?case
    by (cases e; cases l) (auto simp: not_le intro: order_less_trans)
qed simp

lemma from_sorted_entries_Ok:
  assumes "from_sorted_entries es = Ok xs"
  shows "pw_iter xs = es" and "ids_sorted xs"
proof -
  from assms have sorted: "sorted_wrt (<) (map fst es)"
    and xs: "xs = map (\<lambda>(i, w). \<lparr>pw_id = i, pw_withdrawal = w\<rparr>) es"
    by (auto simp: from_sorted_entries_def sorted_entries_check_sorted split: if_splits)
  show "pw_iter xs = es" by (simp add: xs pw_iter_def comp_def case_prod_beta)
  with sorted show "ids_sorted xs" by (metis ids_sorted_def map_fst_pw_iter)
qed

section \<open>Properties\<close>


text \<open>
  C15. Lookups are those of the list the entries came from. Entries that the sortedness check of the
  source accepts are found by the binary search at exactly the ids of the list, and building the same
  map by repeated insertion gives the same lookups for every list with distinct ids, a panic for any
  other.
\<close>

theorem pending_withdrawals_lookup:
  "(\<forall>xs. from_sorted_entries es = (Ok xs :: (_, 'e) result) \<longrightarrow> pw_get xs = map_of es) \<and>
   (from_sorted_entries es = (Panic :: (_, 'e) result) \<longleftrightarrow> \<not> sorted_wrt (<) (map fst es)) \<and>
   (distinct (map fst es) \<longrightarrow>
     (\<exists>m. pw_from_iter es = (Ok m :: (_, 'e) result) \<and> ids_sorted m \<and> pw_get m = map_of es)) \<and>
   (\<not> distinct (map fst es) \<longrightarrow> pw_from_iter es = (Panic :: (_, 'e) result))"
proof (intro conjI)
  show "\<forall>xs. from_sorted_entries es = (Ok xs :: (_, 'e) result) \<longrightarrow> pw_get xs = map_of es"
    using from_sorted_entries_Ok pw_get_map_of by fastforce
  show "from_sorted_entries es = (Panic :: (_, 'e) result) \<longleftrightarrow> \<not> sorted_wrt (<) (map fst es)"
    by (simp add: from_sorted_entries_def sorted_entries_check_sorted)
qed (use pw_from_iter_correct [of es, where ?'e = 'e] in \<open>simp_all split: if_splits\<close>)

theorem pending_withdrawals_lookup_witness:
  "let w = \<lparr>owner = 1, receiver = 2, escrow_shares = 3, expected_assets = 4, requested_at_ns = 5\<rparr>;
       es = [(7 :: u64, w), (9, w\<lparr>owner := 8\<rparr>)]
   in from_sorted_entries es = (Ok [\<lparr>pw_id = 7, pw_withdrawal = w\<rparr>,
        \<lparr>pw_id = 9, pw_withdrawal = w\<lparr>owner := 8\<rparr>\<rparr>] :: (_, unit) result) \<and>
      pw_get [\<lparr>pw_id = 7, pw_withdrawal = w\<rparr>,
        \<lparr>pw_id = 9, pw_withdrawal = w\<lparr>owner := 8\<rparr>\<rparr>] 9 = Some (w\<lparr>owner := 8\<rparr>) \<and>
      pw_from_iter [(7, w), (7, w)] = (Panic :: (_, unit) result)"
proof -
  define w where
    "w = \<lparr>owner = 1, receiver = 2, escrow_shares = 3, expected_assets = 4, requested_at_ns = 5\<rparr>"
  let ?es = "[(7 :: u64, w), (9, w\<lparr>owner := 8\<rparr>)]"
  let ?xs = "[\<lparr>pw_id = 7, pw_withdrawal = w\<rparr>, \<lparr>pw_id = 9, pw_withdrawal = w\<lparr>owner := 8\<rparr>\<rparr>]"
  have ok: "from_sorted_entries ?es = (Ok ?xs :: (_, unit) result)"
    by (simp add: from_sorted_entries_def)
  then have "pw_get ?xs = map_of ?es"
    using pending_withdrawals_lookup [of ?es, where ?'e = unit] by blast
  moreover have "pw_from_iter [(7, w), (7, w)] = (Panic :: (_, unit) result)"
    using pending_withdrawals_lookup [of "[(7, w), (7, w)]", where ?'e = unit] by simp
  ultimately show ?thesis using ok by (simp add: w_def Let_def)
qed

end
