(* ===== verification/Kernel_Op_State.thy ===== *)
theory Kernel_Op_State
  imports Kernel_Queue
begin

text \<open>
  The operation state of the vault and the effects it asks the executor for (under
  \<^verbatim>\<open>src/contract/vault/kernel/src/\<close>: \<^verbatim>\<open>state/op_state/mod.rs\<close>,
  \<^verbatim>\<open>effects.rs\<close>).

  The shares an effect mints and burns are read off by \<open>minted\<close> and \<open>burned_by\<close>; the theorems on
  the share supply are stated with them.
\<close>

section \<open>Operation states\<close>

record AllocationPlanEntry =
  target_id :: TargetId
  plan_amount :: u128

record AllocatingState =
  alloc_op_id :: u64
  alloc_index :: u32
  alloc_remaining :: u128
  alloc_plan :: "AllocationPlanEntry list"

record WithdrawingState =
  wd_op_id :: u64
  wd_request_id :: u64
  wd_index :: u32
  wd_remaining :: u128
  wd_collected :: u128
  wd_receiver :: Address
  wd_owner :: Address
  wd_escrow_shares :: u128

record RefreshingState =
  refresh_op_id :: u64
  refresh_index :: u32
  refresh_plan :: "TargetId list"

record PayoutState =
  payout_op_id :: u64
  payout_request_id :: u64
  payout_receiver :: Address
  payout_amount :: u128
  payout_owner :: Address
  payout_escrow_shares :: u128
  payout_burn_shares :: u128

definition alloc_advance :: "AllocatingState \<Rightarrow> u128 \<Rightarrow> AllocatingState" where
  "alloc_advance s amount_allocated =
     \<lparr>alloc_op_id = alloc_op_id s,
      alloc_index = saturating_add (alloc_index s) 1,
      alloc_remaining = saturating_sub (alloc_remaining s) amount_allocated,
      alloc_plan = alloc_plan s\<rparr>"

definition wd_advance :: "WithdrawingState \<Rightarrow> u128 \<Rightarrow> WithdrawingState" where
  "wd_advance s amount_collected =
     \<lparr>wd_op_id = wd_op_id s,
      wd_request_id = wd_request_id s,
      wd_index = saturating_add (wd_index s) 1,
      wd_remaining = saturating_sub (wd_remaining s) amount_collected,
      wd_collected = saturating_add (wd_collected s) amount_collected,
      wd_receiver = wd_receiver s,
      wd_owner = wd_owner s,
      wd_escrow_shares = wd_escrow_shares s\<rparr>"

definition refresh_advance :: "RefreshingState \<Rightarrow> RefreshingState" where
  "refresh_advance s =
     \<lparr>refresh_op_id = refresh_op_id s,
      refresh_index = saturating_add (refresh_index s) 1,
      refresh_plan = refresh_plan s\<rparr>"

datatype OpState =
    Idle
  | Allocating AllocatingState
  | Withdrawing WithdrawingState
  | Refreshing RefreshingState
  | Payout PayoutState

fun kind_code :: "OpState \<Rightarrow> u32" where
  "kind_code Idle = 0"
| "kind_code (Allocating s) = 1"
| "kind_code (Withdrawing s) = 2"
| "kind_code (Refreshing s) = 3"
| "kind_code (Payout s) = 4"

fun kind_name :: "OpState \<Rightarrow> string" where
  "kind_name Idle = ''Idle''"
| "kind_name (Allocating s) = ''Allocating''"
| "kind_name (Withdrawing s) = ''Withdrawing''"
| "kind_name (Refreshing s) = ''Refreshing''"
| "kind_name (Payout s) = ''Payout''"

fun as_allocating :: "OpState \<Rightarrow> AllocatingState option" where
  "as_allocating (Allocating s) = Some s"
| "as_allocating _ = None"

fun as_withdrawing :: "OpState \<Rightarrow> WithdrawingState option" where
  "as_withdrawing (Withdrawing s) = Some s"
| "as_withdrawing _ = None"

fun as_refreshing :: "OpState \<Rightarrow> RefreshingState option" where
  "as_refreshing (Refreshing s) = Some s"
| "as_refreshing _ = None"

fun as_payout :: "OpState \<Rightarrow> PayoutState option" where
  "as_payout (Payout s) = Some s"
| "as_payout _ = None"

fun op_id :: "OpState \<Rightarrow> u64 option" where
  "op_id Idle = None"
| "op_id (Allocating s) = Some (alloc_op_id s)"
| "op_id (Withdrawing s) = Some (wd_op_id s)"
| "op_id (Refreshing s) = Some (refresh_op_id s)"
| "op_id (Payout s) = Some (payout_op_id s)"

definition is_idle_op :: "OpState \<Rightarrow> bool" where
  "is_idle_op s \<longleftrightarrow> s = Idle"

section \<open>Effects and events\<close>

datatype KernelCallback = AllocationStep | WithdrawalStep | RefreshStep | PayoutTransfer

datatype WithdrawalSkipReason = ZeroExpectedAssets | SkipRestricted

text \<open>The fields of each event are in the order of the source.\<close>

datatype KernelEvent =
    AllocationStarted u64 u128 u32
  | AllocationStepFailed u64 u32 u128 u128
  | AllocationCompleted u64 bool
  | WithdrawalStarted u64 u128 u128 Address Address
  | WithdrawalCollected u64 u128 u128
  | WithdrawalStopped u64 u128
  | WithdrawalSkipped u64 Address Address u128 u128 WithdrawalSkipReason
  | RefreshStarted u64 u32
  | RefreshCompleted u64
  | PayoutCompleted u64 bool u128 u128 u128
  | DepositProcessed Address Address u128 u128
  | AtomicWithdrawProcessed Address Address u128 u128
  | WithdrawalRequested u64 Address Address u128 u128
  | ExternalAssetsSynced u64 u128 u128
  | FeesRefreshed u64 u128
  | PauseUpdated bool
  | EmergencyResetCompleted u64 u32

datatype KernelEffect =
    MintShares Address u128
  | BurnShares Address u128
  | BurnSharesFrom Address Address u128
  | TransferShares Address Address u128
  | TransferAssets Address u128
  | TransferAssetsFrom Address Address u128
  | ExternalCall Address u32 "8 word list" u128 "KernelCallback option"
  | ChargeStorage Address u64
  | EmitEvent KernelEvent

fun event_required_addresses :: "KernelEvent \<Rightarrow> Address list" where
  "event_required_addresses (WithdrawalStarted op amount escrow own recv) = [own, recv]"
| "event_required_addresses (DepositProcessed own recv assets_in shares_out) = [own, recv]"
| "event_required_addresses (AtomicWithdrawProcessed own recv shares assets) = [own, recv]"
| "event_required_addresses (WithdrawalRequested i own recv shares expected) = [own, recv]"
| "event_required_addresses (WithdrawalSkipped i own recv escrow expected reason) = [own, recv]"
| "event_required_addresses _ = []"

fun required_addresses :: "KernelEffect \<Rightarrow> Address list" where
  "required_addresses (MintShares own shares) = [own]"
| "required_addresses (BurnShares own shares) = [own]"
| "required_addresses (BurnSharesFrom spender own shares) = [spender, own]"
| "required_addresses (TransferShares src dst shares) = [src, dst]"
| "required_addresses (TransferAssets dst amount) = [dst]"
| "required_addresses (TransferAssetsFrom src dst amount) = [src, dst]"
| "required_addresses (ExternalCall target selector args attached callback) = [target]"
| "required_addresses (ChargeStorage payer bytes) = [payer]"
| "required_addresses (EmitEvent event) = event_required_addresses event"

section \<open>What effects do to the share supply and to the assets\<close>

fun minted_by :: "KernelEffect \<Rightarrow> nat" where
  "minted_by (MintShares own shares) = unat shares"
| "minted_by _ = 0"

fun burned_by :: "KernelEffect \<Rightarrow> nat" where
  "burned_by (BurnShares own shares) = unat shares"
| "burned_by (BurnSharesFrom spender own shares) = unat shares"
| "burned_by _ = 0"

fun paid_by :: "KernelEffect \<Rightarrow> nat" where
  "paid_by (TransferAssets dst amount) = unat amount"
| "paid_by _ = 0"

text \<open>Shares that leave the escrow address: burned there or transferred from there.\<close>

fun released_by :: "Address \<Rightarrow> KernelEffect \<Rightarrow> nat" where
  "released_by escrow (BurnShares own shares) = (if own = escrow then unat shares else 0)"
| "released_by escrow (TransferShares src dst shares) = (if src = escrow then unat shares else 0)"
| "released_by escrow _ = 0"

definition minted :: "KernelEffect list \<Rightarrow> nat" where
  "minted es = sum_list (map minted_by es)"

definition burned_total :: "KernelEffect list \<Rightarrow> nat" where
  "burned_total es = sum_list (map burned_by es)"

definition paid :: "KernelEffect list \<Rightarrow> nat" where
  "paid es = sum_list (map paid_by es)"

definition released :: "Address \<Rightarrow> KernelEffect list \<Rightarrow> nat" where
  "released escrow es = sum_list (map (released_by escrow) es)"

named_theorems effect_sums \<open>the sums over effects, computed along the list\<close>

lemma minted_simps [effect_sums]:
  "minted [] = 0" "minted (e # es) = minted_by e + minted es"
  "minted (es @ es') = minted es + minted es'"
  by (simp_all add: minted_def)

lemma burned_total_simps [effect_sums]:
  "burned_total [] = 0" "burned_total (e # es) = burned_by e + burned_total es"
  "burned_total (es @ es') = burned_total es + burned_total es'"
  by (simp_all add: burned_total_def)

lemma paid_simps [effect_sums]:
  "paid [] = 0" "paid (e # es) = paid_by e + paid es"
  "paid (es @ es') = paid es + paid es'"
  by (simp_all add: paid_def)

lemma released_simps [effect_sums]:
  "released a [] = 0" "released a (e # es) = released_by a e + released a es"
  "released a (es @ es') = released a es + released a es'"
  by (simp_all add: released_def)

text \<open>The sources push an effect only when its amount is positive; the sums do not see the guard.\<close>

lemma guarded_effect_sums [effect_sums]:
  "released a (if 0 < n then [BurnShares a n] else []) = unat n"
  "released a (if 0 < n then [TransferShares a b n] else []) = unat n"
  "burned_total (if 0 < n then [BurnShares a n] else []) = unat n"
  "burned_total (if 0 < n then [TransferShares a b n] else []) = 0"
  "minted (if 0 < n then [BurnShares a n] else []) = 0"
  "minted (if 0 < n then [TransferShares a b n] else []) = 0"
  "minted (if 0 < n then [MintShares a n] else []) = unat n"
  "burned_total (if 0 < n then [MintShares a n] else []) = 0"
  by (simp_all add: released_def burned_total_def minted_def word_gt_0)

lemma kind_code_name: "kind_code s = kind_code t \<longleftrightarrow> kind_name s = kind_name t"
  by (cases s; cases t) simp_all

lemma op_id_None [simp]: "op_id s = None \<longleftrightarrow> s = Idle"
  by (cases s) simp_all

end
