(* ===== verification/Kernel_Transitions.thy ===== *)
theory Kernel_Transitions
  imports Kernel_Op_State
begin

text \<open>
  The transition functions of the operation state machine
  (\<^verbatim>\<open>src/contract/vault/kernel/src/transitions/mod.rs\<close>).

  \<^item> Each transition checks the state it starts from and the operation id, and returns the next state
    and the effects to execute.
  \<^item> \<open>op_step\<close> is the machine they make up; \<open>op_wf\<close> is its invariant: an allocation has at most its
    plan left, a withdrawal never collects past \<^verbatim>\<open>u128\<close>, a payout never burns more than its escrow.
\<close>

datatype TransitionError =
    WrongState
  | TransitionOpIdMismatch u64 u64
  | EmptyAllocationPlan
  | EmptyRefreshPlan
  | ZeroWithdrawalAmount
  | ZeroEscrowShares
  | InvalidIndex u32 u32
  | CollectionOverflow u128 u128
  | AllocationOverflow u128 u128
  | ZeroAllocationAmount
  | BurnExceedsEscrow u128 u128
  | WithdrawalIncomplete u128 u128

record TransitionResult =
  tr_state :: OpState
  tr_effects :: "KernelEffect list"

type_synonym TransitionRes = "(TransitionResult, TransitionError) result"

definition tr_new :: "OpState \<Rightarrow> TransitionResult" where
  "tr_new s = \<lparr>tr_state = s, tr_effects = []\<rparr>"

definition validate_plan_index :: "u32 \<Rightarrow> nat \<Rightarrow> (unit, TransitionError) result" where
  "validate_plan_index i plan_len =
     (let len = of_nat plan_len
      in if len \<le> i then Err (InvalidIndex i (saturating_sub len 1)) else Ok ())"

section \<open>Allocation\<close>

definition plan_total :: "AllocationPlanEntry list \<Rightarrow> u128" where
  "plan_total plan = fold (\<lambda>step total. saturating_add total (plan_amount step)) plan 0"

definition start_allocation ::
    "OpState \<Rightarrow> AllocationPlanEntry list \<Rightarrow> u64 \<Rightarrow> TransitionRes" where
  "start_allocation state plan op =
     (if \<not> is_idle_op state then Err WrongState
      else if plan = [] then Err EmptyAllocationPlan
      else
        let total_amount = plan_total plan;
            plan_len = of_nat (length plan)
        in Ok \<lparr>tr_state = Allocating \<lparr>alloc_op_id = op, alloc_index = 0,
                 alloc_remaining = total_amount, alloc_plan = plan\<rparr>,
               tr_effects = [EmitEvent (AllocationStarted op total_amount plan_len)]\<rparr>)"

definition allocation_step_callback ::
    "OpState \<Rightarrow> bool \<Rightarrow> u128 \<Rightarrow> u64 \<Rightarrow> TransitionRes" where
  "allocation_step_callback state success amount_allocated op =
     (case state of
        Allocating alloc \<Rightarrow>
          if alloc_op_id alloc \<noteq> op then Err (TransitionOpIdMismatch (alloc_op_id alloc) op)
          else
            and_then (validate_plan_index (alloc_index alloc) (length (alloc_plan alloc))) (\<lambda>_.
              if \<not> success then
                let original_total = plan_total (alloc_plan alloc);
                    total_allocated = saturating_sub original_total (alloc_remaining alloc)
                in Ok \<lparr>tr_state = Idle,
                     tr_effects = [EmitEvent (AllocationStepFailed (alloc_op_id alloc)
                       (alloc_index alloc) (alloc_remaining alloc) total_allocated)]\<rparr>
              else if amount_allocated = 0 then Err ZeroAllocationAmount
              else if alloc_remaining alloc < amount_allocated then
                Err (AllocationOverflow amount_allocated (alloc_remaining alloc))
              else Ok (tr_new (Allocating (alloc_advance alloc amount_allocated))))
      | _ \<Rightarrow> Err WrongState)"

record WithdrawalRequest =
  req_op_id :: u64
  req_request_id :: u64
  req_amount :: u128
  req_receiver :: Address
  req_owner :: Address
  req_escrow_shares :: u128

definition withdrawing_of :: "WithdrawalRequest \<Rightarrow> WithdrawingState" where
  "withdrawing_of req =
     \<lparr>wd_op_id = req_op_id req, wd_request_id = req_request_id req, wd_index = 0,
      wd_remaining = req_amount req, wd_collected = 0, wd_receiver = req_receiver req,
      wd_owner = req_owner req, wd_escrow_shares = req_escrow_shares req\<rparr>"

definition complete_allocation ::
    "OpState \<Rightarrow> u64 \<Rightarrow> WithdrawalRequest option \<Rightarrow> TransitionRes" where
  "complete_allocation state op pending_withdrawal =
     (case state of
        Allocating alloc \<Rightarrow>
          if alloc_op_id alloc \<noteq> op then Err (TransitionOpIdMismatch (alloc_op_id alloc) op)
          else
            (case (case pending_withdrawal of
                     Some req \<Rightarrow> if 0 < req_amount req then Some req else None
                   | None \<Rightarrow> None) of
               Some req \<Rightarrow>
                 if req_escrow_shares req = 0 then Err ZeroEscrowShares
                 else Ok \<lparr>tr_state = Withdrawing (withdrawing_of req),
                   tr_effects = [EmitEvent (AllocationCompleted op True)]\<rparr>
             | None \<Rightarrow>
                 Ok \<lparr>tr_state = Idle, tr_effects = [EmitEvent (AllocationCompleted op False)]\<rparr>)
      | _ \<Rightarrow> Err WrongState)"

section \<open>Withdrawal\<close>

definition start_withdrawal :: "OpState \<Rightarrow> WithdrawalRequest \<Rightarrow> TransitionRes" where
  "start_withdrawal state request =
     (if \<not> is_idle_op state then Err WrongState
      else if req_amount request = 0 then Err ZeroWithdrawalAmount
      else if req_escrow_shares request = 0 then Err ZeroEscrowShares
      else Ok \<lparr>tr_state = Withdrawing (withdrawing_of request),
        tr_effects = [EmitEvent (WithdrawalStarted (req_op_id request) (req_amount request)
          (req_escrow_shares request) (req_owner request) (req_receiver request))]\<rparr>)"

definition withdrawal_step_callback :: "OpState \<Rightarrow> u64 \<Rightarrow> u128 \<Rightarrow> TransitionRes" where
  "withdrawal_step_callback state op amount_collected =
     (case state of
        Withdrawing withdraw \<Rightarrow>
          if wd_op_id withdraw \<noteq> op then Err (TransitionOpIdMismatch (wd_op_id withdraw) op)
          else if wd_remaining withdraw < amount_collected then
            Err (CollectionOverflow amount_collected (wd_remaining withdraw))
          else Ok (tr_new (Withdrawing (wd_advance withdraw amount_collected)))
      | _ \<Rightarrow> Err WrongState)"

definition payout_of :: "WithdrawingState \<Rightarrow> u128 \<Rightarrow> PayoutState" where
  "payout_of withdraw burn_shares =
     \<lparr>payout_op_id = wd_op_id withdraw, payout_request_id = wd_request_id withdraw,
      payout_receiver = wd_receiver withdraw, payout_amount = wd_collected withdraw,
      payout_owner = wd_owner withdraw, payout_escrow_shares = wd_escrow_shares withdraw,
      payout_burn_shares = burn_shares\<rparr>"

definition withdrawal_collected :: "OpState \<Rightarrow> u64 \<Rightarrow> u128 \<Rightarrow> TransitionRes" where
  "withdrawal_collected state op burn_shares =
     (case state of
        Withdrawing withdraw \<Rightarrow>
          if wd_op_id withdraw \<noteq> op then Err (TransitionOpIdMismatch (wd_op_id withdraw) op)
          else if 0 < wd_remaining withdraw then
            Err (WithdrawalIncomplete (wd_remaining withdraw) (wd_collected withdraw))
          else if wd_escrow_shares withdraw < burn_shares then
            Err (BurnExceedsEscrow burn_shares (wd_escrow_shares withdraw))
          else Ok \<lparr>tr_state = Payout (payout_of withdraw burn_shares),
            tr_effects = [EmitEvent (WithdrawalCollected op burn_shares (wd_collected withdraw))]\<rparr>
      | _ \<Rightarrow> Err WrongState)"

definition withdrawal_settled :: "OpState \<Rightarrow> u64 \<Rightarrow> u128 \<Rightarrow> u128 \<Rightarrow> TransitionRes" where
  "withdrawal_settled state op amount_collected burn_shares =
     and_then (withdrawal_step_callback state op amount_collected) (\<lambda>stepped.
       (case tr_state stepped of
          Withdrawing withdraw \<Rightarrow>
            if wd_escrow_shares withdraw < burn_shares then
              Err (BurnExceedsEscrow burn_shares (wd_escrow_shares withdraw))
            else Ok \<lparr>tr_state = Payout (payout_of withdraw burn_shares),
              tr_effects = [EmitEvent (WithdrawalCollected op burn_shares (wd_collected withdraw))]\<rparr>
        | _ \<Rightarrow> Err WrongState))"

definition stop_withdrawal :: "OpState \<Rightarrow> u64 \<Rightarrow> Address \<Rightarrow> TransitionRes" where
  "stop_withdrawal state op escrow_address =
     (case state of
        Withdrawing withdraw \<Rightarrow>
          if wd_op_id withdraw \<noteq> op then Err (TransitionOpIdMismatch (wd_op_id withdraw) op)
          else Ok \<lparr>tr_state = Idle,
            tr_effects =
              (if 0 < wd_escrow_shares withdraw
               then [TransferShares escrow_address (wd_owner withdraw) (wd_escrow_shares withdraw)]
               else []) @
              [EmitEvent (WithdrawalStopped op (wd_escrow_shares withdraw))]\<rparr>
      | _ \<Rightarrow> Err WrongState)"

section \<open>Refresh\<close>

definition start_refresh :: "OpState \<Rightarrow> TargetId list \<Rightarrow> u64 \<Rightarrow> TransitionRes" where
  "start_refresh state plan op =
     (if \<not> is_idle_op state then Err WrongState
      else if plan = [] then Err EmptyRefreshPlan
      else Ok \<lparr>tr_state = Refreshing \<lparr>refresh_op_id = op, refresh_index = 0, refresh_plan = plan\<rparr>,
        tr_effects = [EmitEvent (RefreshStarted op (of_nat (length plan)))]\<rparr>)"

definition refresh_step_callback :: "OpState \<Rightarrow> u64 \<Rightarrow> TransitionRes" where
  "refresh_step_callback state op =
     (case state of
        Refreshing refresh \<Rightarrow>
          if refresh_op_id refresh \<noteq> op then Err (TransitionOpIdMismatch (refresh_op_id refresh) op)
          else
            and_then (validate_plan_index (refresh_index refresh) (length (refresh_plan refresh)))
              (\<lambda>_. Ok (tr_new (Refreshing (refresh_advance refresh))))
      | _ \<Rightarrow> Err WrongState)"

definition complete_refresh :: "OpState \<Rightarrow> u64 \<Rightarrow> TransitionRes" where
  "complete_refresh state op =
     (case state of
        Refreshing refresh \<Rightarrow>
          if refresh_op_id refresh \<noteq> op then Err (TransitionOpIdMismatch (refresh_op_id refresh) op)
          else Ok \<lparr>tr_state = Idle, tr_effects = [EmitEvent (RefreshCompleted op)]\<rparr>
      | _ \<Rightarrow> Err WrongState)"

section \<open>Payout\<close>

definition payout_complete :: "OpState \<Rightarrow> bool \<Rightarrow> u64 \<Rightarrow> Address \<Rightarrow> TransitionRes" where
  "payout_complete state success op escrow_address =
     (case state of
        Payout payout \<Rightarrow>
          if payout_op_id payout \<noteq> op then Err (TransitionOpIdMismatch (payout_op_id payout) op)
          else if success then
            (if payout_escrow_shares payout < payout_burn_shares payout then
               Err (BurnExceedsEscrow (payout_burn_shares payout) (payout_escrow_shares payout))
             else
               let refund_shares = payout_escrow_shares payout - payout_burn_shares payout
               in Ok \<lparr>tr_state = Idle,
                    tr_effects =
                      (if 0 < payout_burn_shares payout
                       then [BurnShares escrow_address (payout_burn_shares payout)] else []) @
                      (if 0 < refund_shares
                       then [TransferShares escrow_address (payout_owner payout) refund_shares]
                       else []) @
                      [EmitEvent (PayoutCompleted op success (payout_burn_shares payout)
                        refund_shares (payout_amount payout))]\<rparr>)
          else Ok \<lparr>tr_state = Idle,
            tr_effects =
              (if 0 < payout_escrow_shares payout
               then [TransferShares escrow_address (payout_owner payout)
                 (payout_escrow_shares payout)] else []) @
              [EmitEvent (PayoutCompleted op success 0 (payout_escrow_shares payout) 0)]\<rparr>
      | _ \<Rightarrow> Err WrongState)"

section \<open>The machine\<close>

inductive op_step :: "OpState \<Rightarrow> OpState \<Rightarrow> bool" where
  step_start_allocation: "start_allocation s plan op = Ok r \<Longrightarrow> op_step s (tr_state r)"
| step_allocation: "allocation_step_callback s ok amount op = Ok r \<Longrightarrow> op_step s (tr_state r)"
| step_complete_allocation: "complete_allocation s op req = Ok r \<Longrightarrow> op_step s (tr_state r)"
| step_start_withdrawal: "start_withdrawal s req = Ok r \<Longrightarrow> op_step s (tr_state r)"
| step_withdrawal: "withdrawal_step_callback s op amount = Ok r \<Longrightarrow> op_step s (tr_state r)"
| step_collected: "withdrawal_collected s op burn = Ok r \<Longrightarrow> op_step s (tr_state r)"
| step_settled: "withdrawal_settled s op amount burn = Ok r \<Longrightarrow> op_step s (tr_state r)"
| step_stop: "stop_withdrawal s op escrow = Ok r \<Longrightarrow> op_step s (tr_state r)"
| step_start_refresh: "start_refresh s rplan op = Ok r \<Longrightarrow> op_step s (tr_state r)"
| step_refresh: "refresh_step_callback s op = Ok r \<Longrightarrow> op_step s (tr_state r)"
| step_complete_refresh: "complete_refresh s op = Ok r \<Longrightarrow> op_step s (tr_state r)"
| step_payout: "payout_complete s ok op escrow = Ok r \<Longrightarrow> op_step s (tr_state r)"

text \<open>The edges of the diagram at the head of the source file.\<close>

fun op_edge :: "OpState \<Rightarrow> OpState \<Rightarrow> bool" where
  "op_edge Idle s' = (case s' of Allocating _ \<Rightarrow> True | Withdrawing _ \<Rightarrow> True | Refreshing _ \<Rightarrow> True
     | _ \<Rightarrow> False)"
| "op_edge (Allocating _) s' =
     (case s' of Allocating _ \<Rightarrow> True | Withdrawing _ \<Rightarrow> True | Idle \<Rightarrow> True | _ \<Rightarrow> False)"
| "op_edge (Withdrawing _) s' =
     (case s' of Withdrawing _ \<Rightarrow> True | Payout _ \<Rightarrow> True | Idle \<Rightarrow> True | _ \<Rightarrow> False)"
| "op_edge (Refreshing _) s' = (case s' of Refreshing _ \<Rightarrow> True | Idle \<Rightarrow> True | _ \<Rightarrow> False)"
| "op_edge (Payout _) s' = (s' = Idle)"

fun op_wf :: "OpState \<Rightarrow> bool" where
  "op_wf Idle = True"
| "op_wf (Allocating a) =
     (alloc_plan a \<noteq> [] \<and> alloc_remaining a \<le> plan_total (alloc_plan a) \<and>
      unat (alloc_index a) \<le> length (alloc_plan a))"
| "op_wf (Withdrawing w) =
     (wd_escrow_shares w \<noteq> 0 \<and> unat (wd_remaining w) + unat (wd_collected w) < 2 ^ 128)"
| "op_wf (Refreshing r) =
     (refresh_plan r \<noteq> [] \<and> unat (refresh_index r) \<le> length (refresh_plan r))"
| "op_wf (Payout p) =
     (payout_escrow_shares p \<noteq> 0 \<and> payout_burn_shares p \<le> payout_escrow_shares p)"

lemma validate_plan_index_Ok:
  "validate_plan_index i n = Ok u \<longleftrightarrow> unat i < n mod 2 ^ 32"
  by (auto simp: validate_plan_index_def Let_def word_nat unat_of_nat)

lemma plan_index_advance:
  assumes "unat (i :: u32) < n mod 2 ^ 32"
  shows "unat (saturating_add i 1) = unat i + 1" and "unat i + 1 \<le> n"
proof -
  have "n mod 2 ^ 32 < 2 ^ 32" by simp
  with assms show "unat (saturating_add i 1) = unat i + 1" by (simp add: word_nat)
  have "n mod 2 ^ 32 \<le> n" by (rule mod_less_eq_dividend)
  with assms show "unat i + 1 \<le> n" by simp
qed

lemma unat_plan_total: "unat (plan_total p) = min (sum_list (map (unat \<circ> plan_amount) p)) (2 ^ 128 - 1)"
  by (simp add: plan_total_def unat_fold_saturating_add)

text \<open>One successful step of a withdrawal: what remains and what is collected change in step.\<close>

lemma withdrawal_step_Ok:
  "withdrawal_step_callback s op amount = Ok r \<longleftrightarrow>
    (\<exists>w. s = Withdrawing w \<and> wd_op_id w = op \<and> amount \<le> wd_remaining w \<and>
      r = tr_new (Withdrawing (wd_advance w amount)))"
  by (auto simp: withdrawal_step_callback_def not_less split: OpState.splits if_splits)

lemma wd_advance_balance:
  assumes "amount \<le> wd_remaining w" and "unat (wd_remaining w) + unat (wd_collected w) < 2 ^ 128"
  shows "unat (wd_remaining (wd_advance w amount)) = unat (wd_remaining w) - unat amount"
    and "unat (wd_collected (wd_advance w amount)) = unat (wd_collected w) + unat amount"
    and "unat (wd_remaining (wd_advance w amount)) + unat (wd_collected (wd_advance w amount)) =
      unat (wd_remaining w) + unat (wd_collected w)"
  using assms by (simp_all add: wd_advance_def word_nat)

lemma wd_advance_fields [simp]:
  "wd_op_id (wd_advance w a) = wd_op_id w" "wd_request_id (wd_advance w a) = wd_request_id w"
  "wd_receiver (wd_advance w a) = wd_receiver w" "wd_owner (wd_advance w a) = wd_owner w"
  "wd_escrow_shares (wd_advance w a) = wd_escrow_shares w"
  by (simp_all add: wd_advance_def)

lemma tr_new_fields [simp]: "tr_state (tr_new s) = s" "tr_effects (tr_new s) = []"
  by (simp_all add: tr_new_def)

lemma withdrawal_settled_Ok:
  "withdrawal_settled s op amount burn = Ok r \<longleftrightarrow>
    (\<exists>w. s = Withdrawing w \<and> wd_op_id w = op \<and> amount \<le> wd_remaining w \<and>
      burn \<le> wd_escrow_shares w \<and>
      r = \<lparr>tr_state = Payout (payout_of (wd_advance w amount) burn),
        tr_effects = [EmitEvent (WithdrawalCollected op burn (wd_collected (wd_advance w amount)))]\<rparr>)"
  by (auto simp: withdrawal_settled_def withdrawal_step_Ok not_less)

lemma allocation_step_Ok:
  "allocation_step_callback s ok amount op = Ok r \<longleftrightarrow>
    (\<exists>a. s = Allocating a \<and> alloc_op_id a = op \<and>
      unat (alloc_index a) < length (alloc_plan a) mod 2 ^ 32 \<and>
      (if ok then amount \<noteq> 0 \<and> amount \<le> alloc_remaining a \<and>
          r = tr_new (Allocating (alloc_advance a amount))
       else r = \<lparr>tr_state = Idle, tr_effects = [EmitEvent (AllocationStepFailed op (alloc_index a)
          (alloc_remaining a) (saturating_sub (plan_total (alloc_plan a)) (alloc_remaining a)))]\<rparr>))"
  by (auto simp: allocation_step_callback_def Let_def validate_plan_index_Ok not_less
    split: OpState.splits if_splits)

text \<open>Each transition follows an edge of the graph and keeps the invariant.\<close>

lemma start_allocation_step:
  "start_allocation s plan op = Ok r \<Longrightarrow> op_edge s (tr_state r) \<and> (op_wf s \<longrightarrow> op_wf (tr_state r))"
  by (auto simp: start_allocation_def is_idle_op_def Let_def split: if_splits)

lemma allocation_step_callback_step:
  assumes "allocation_step_callback s ok amount op = Ok r"
  shows "op_edge s (tr_state r) \<and> (op_wf s \<longrightarrow> op_wf (tr_state r))"
proof (cases ok)
  case True
  with assms show ?thesis
    by (auto simp: allocation_step_Ok alloc_advance_def plan_index_advance word_nat)
qed (use assms in \<open>auto simp: allocation_step_Ok\<close>)

lemma complete_allocation_step:
  "complete_allocation s op req = Ok r \<Longrightarrow> op_edge s (tr_state r) \<and> (op_wf s \<longrightarrow> op_wf (tr_state r))"
  by (auto simp: complete_allocation_def withdrawing_of_def u128_bound
    split: OpState.splits if_splits option.splits)

lemma start_withdrawal_step:
  "start_withdrawal s req = Ok r \<Longrightarrow> op_edge s (tr_state r) \<and> (op_wf s \<longrightarrow> op_wf (tr_state r))"
  by (auto simp: start_withdrawal_def withdrawing_of_def is_idle_op_def u128_bound split: if_splits)

lemma withdrawal_step_callback_step:
  "withdrawal_step_callback s op amount = Ok r \<Longrightarrow>
    op_edge s (tr_state r) \<and> (op_wf s \<longrightarrow> op_wf (tr_state r))"
  by (auto simp: withdrawal_step_Ok wd_advance_balance(3))

lemma withdrawal_collected_step:
  "withdrawal_collected s op burn = Ok r \<Longrightarrow>
    op_edge s (tr_state r) \<and> (op_wf s \<longrightarrow> op_wf (tr_state r))"
  by (auto simp: withdrawal_collected_def payout_of_def not_less split: OpState.splits if_splits)

lemma withdrawal_settled_step:
  "withdrawal_settled s op amount burn = Ok r \<Longrightarrow>
    op_edge s (tr_state r) \<and> (op_wf s \<longrightarrow> op_wf (tr_state r))"
  by (auto simp: withdrawal_settled_Ok payout_of_def)

lemma stop_withdrawal_step:
  "stop_withdrawal s op escrow = Ok r \<Longrightarrow> op_edge s (tr_state r) \<and> (op_wf s \<longrightarrow> op_wf (tr_state r))"
  by (auto simp: stop_withdrawal_def split: OpState.splits if_splits)

lemma start_refresh_step:
  "start_refresh s plan op = Ok r \<Longrightarrow> op_edge s (tr_state r) \<and> (op_wf s \<longrightarrow> op_wf (tr_state r))"
  by (auto simp: start_refresh_def is_idle_op_def split: if_splits)

lemma refresh_step_callback_step:
  "refresh_step_callback s op = Ok r \<Longrightarrow> op_edge s (tr_state r) \<and> (op_wf s \<longrightarrow> op_wf (tr_state r))"
  by (auto simp: refresh_step_callback_def refresh_advance_def validate_plan_index_Ok
    plan_index_advance split: OpState.splits if_splits)

lemma complete_refresh_step:
  "complete_refresh s op = Ok r \<Longrightarrow> op_edge s (tr_state r) \<and> (op_wf s \<longrightarrow> op_wf (tr_state r))"
  by (auto simp: complete_refresh_def split: OpState.splits if_splits)

lemma payout_complete_step:
  "payout_complete s ok op escrow = Ok r \<Longrightarrow> op_edge s (tr_state r) \<and> (op_wf s \<longrightarrow> op_wf (tr_state r))"
  by (auto simp: payout_complete_def Let_def split: OpState.splits if_splits)

lemmas transition_steps =
  start_allocation_step allocation_step_callback_step complete_allocation_step start_withdrawal_step
  withdrawal_step_callback_step withdrawal_collected_step withdrawal_settled_step
  stop_withdrawal_step start_refresh_step refresh_step_callback_step complete_refresh_step
  payout_complete_step

lemma op_step_safe: "op_step s s' \<Longrightarrow> op_edge s s' \<and> (op_wf s \<longrightarrow> op_wf s')"
  by (erule op_step.cases) (simp only:, erule transition_steps)+

interpretation ops: state_machine "\<lambda>s. s = Idle" op_step op_wf
  by unfold_locales (use op_step_safe in auto)

section \<open>Runs of callbacks\<close>

text \<open>A withdrawal collects the amounts its callbacks report, in order.\<close>

fun collect_all :: "OpState \<Rightarrow> u64 \<Rightarrow> u128 list \<Rightarrow> (OpState, TransitionError) result" where
  "collect_all s op [] = Ok s"
| "collect_all s op (a # as) =
     and_then (withdrawal_step_callback s op a) (\<lambda>r. collect_all (tr_state r) op as)"

text \<open>An allocation is told the amounts its callbacks supplied, in order.\<close>

fun supply_all :: "OpState \<Rightarrow> u64 \<Rightarrow> u128 list \<Rightarrow> (OpState, TransitionError) result" where
  "supply_all s op [] = Ok s"
| "supply_all s op (a # as) =
     and_then (allocation_step_callback s True a op) (\<lambda>r. supply_all (tr_state r) op as)"

lemma collect_all_withdrawing:
  assumes "unat (wd_remaining w) + unat (wd_collected w) < 2 ^ 128" and "wd_op_id w = op"
  shows "(\<exists>w'. collect_all (Withdrawing w) op as = Ok (Withdrawing w') \<and>
      payout_of w' burn = (payout_of w burn)\<lparr>payout_amount := wd_collected w'\<rparr> \<and>
      wd_op_id w' = op \<and> wd_escrow_shares w' = wd_escrow_shares w \<and>
      unat (wd_remaining w') + sum_list (map unat as) = unat (wd_remaining w) \<and>
      unat (wd_collected w') = unat (wd_collected w) + sum_list (map unat as)) \<or>
    (unat (wd_remaining w) < sum_list (map unat as) \<and>
      (\<exists>e. collect_all (Withdrawing w) op as = Err e))"
  using assms
proof (induction as arbitrary: w)
  case Nil
  then show ?case by (simp add: payout_of_def)
next
  case (Cons a as)
  show ?case
  proof (cases "a \<le> wd_remaining w")
    case True
    note bal = wd_advance_balance [OF True Cons.prems(1)]
    have step: "collect_all (Withdrawing w) op (a # as) = collect_all (Withdrawing (wd_advance w a)) op as"
      using True Cons.prems(2) by (simp add: withdrawal_step_callback_def word_guard)
    have payout: "payout_of (wd_advance w a) burn =
        (payout_of w burn)\<lparr>payout_amount := wd_collected (wd_advance w a)\<rparr>"
      by (simp add: payout_of_def)
    show ?thesis
      using Cons.IH [of "wd_advance w a"] Cons.prems True
      unfolding step payout by (auto simp: bal word_le_nat_alt)
  next
    case False
    with Cons.prems(2) show ?thesis
      by (auto simp: withdrawal_step_callback_def not_le word_less_nat_alt)
  qed
qed

lemma supply_all_allocating:
  assumes "supply_all (Allocating a) op as = Ok s"
  shows "\<exists>a'. s = Allocating a' \<and> alloc_plan a' = alloc_plan a \<and> alloc_op_id a' = alloc_op_id a \<and>
    unat (alloc_remaining a') + sum_list (map unat as) = unat (alloc_remaining a)"
  using assms
proof (induction as arbitrary: a)
  case (Cons x xs)
  from Cons.prems have le: "x \<le> alloc_remaining a"
    and rest: "supply_all (Allocating (alloc_advance a x)) op xs = Ok s"
    by (auto simp: allocation_step_Ok)
  from Cons.IH [OF rest] le show ?case
    by (auto simp: alloc_advance_def word_nat)
qed auto

section \<open>Properties\<close>

text \<open>
  C16. The machine stays within its documented graph and its invariant. Every state reachable from Idle
  by transition functions that return without error is well-formed (an allocation has at most its plan
  left and an index within it, a withdrawal has shares in escrow and cannot overflow its counters, a
  payout burns at most its escrow), and the next step from it follows one of the documented edges.
\<close>

theorem op_machine_safe:
  assumes "op_step\<^sup>*\<^sup>* Idle s"
  shows "op_wf s \<and> (\<forall>s'. op_step s s' \<longrightarrow> op_edge s s' \<and> op_wf s')"
proof -
  from assms have "op_wf s" using ops.reachable_inv by blast
  then show ?thesis using op_step_safe by simp
qed

theorem op_machine_safe_witness:
  "\<exists>s. op_step Idle s \<and> kind_code s = 3 \<and> op_wf s"
proof -
  let ?s = "Refreshing \<lparr>refresh_op_id = 4, refresh_index = 0, refresh_plan = [1, 2]\<rparr>"
  have step: "op_step Idle ?s"
    using step_start_refresh [of Idle "[1, 2]" 4] by (simp add: start_refresh_def is_idle_op_def)
  then have "op_wf ?s" using op_machine_safe [of ?s] by blast
  with step show ?thesis by (intro exI [of _ ?s]) simp
qed

text \<open>
  C17. A withdrawal that collects step by step pays exactly its request. From a started withdrawal, the
  callbacks that report the amounts \<open>as\<close> followed by the collected transition succeed exactly when
  the amounts add up to the requested amount and the burn is within the escrow; the payout they reach
  carries the requested amount, the receiver, the owner and the whole escrow of the request.
\<close>

theorem withdrawal_pays_request:
  assumes "start_withdrawal Idle req = Ok started"
  shows "and_then (collect_all (tr_state started) (req_op_id req) as)
      (\<lambda>s. withdrawal_collected s (req_op_id req) burn) = Ok r \<longleftrightarrow>
    sum_list (map unat as) = unat (req_amount req) \<and> burn \<le> req_escrow_shares req \<and>
    r = \<lparr>tr_state = Payout \<lparr>payout_op_id = req_op_id req, payout_request_id = req_request_id req,
        payout_receiver = req_receiver req, payout_amount = req_amount req,
        payout_owner = req_owner req, payout_escrow_shares = req_escrow_shares req,
        payout_burn_shares = burn\<rparr>,
      tr_effects = [EmitEvent (WithdrawalCollected (req_op_id req) burn (req_amount req))]\<rparr>"
proof -
  let ?w = "withdrawing_of req"
  have start: "tr_state started = Withdrawing ?w"
    using assms by (auto simp: start_withdrawal_def is_idle_op_def split: if_splits)
  have w: "unat (wd_remaining ?w) + unat (wd_collected ?w) < 2 ^ 128" "wd_op_id ?w = req_op_id req"
    by (simp_all add: withdrawing_of_def u128_bound)
  from collect_all_withdrawing [OF w, of as burn] show ?thesis
  proof (elim disjE exE conjE)
    fix w' assume run: "collect_all (Withdrawing ?w) (req_op_id req) as = Ok (Withdrawing w')"
      and pay: "payout_of w' burn = (payout_of ?w burn)\<lparr>payout_amount := wd_collected w'\<rparr>"
      and op: "wd_op_id w' = req_op_id req" and esc: "wd_escrow_shares w' = wd_escrow_shares ?w"
      and rem: "unat (wd_remaining w') + sum_list (map unat as) = unat (wd_remaining ?w)"
      and col: "unat (wd_collected w') = unat (wd_collected ?w) + sum_list (map unat as)"
    have esc': "wd_escrow_shares w' = req_escrow_shares req"
      and pay': "payout_of w' burn = \<lparr>payout_op_id = req_op_id req,
        payout_request_id = req_request_id req, payout_receiver = req_receiver req,
        payout_amount = wd_collected w', payout_owner = req_owner req,
        payout_escrow_shares = req_escrow_shares req, payout_burn_shares = burn\<rparr>"
      using esc pay by (simp_all add: withdrawing_of_def payout_of_def)
    have done_iff: "wd_remaining w' = 0 \<longleftrightarrow> sum_list (map unat as) = unat (req_amount req)"
      using rem by (auto simp: withdrawing_of_def word_eq_nat [where ?'a = 128])
    show ?thesis
    proof (cases "wd_remaining w' = 0")
      case True
      then have amount: "wd_collected w' = req_amount req"
        using rem col by (simp add: withdrawing_of_def word_eq_nat [where ?'a = 128])
      have sum: "sum_list (map unat as) = unat (req_amount req)" using done_iff True by simp
      show ?thesis
        by (auto simp: start run withdrawal_collected_def op esc' pay' True amount sum not_less
          split: if_splits)
    next
      case False
      then have "0 < wd_remaining w'" "sum_list (map unat as) \<noteq> unat (req_amount req)"
        using done_iff by (simp_all add: word_gt_0)
      then show ?thesis by (simp add: start run withdrawal_collected_def op)
    qed
  next
    fix e assume "collect_all (Withdrawing ?w) (req_op_id req) as = Err e"
      and "unat (wd_remaining ?w) < sum_list (map unat as)"
    then show ?thesis by (simp add: start withdrawing_of_def)
  qed
qed

theorem withdrawal_pays_request_witness:
  "let req = \<lparr>req_op_id = 3, req_request_id = 0, req_amount = 100, req_receiver = 7, req_owner = 8,
        req_escrow_shares = 50\<rparr>
   in \<exists>started r. start_withdrawal Idle req = Ok started \<and>
     and_then (collect_all (tr_state started) 3 [60, 40]) (\<lambda>s. withdrawal_collected s 3 50) = Ok r"
proof -
  define req where "req = \<lparr>req_op_id = 3, req_request_id = 0, req_amount = 100, req_receiver = 7,
    req_owner = 8, req_escrow_shares = 50\<rparr>"
  have "\<exists>started. start_withdrawal Idle req = Ok started"
    by (simp add: start_withdrawal_def is_idle_op_def req_def)
  then obtain started where s: "start_withdrawal Idle req = Ok started" ..
  have "\<exists>r. and_then (collect_all (tr_state started) (req_op_id req) [60, 40])
      (\<lambda>s. withdrawal_collected s (req_op_id req) 50) = Ok r"
    unfolding withdrawal_pays_request [OF s] by (simp add: req_def)
  with s show ?thesis by (auto simp: req_def Let_def)
qed

text \<open>
  C18. Escrow is released in full. Completing a payout, successfully or not, and stopping a withdrawal
  return the machine to Idle with effects that take exactly the escrowed shares out of the escrow
  address; only a successful payout burns, and exactly its burn shares; nothing is minted.
\<close>

theorem escrow_released_in_full:
  assumes "op_wf (Payout p)"
  shows "(\<exists>r. payout_complete (Payout p) ok (payout_op_id p) escrow = Ok r \<and> tr_state r = Idle \<and>
      released escrow (tr_effects r) = unat (payout_escrow_shares p) \<and>
      burned_total (tr_effects r) = (if ok then unat (payout_burn_shares p) else 0) \<and>
      minted (tr_effects r) = 0) \<and>
    (\<exists>r. stop_withdrawal (Withdrawing w) (wd_op_id w) escrow = Ok r \<and> tr_state r = Idle \<and>
      released escrow (tr_effects r) = unat (wd_escrow_shares w) \<and>
      burned_total (tr_effects r) = 0 \<and> minted (tr_effects r) = 0)"
proof
  have le: "\<not> payout_escrow_shares p < payout_burn_shares p"
    "payout_burn_shares p \<le> payout_escrow_shares p" using assms by (simp_all add: not_less)
  have sub: "unat (payout_escrow_shares p - payout_burn_shares p) =
      unat (payout_escrow_shares p) - unat (payout_burn_shares p)"
    using le(2) by (rule unat_sub)
  show "\<exists>r. payout_complete (Payout p) ok (payout_op_id p) escrow = Ok r \<and> tr_state r = Idle \<and>
      released escrow (tr_effects r) = unat (payout_escrow_shares p) \<and>
      burned_total (tr_effects r) = (if ok then unat (payout_burn_shares p) else 0) \<and>
      minted (tr_effects r) = 0"
    using le unfolding word_le_nat_alt
    by (simp add: payout_complete_def Let_def effect_sums sub)
  show "\<exists>r. stop_withdrawal (Withdrawing w) (wd_op_id w) escrow = Ok r \<and> tr_state r = Idle \<and>
      released escrow (tr_effects r) = unat (wd_escrow_shares w) \<and>
      burned_total (tr_effects r) = 0 \<and> minted (tr_effects r) = 0"
    by (auto simp: stop_withdrawal_def effect_sums)
qed

theorem escrow_released_in_full_witness:
  "let p = \<lparr>payout_op_id = 1, payout_request_id = 0, payout_receiver = 5, payout_amount = 90,
        payout_owner = 6, payout_escrow_shares = 100, payout_burn_shares = 70\<rparr>
   in \<exists>r. payout_complete (Payout p) True 1 9 = Ok r \<and> released 9 (tr_effects r) = 100 \<and>
        burned_total (tr_effects r) = 70"
  using escrow_released_in_full [of "\<lparr>payout_op_id = 1, payout_request_id = 0, payout_receiver = 5,
    payout_amount = 90, payout_owner = 6, payout_escrow_shares = 100, payout_burn_shares = 70\<rparr>"
    True 9] by (auto simp: Let_def)

end
