(* ===== verification/Kernel_Error.thy ===== *)
theory Kernel_Error
  imports Kernel_Transitions
begin

text \<open>
  The kernel's errors and their diagnostic codes
  (\<^verbatim>\<open>src/contract/vault/kernel/src/error.rs\<close>). Constructors whose name is used by several of the
  enumerations carry a prefix. The texts of \<^verbatim>\<open>message\<close> and \<^verbatim>\<open>Display\<close> are not modelled.
\<close>

datatype InvalidStateCode =
    StateUnknown
  | WithdrawalQueueHeadMismatch
  | FeeMintOverflowTotalSupply
  | WithdrawalQueueCacheOverflow
  | WithdrawalQueueMissingEntry
  | UnexpectedEmptyQueue
  | WithdrawalQueueInvariantViolation
  | DepositRequiresIdle
  | DepositOverflowTotalAssets
  | DepositOverflowIdleAssets
  | MintOverflowTotalShares
  | RequestWithdrawRequiresIdle
  | ExecuteWithdrawRequiresIdle
  | ExecuteWithdrawRequiresIdleUseCallbacks
  | StartAllocationMustReturnAllocating
  | AllocationPlanExceedsIdleAssets
  | SyncExternalRequiresActiveOp
  | SyncExternalRequiresAllowedStates
  | SyncExternalOverflowIdlePlusExternal
  | AbortRefreshingRequiresActiveOp
  | AbortRefreshingRequiresRefreshing
  | AbortAllocatingRequiresAllocating
  | AbortAllocatingRestoreIdleMismatch
  | AbortWithdrawingRequiresWithdrawing
  | AbortWithdrawingRefundMismatch
  | SettlePayoutRequiresPayout
  | PayoutSuccessSettlementMismatch
  | PayoutBurnExceedsTotalShares
  | PayoutFailureSettlementMismatch
  | PayoutFailureRestoreIdleMismatch
  | RefreshFeesRequiresIdle
  | FeeRefreshTimestampMustAdvance
  | EmergencyResetAlreadyIdle
  | AtomicWithdrawRequiresIdle
  | AtomicWithdrawExceedsIdleAssets
  | AtomicWithdrawBurnExceedsTotalShares
  | AtomicWithdrawTotalAssetsUnderflow
  | RebalanceWithdrawRequiresIdle
  | RebalanceWithdrawExceedsExternalAssets
  | RebalanceWithdrawOverflowsIdleAssets
  | WithdrawalLiquidityBelowMinimum
  | RequestWithdrawExpectedAssetsExceedTotalAssets

fun state_code_index :: "InvalidStateCode \<Rightarrow> u16" where
  "state_code_index StateUnknown = 0"
| "state_code_index WithdrawalQueueHeadMismatch = 1"
| "state_code_index FeeMintOverflowTotalSupply = 2"
| "state_code_index WithdrawalQueueCacheOverflow = 3"
| "state_code_index WithdrawalQueueMissingEntry = 4"
| "state_code_index UnexpectedEmptyQueue = 5"
| "state_code_index WithdrawalQueueInvariantViolation = 6"
| "state_code_index DepositRequiresIdle = 7"
| "state_code_index DepositOverflowTotalAssets = 8"
| "state_code_index DepositOverflowIdleAssets = 9"
| "state_code_index MintOverflowTotalShares = 10"
| "state_code_index RequestWithdrawRequiresIdle = 11"
| "state_code_index ExecuteWithdrawRequiresIdle = 12"
| "state_code_index ExecuteWithdrawRequiresIdleUseCallbacks = 13"
| "state_code_index StartAllocationMustReturnAllocating = 14"
| "state_code_index AllocationPlanExceedsIdleAssets = 15"
| "state_code_index SyncExternalRequiresActiveOp = 16"
| "state_code_index SyncExternalRequiresAllowedStates = 17"
| "state_code_index SyncExternalOverflowIdlePlusExternal = 18"
| "state_code_index AbortRefreshingRequiresActiveOp = 20"
| "state_code_index AbortRefreshingRequiresRefreshing = 21"
| "state_code_index AbortAllocatingRequiresAllocating = 22"
| "state_code_index AbortAllocatingRestoreIdleMismatch = 23"
| "state_code_index AbortWithdrawingRequiresWithdrawing = 24"
| "state_code_index AbortWithdrawingRefundMismatch = 25"
| "state_code_index SettlePayoutRequiresPayout = 26"
| "state_code_index PayoutSuccessSettlementMismatch = 27"
| "state_code_index PayoutBurnExceedsTotalShares = 28"
| "state_code_index PayoutFailureSettlementMismatch = 29"
| "state_code_index PayoutFailureRestoreIdleMismatch = 30"
| "state_code_index RefreshFeesRequiresIdle = 31"
| "state_code_index FeeRefreshTimestampMustAdvance = 32"
| "state_code_index EmergencyResetAlreadyIdle = 33"
| "state_code_index AtomicWithdrawRequiresIdle = 34"
| "state_code_index AtomicWithdrawExceedsIdleAssets = 35"
| "state_code_index AtomicWithdrawBurnExceedsTotalShares = 36"
| "state_code_index AtomicWithdrawTotalAssetsUnderflow = 37"
| "state_code_index RebalanceWithdrawRequiresIdle = 38"
| "state_code_index RebalanceWithdrawExceedsExternalAssets = 39"
| "state_code_index RebalanceWithdrawOverflowsIdleAssets = 40"
| "state_code_index WithdrawalLiquidityBelowMinimum = 41"
| "state_code_index RequestWithdrawExpectedAssetsExceedTotalAssets = 42"

datatype InvalidConfigCode = ConfigUnknown | MaxPendingWithdrawalsExceedsLimit

fun config_code_index :: "InvalidConfigCode \<Rightarrow> u16" where
  "config_code_index ConfigUnknown = 0"
| "config_code_index MaxPendingWithdrawalsExceedsLimit = 1"

datatype KernelErrorCode =
    Code_InvalidState
  | Code_OpIdMismatch
  | Code_Slippage
  | Code_MinWithdrawal
  | Code_QueueFull
  | Code_NoPendingWithdrawals
  | Code_Cooldown
  | Code_Transition
  | Code_NotImplemented
  | Code_Restricted
  | Code_InvalidConfig
  | Code_ZeroAmount

fun error_code_index :: "KernelErrorCode \<Rightarrow> u32" where
  "error_code_index Code_InvalidState = 1000"
| "error_code_index Code_OpIdMismatch = 1001"
| "error_code_index Code_Slippage = 1002"
| "error_code_index Code_MinWithdrawal = 1003"
| "error_code_index Code_QueueFull = 1004"
| "error_code_index Code_NoPendingWithdrawals = 1005"
| "error_code_index Code_Cooldown = 1006"
| "error_code_index Code_Transition = 1007"
| "error_code_index Code_NotImplemented = 1008"
| "error_code_index Code_Restricted = 1009"
| "error_code_index Code_InvalidConfig = 1010"
| "error_code_index Code_ZeroAmount = 1011"

definition INVALID_STATE_INDEXED_BASE :: u32 where
  "INVALID_STATE_INDEXED_BASE = 100000"

definition INVALID_CONFIG_INDEXED_BASE :: u32 where
  "INVALID_CONFIG_INDEXED_BASE = 101000"

datatype KernelDiagnosticCode =
    Base KernelErrorCode
  | Diag_InvalidState InvalidStateCode
  | Diag_InvalidConfig InvalidConfigCode

fun family :: "KernelDiagnosticCode \<Rightarrow> KernelErrorCode" where
  "family (Base code) = code"
| "family (Diag_InvalidState code) = Code_InvalidState"
| "family (Diag_InvalidConfig code) = Code_InvalidConfig"

definition family_code :: "KernelDiagnosticCode \<Rightarrow> u32" where
  "family_code d = error_code_index (family d)"

fun detailed_code :: "KernelDiagnosticCode \<Rightarrow> u32" where
  "detailed_code (Base code) = error_code_index code"
| "detailed_code (Diag_InvalidState code) =
     INVALID_STATE_INDEXED_BASE + ucast (state_code_index code)"
| "detailed_code (Diag_InvalidConfig code) =
     INVALID_CONFIG_INDEXED_BASE + ucast (config_code_index code)"

text \<open>The fields of each variant are in the order of the source.\<close>

datatype KernelError =
    InvalidState InvalidStateCode
  | OpIdMismatch u64 u64
  | Slippage u128 u128
  | MinWithdrawal u128 u128
  | QueueFull u32 u32
  | NoPendingWithdrawals
  | Cooldown u64 u64 u64
  | Transition TransitionError
  | NotImplemented
  | Restricted RestrictionKind
  | InvalidConfig InvalidConfigCode
  | ZeroAmount

fun diagnostic_code :: "KernelError \<Rightarrow> KernelDiagnosticCode" where
  "diagnostic_code (InvalidState code) = Diag_InvalidState code"
| "diagnostic_code (OpIdMismatch expected actual) = Base Code_OpIdMismatch"
| "diagnostic_code (Slippage min_amount actual) = Base Code_Slippage"
| "diagnostic_code (MinWithdrawal amount min_amount) = Base Code_MinWithdrawal"
| "diagnostic_code (QueueFull current max_len) = Base Code_QueueFull"
| "diagnostic_code NoPendingWithdrawals = Base Code_NoPendingWithdrawals"
| "diagnostic_code (Cooldown requested_at now cooldown_ns) = Base Code_Cooldown"
| "diagnostic_code (Transition e) = Base Code_Transition"
| "diagnostic_code NotImplemented = Base Code_NotImplemented"
| "diagnostic_code (Restricted kind) = Base Code_Restricted"
| "diagnostic_code (InvalidConfig code) = Diag_InvalidConfig code"
| "diagnostic_code ZeroAmount = Base Code_ZeroAmount"

definition error_family :: "KernelError \<Rightarrow> KernelErrorCode" where
  "error_family e = family (diagnostic_code e)"

definition error_detailed_code :: "KernelError \<Rightarrow> u32" where
  "error_detailed_code e = detailed_code (diagnostic_code e)"

section \<open>Decoding\<close>

text \<open>Inverses of the indices, by search through the enumeration.\<close>

definition all_state_codes :: "InvalidStateCode list" where
  "all_state_codes =
     [StateUnknown, WithdrawalQueueHeadMismatch,
      FeeMintOverflowTotalSupply, WithdrawalQueueCacheOverflow,
      WithdrawalQueueMissingEntry, UnexpectedEmptyQueue,
      WithdrawalQueueInvariantViolation, DepositRequiresIdle,
      DepositOverflowTotalAssets, DepositOverflowIdleAssets,
      MintOverflowTotalShares, RequestWithdrawRequiresIdle,
      ExecuteWithdrawRequiresIdle, ExecuteWithdrawRequiresIdleUseCallbacks,
      StartAllocationMustReturnAllocating, AllocationPlanExceedsIdleAssets,
      SyncExternalRequiresActiveOp, SyncExternalRequiresAllowedStates,
      SyncExternalOverflowIdlePlusExternal, AbortRefreshingRequiresActiveOp,
      AbortRefreshingRequiresRefreshing, AbortAllocatingRequiresAllocating,
      AbortAllocatingRestoreIdleMismatch, AbortWithdrawingRequiresWithdrawing,
      AbortWithdrawingRefundMismatch, SettlePayoutRequiresPayout,
      PayoutSuccessSettlementMismatch, PayoutBurnExceedsTotalShares,
      PayoutFailureSettlementMismatch, PayoutFailureRestoreIdleMismatch,
      RefreshFeesRequiresIdle, FeeRefreshTimestampMustAdvance,
      EmergencyResetAlreadyIdle, AtomicWithdrawRequiresIdle,
      AtomicWithdrawExceedsIdleAssets, AtomicWithdrawBurnExceedsTotalShares,
      AtomicWithdrawTotalAssetsUnderflow, RebalanceWithdrawRequiresIdle,
      RebalanceWithdrawExceedsExternalAssets, RebalanceWithdrawOverflowsIdleAssets,
      WithdrawalLiquidityBelowMinimum, RequestWithdrawExpectedAssetsExceedTotalAssets]"

definition all_error_codes :: "KernelErrorCode list" where
  "all_error_codes =
     [Code_InvalidState, Code_OpIdMismatch, Code_Slippage, Code_MinWithdrawal,
      Code_QueueFull, Code_NoPendingWithdrawals, Code_Cooldown, Code_Transition,
      Code_NotImplemented, Code_Restricted, Code_InvalidConfig, Code_ZeroAmount]"

definition decode_state :: "u16 \<Rightarrow> InvalidStateCode option" where
  "decode_state n = find (\<lambda>c. state_code_index c = n) all_state_codes"

definition decode_error :: "u32 \<Rightarrow> KernelErrorCode option" where
  "decode_error n = find (\<lambda>c. error_code_index c = n) all_error_codes"

lemma decode_state_index: "decode_state (state_code_index c) = Some c"
  by (cases c) (simp_all add: decode_state_def all_state_codes_def)

lemma decode_error_index: "decode_error (error_code_index c) = Some c"
  by (cases c) (simp_all add: decode_error_def all_error_codes_def)

lemma state_code_index_inject [simp]: "state_code_index c = state_code_index c' \<longleftrightarrow> c = c'"
  by (metis decode_state_index option.inject)

lemma error_code_index_inject [simp]: "error_code_index c = error_code_index c' \<longleftrightarrow> c = c'"
  by (metis decode_error_index option.inject)

lemma config_code_index_inject [simp]: "config_code_index c = config_code_index c' \<longleftrightarrow> c = c'"
  by (cases c; cases c') simp_all

lemma state_code_index_bound: "unat (state_code_index c) \<le> 42"
  by (cases c) simp_all

lemma config_code_index_bound: "unat (config_code_index c) \<le> 1"
  by (cases c) simp_all

lemma error_code_index_bound: "unat (error_code_index c) \<le> 1011"
  by (cases c) simp_all

lemma unat_ucast_u16 [simp]: "unat (ucast (n :: u16) :: u32) = unat n"
  by (simp add: unat_ucast_up)

lemma unat_detailed_code:
  "unat (detailed_code (Base c)) = unat (error_code_index c)"
  "unat (detailed_code (Diag_InvalidState sc)) = 100000 + unat (state_code_index sc)"
  "unat (detailed_code (Diag_InvalidConfig cc)) = 101000 + unat (config_code_index cc)"
  using state_code_index_bound [of sc] config_code_index_bound [of cc]
  by (simp_all add: INVALID_STATE_INDEXED_BASE_def INVALID_CONFIG_INDEXED_BASE_def unat_word_ariths)

text \<open>The family can be read off the range of the code.\<close>

lemma detailed_code_family:
  "unat (detailed_code d) < 100000 \<longleftrightarrow> (\<exists>c. d = Base c)"
  "101000 \<le> unat (detailed_code d) \<longleftrightarrow> (\<exists>c. d = Diag_InvalidConfig c)"
proof -
  show "unat (detailed_code d) < 100000 \<longleftrightarrow> (\<exists>c. d = Base c)"
  proof (cases d)
    case (Base c)
    then show ?thesis using error_code_index_bound [of c] by (simp only: unat_detailed_code) simp
  qed (simp_all only: unat_detailed_code, simp_all)
  show "101000 \<le> unat (detailed_code d) \<longleftrightarrow> (\<exists>c. d = Diag_InvalidConfig c)"
  proof (cases d)
    case (Base c)
    then show ?thesis using error_code_index_bound [of c] by (simp only: unat_detailed_code) simp
  next
    case (Diag_InvalidState c)
    then show ?thesis using state_code_index_bound [of c] by (simp only: unat_detailed_code) simp
  qed (simp only: unat_detailed_code, simp)
qed

section \<open>Properties\<close>

text \<open>
  C19. Diagnostic codes are unambiguous: different diagnostics have different detailed codes, so the
  number an executor reports identifies the diagnostic.
\<close>

theorem detailed_code_inject: "detailed_code d = detailed_code d' \<longleftrightarrow> d = d'"
proof
  assume "detailed_code d = detailed_code d'"
  then have eq: "unat (detailed_code d) = unat (detailed_code d')" by simp
  have base: "(\<exists>c. d = Base c) \<longleftrightarrow> (\<exists>c. d' = Base c)"
    by (simp only: eq flip: detailed_code_family)
  have config: "(\<exists>c. d = Diag_InvalidConfig c) \<longleftrightarrow> (\<exists>c. d' = Diag_InvalidConfig c)"
    by (simp only: eq flip: detailed_code_family)
  show "d = d'"
  proof (cases d)
    case (Base c)
    with base obtain c' where c': "d' = Base c'" by blast
    from eq show ?thesis unfolding Base c' unat_detailed_code by (simp flip: word_unat_eq_iff)
  next
    case (Diag_InvalidState c)
    with base config obtain c' where c': "d' = Diag_InvalidState c'" by (cases d') blast+
    from eq show ?thesis
      unfolding Diag_InvalidState c' unat_detailed_code by (simp flip: word_unat_eq_iff)
  next
    case (Diag_InvalidConfig c)
    with config obtain c' where c': "d' = Diag_InvalidConfig c'" by blast
    from eq show ?thesis
      unfolding Diag_InvalidConfig c' unat_detailed_code by (simp flip: word_unat_eq_iff)
  qed
qed simp

end
