(* ===== verification/Kernel_Vault.thy ===== *)
theory Kernel_Vault
  imports Kernel_Error
begin

text \<open>
  The state and the configuration of a vault
  (\<^verbatim>\<open>src/contract/vault/kernel/src/state/vault/mod.rs\<close>).

  \<open>vault_wf\<close> is the invariant of the state: total assets are idle plus external assets, and the
  withdrawal queue is well-formed. It implies the \<^verbatim>\<open>check_invariant\<close> of the source.
\<close>

record FeeAccrualAnchor =
  anchor_total_assets :: u128
  anchor_timestamp_ns :: TimestampNs

definition anchor_zero :: FeeAccrualAnchor where
  "anchor_zero = \<lparr>anchor_total_assets = 0, anchor_timestamp_ns = 0\<rparr>"

definition is_uninitialized :: "FeeAccrualAnchor \<Rightarrow> bool" where
  "is_uninitialized a \<longleftrightarrow> anchor_total_assets a = 0 \<and> anchor_timestamp_ns a = 0"

record VaultConfig =
  fees :: FeesSpec
  min_withdrawal_assets :: u128
  withdrawal_cooldown_ns :: u64
  max_pending_withdrawals :: u32
  paused :: bool
  virtual_shares :: u128
  virtual_assets :: u128

definition is_max_pending_valid :: "VaultConfig \<Rightarrow> bool" where
  "is_max_pending_valid config \<longleftrightarrow> unat (max_pending_withdrawals config) \<le> MAX_PENDING"

record VaultState =
  total_assets :: u128
  total_shares :: u128
  idle_assets :: u128
  external_assets :: u128
  fee_anchor :: FeeAccrualAnchor
  op_state :: OpState
  withdraw_queue :: WithdrawQueue
  next_op_id :: u64

definition vault_new :: VaultState where
  "vault_new = \<lparr>total_assets = 0, total_shares = 0, idle_assets = 0, external_assets = 0,
     fee_anchor = anchor_zero, op_state = Idle, withdraw_queue = queue_new, next_op_id = 0\<rparr>"

definition with_initial ::
    "u128 \<Rightarrow> u128 \<Rightarrow> u128 \<Rightarrow> u128 \<Rightarrow> TimestampNs \<Rightarrow> (VaultState, 'e) result" where
  "with_initial assets shares idle external timestamp_ns =
     and_then (unwrap_abort (checked_add idle external)) (\<lambda>computed_total.
       if assets = computed_total
       then Ok \<lparr>total_assets = assets, total_shares = shares, idle_assets = idle,
         external_assets = external,
         fee_anchor = \<lparr>anchor_total_assets = assets, anchor_timestamp_ns = timestamp_ns\<rparr>,
         op_state = Idle, withdraw_queue = queue_new, next_op_id = 0\<rparr>
       else Panic)"

definition check_invariant :: "VaultState \<Rightarrow> bool" where
  "check_invariant s \<longleftrightarrow>
     (case checked_add (idle_assets s) (external_assets s) of
        None \<Rightarrow> False
      | Some assets \<Rightarrow> total_assets s = assets) \<and>
     check_invariants (withdraw_queue s)"

definition allocate_op_id :: "VaultState \<Rightarrow> (u64 \<times> VaultState, 'e) result" where
  "allocate_op_id s =
     and_then (unwrap_abort (checked_add (next_op_id s) 1)) (\<lambda>n.
       Ok (next_op_id s, s\<lparr>next_op_id := n\<rparr>))"

definition is_idle :: "VaultState \<Rightarrow> bool" where
  "is_idle s = is_idle_op (op_state s)"

definition current_op_id :: "VaultState \<Rightarrow> u64 option" where
  "current_op_id s = op_id (op_state s)"

definition sync_total_assets :: "VaultState \<Rightarrow> (VaultState, 'e) result" where
  "sync_total_assets s =
     and_then (unwrap_abort (checked_add (idle_assets s) (external_assets s))) (\<lambda>t.
       Ok (s\<lparr>total_assets := t\<rparr>))"

definition restore_to_idle :: "VaultState \<Rightarrow> u128 \<Rightarrow> (VaultState, 'e) result" where
  "restore_to_idle s amount =
     and_then (unwrap_abort (checked_add (idle_assets s) amount)) (\<lambda>idle.
       sync_total_assets (s\<lparr>idle_assets := idle\<rparr>))"

section \<open>Invariant\<close>

definition assets_balanced :: "VaultState \<Rightarrow> bool" where
  "assets_balanced s \<longleftrightarrow> unat (total_assets s) = unat (idle_assets s) + unat (external_assets s)"

definition vault_wf :: "VaultState \<Rightarrow> bool" where
  "vault_wf s \<longleftrightarrow> assets_balanced s \<and> queue_wf (withdraw_queue s)"

lemma check_invariant_iff:
  "check_invariant s \<longleftrightarrow> assets_balanced s \<and> check_invariants (withdraw_queue s)"
proof (cases "checked_add (idle_assets s) (external_assets s)")
  case None
  then have "\<not> assets_balanced s"
    using u128_bound [of "total_assets s"] by (simp add: assets_balanced_def checked_add_eq_None)
  with None show ?thesis by (simp add: check_invariant_def)
next
  case (Some t)
  then have "assets_balanced s \<longleftrightarrow> total_assets s = t"
    by (simp add: assets_balanced_def checked_add_eq_Some word_eq_nat [where ?'a = 128])
  with Some show ?thesis by (simp add: check_invariant_def)
qed

lemma vault_wf_check_invariant: "vault_wf s \<Longrightarrow> check_invariant s"
  by (simp add: check_invariant_iff vault_wf_def queue_wf_check_invariants)

lemma vault_wf_new: "vault_wf vault_new"
  by (simp add: vault_wf_def assets_balanced_def vault_new_def queue_wf_new)

lemma with_initial_Ok:
  "with_initial assets shares idle external t = Ok s \<Longrightarrow>
    vault_wf s \<and> op_state s = Idle \<and> queue_list (withdraw_queue s) = []"
  by (auto simp: with_initial_def vault_wf_def assets_balanced_def checked_add_eq_Some queue_wf_new
    split: if_splits)

lemma allocate_op_id_Ok:
  "allocate_op_id s = Ok (i, s') \<longleftrightarrow>
    i = next_op_id s \<and> (\<exists>n. unat n = unat i + 1 \<and> s' = s\<lparr>next_op_id := n\<rparr>)"
  by (auto simp: allocate_op_id_def checked_add_eq_Some)

lemma sync_total_assets_Ok:
  "sync_total_assets s = Ok s' \<longleftrightarrow>
    (\<exists>t. unat t = unat (idle_assets s) + unat (external_assets s) \<and> s' = s\<lparr>total_assets := t\<rparr>)"
  by (auto simp: sync_total_assets_def checked_add_eq_Some)

lemma restore_to_idle_Ok:
  "restore_to_idle s amount = Ok s' \<longleftrightarrow>
    (\<exists>i t. unat i = unat (idle_assets s) + unat amount \<and> unat t = unat i + unat (external_assets s) \<and>
      s' = s\<lparr>idle_assets := i, total_assets := t\<rparr>)"
  by (auto simp: restore_to_idle_def sync_total_assets_Ok checked_add_eq_Some)

lemma sync_total_assets_not_Err [simp]: "sync_total_assets s \<noteq> Err e"
  by (simp add: sync_total_assets_def and_then_eq_Err)

lemma restore_to_idle_not_Err [simp]: "restore_to_idle s a \<noteq> Err e"
  by (simp add: restore_to_idle_def and_then_eq_Err)

end
