(* ===== verification/Kernel_Conversions.thy ===== *)
theory Kernel_Conversions
  imports Kernel_Vault
begin

text \<open>
  Conversions between assets and shares
  (module \<^verbatim>\<open>conversions\<close> of \<^verbatim>\<open>src/contract/vault/kernel/src/actions/mod.rs\<close>).

  \<^item> Prices are quoted on the totals with their virtual offsets, and for exits also on the real totals
    where the configuration has virtual assets.
  \<^item> The lemmas show that every quote is the exact floor or ceiling of its ratio, that a deposit
    followed by a redemption of its shares never returns more than was deposited, and that deposits
    and exits never lower the price of a share.
\<close>

record EffectiveTotals =
  eff_supply :: u128
  eff_assets :: u128

definition effective_totals :: "VaultState \<Rightarrow> VaultConfig \<Rightarrow> EffectiveTotals" where
  "effective_totals state config =
     \<lparr>eff_supply = saturating_add (total_shares state) (max (virtual_shares config) 1),
      eff_assets = saturating_add (total_assets state) (max (virtual_assets config) 1)\<rparr>"

definition real_basis_active :: "VaultConfig \<Rightarrow> u128 \<Rightarrow> bool" where
  "real_basis_active config real_denominator \<longleftrightarrow>
     virtual_assets config \<noteq> 0 \<and> real_denominator \<noteq> 0"

definition virtual_basis_quote ::
    "primitive_types \<Rightarrow> VaultState \<Rightarrow> VaultConfig \<Rightarrow> u128 \<Rightarrow> bool \<Rightarrow> bool \<Rightarrow> Number" where
  "virtual_basis_quote P state config amount to_shares round_up =
     (let t = effective_totals state config in
      (case (if to_shares then (eff_supply t, eff_assets t) else (eff_assets t, eff_supply t)) of
         (numerator, denominator) \<Rightarrow>
           mul_div_with_rounding P (number_from amount) (number_from numerator)
             (number_from denominator) round_up))"

definition dual_basis_quote ::
    "primitive_types \<Rightarrow> VaultState \<Rightarrow> VaultConfig \<Rightarrow> u128 \<Rightarrow> bool \<Rightarrow> bool \<Rightarrow> Number" where
  "dual_basis_quote P state config amount to_shares round_up =
     (let virtual_quote = virtual_basis_quote P state config amount to_shares round_up in
      (case (if to_shares then (total_shares state, total_assets state)
             else (total_assets state, total_shares state)) of
         (real_numerator, real_denominator) \<Rightarrow>
           if \<not> real_basis_active config real_denominator then virtual_quote
           else
             let real_quote = mul_div_with_rounding P (number_from amount)
                   (number_from real_numerator) (number_from real_denominator) round_up
             in if to_shares then max virtual_quote real_quote
                else min virtual_quote real_quote))"

definition bounded_u128 ::
    "Number \<Rightarrow> u128 \<Rightarrow> InvalidStateCode \<Rightarrow> (u128, KernelError) result" where
  "bounded_u128 n cap error =
     (if number_from cap < n then Err (InvalidState error) else Ok (as_u128_trunc n))"

definition convert_to_shares :: "primitive_types \<Rightarrow> VaultState \<Rightarrow> VaultConfig \<Rightarrow> u128 \<Rightarrow> u128" where
  "convert_to_shares P state config assets =
     as_u128_trunc (virtual_basis_quote P state config assets True False)"

definition convert_to_shares_bounded ::
    "primitive_types \<Rightarrow> VaultState \<Rightarrow> VaultConfig \<Rightarrow> u128 \<Rightarrow> u128 \<Rightarrow> InvalidStateCode
      \<Rightarrow> (u128, KernelError) result" where
  "convert_to_shares_bounded P state config assets cap error =
     bounded_u128 (virtual_basis_quote P state config assets True False) cap error"

definition convert_to_assets :: "primitive_types \<Rightarrow> VaultState \<Rightarrow> VaultConfig \<Rightarrow> u128 \<Rightarrow> u128" where
  "convert_to_assets P state config shares =
     as_u128_trunc (virtual_basis_quote P state config shares False False)"

definition convert_to_assets_bounded ::
    "primitive_types \<Rightarrow> VaultState \<Rightarrow> VaultConfig \<Rightarrow> u128 \<Rightarrow> u128 \<Rightarrow> InvalidStateCode
      \<Rightarrow> (u128, KernelError) result" where
  "convert_to_assets_bounded P state config shares cap error =
     bounded_u128 (virtual_basis_quote P state config shares False False) cap error"

definition convert_to_redeem_assets ::
    "primitive_types \<Rightarrow> VaultState \<Rightarrow> VaultConfig \<Rightarrow> u128 \<Rightarrow> u128" where
  "convert_to_redeem_assets P state config shares =
     as_u128_saturating (dual_basis_quote P state config shares False False)"

definition convert_to_redeem_assets_bounded ::
    "primitive_types \<Rightarrow> VaultState \<Rightarrow> VaultConfig \<Rightarrow> u128 \<Rightarrow> u128 \<Rightarrow> InvalidStateCode
      \<Rightarrow> (u128, KernelError) result" where
  "convert_to_redeem_assets_bounded P state config shares cap error =
     bounded_u128 (dual_basis_quote P state config shares False False) cap error"

definition convert_to_shares_ceil ::
    "primitive_types \<Rightarrow> VaultState \<Rightarrow> VaultConfig \<Rightarrow> u128 \<Rightarrow> u128" where
  "convert_to_shares_ceil P state config assets =
     as_u128_trunc (virtual_basis_quote P state config assets True True)"

definition convert_to_shares_ceil_bounded ::
    "primitive_types \<Rightarrow> VaultState \<Rightarrow> VaultConfig \<Rightarrow> u128 \<Rightarrow> u128 \<Rightarrow> InvalidStateCode
      \<Rightarrow> (u128, KernelError) result" where
  "convert_to_shares_ceil_bounded P state config assets cap error =
     bounded_u128 (virtual_basis_quote P state config assets True True) cap error"

definition convert_to_withdraw_shares_ceil_bounded ::
    "primitive_types \<Rightarrow> VaultState \<Rightarrow> VaultConfig \<Rightarrow> u128 \<Rightarrow> u128 \<Rightarrow> InvalidStateCode
      \<Rightarrow> (u128, KernelError) result" where
  "convert_to_withdraw_shares_ceil_bounded P state config assets cap error =
     bounded_u128 (dual_basis_quote P state config assets True True) cap error"

definition convert_to_withdrawable_shares ::
    "primitive_types \<Rightarrow> VaultState \<Rightarrow> VaultConfig \<Rightarrow> u128 \<Rightarrow> u128" where
  "convert_to_withdrawable_shares P state config assets =
     as_u128_saturating (dual_basis_quote P state config assets True False)"

definition convert_to_assets_ceil ::
    "primitive_types \<Rightarrow> VaultState \<Rightarrow> VaultConfig \<Rightarrow> u128 \<Rightarrow> u128" where
  "convert_to_assets_ceil P state config shares =
     as_u128_trunc (virtual_basis_quote P state config shares False True)"

definition convert_to_assets_ceil_bounded ::
    "primitive_types \<Rightarrow> VaultState \<Rightarrow> VaultConfig \<Rightarrow> u128 \<Rightarrow> u128 \<Rightarrow> InvalidStateCode
      \<Rightarrow> (u128, KernelError) result" where
  "convert_to_assets_ceil_bounded P state config shares cap error =
     bounded_u128 (virtual_basis_quote P state config shares False True) cap error"

definition preview_deposit_shares ::
    "primitive_types \<Rightarrow> VaultState \<Rightarrow> VaultConfig \<Rightarrow> u128 \<Rightarrow> u128" where
  "preview_deposit_shares P state config assets = convert_to_shares P state config assets"

definition preview_withdraw_assets ::
    "primitive_types \<Rightarrow> VaultState \<Rightarrow> VaultConfig \<Rightarrow> u128 \<Rightarrow> u128" where
  "preview_withdraw_assets P state config shares = convert_to_redeem_assets P state config shares"

section \<open>Exactness\<close>

text \<open>The effective totals as natural numbers; they are never zero.\<close>

definition supply_of :: "VaultState \<Rightarrow> VaultConfig \<Rightarrow> nat" where
  "supply_of s c = unat (eff_supply (effective_totals s c))"

definition assets_of :: "VaultState \<Rightarrow> VaultConfig \<Rightarrow> nat" where
  "assets_of s c = unat (eff_assets (effective_totals s c))"

text \<open>The totals with their offsets fit into 128 bits, so that no offset is cut off.\<close>

definition totals_fit :: "VaultState \<Rightarrow> VaultConfig \<Rightarrow> bool" where
  "totals_fit s c \<longleftrightarrow>
     unat (total_shares s) + unat (max (virtual_shares c) 1) < 2 ^ 128 \<and>
     unat (total_assets s) + unat (max (virtual_assets c) 1) < 2 ^ 128"

lemma max_1_pos: "0 < unat (max (v :: u128) 1)"
  by (auto simp: max_def word_nat)

lemma effective_pos [simp]: "0 < supply_of s c" "0 < assets_of s c"
  using max_1_pos [of "virtual_shares c"] max_1_pos [of "virtual_assets c"]
  by (simp_all add: supply_of_def assets_of_def effective_totals_def unat_saturating_add)

lemma effective_exact:
  assumes "totals_fit s c"
  shows "supply_of s c = unat (total_shares s) + unat (max (virtual_shares c) 1)"
    and "assets_of s c = unat (total_assets s) + unat (max (virtual_assets c) 1)"
  using assms
  by (simp_all add: supply_of_def assets_of_def effective_totals_def unat_saturating_add totals_fit_def)

lemma bounded_u128_Ok:
  "bounded_u128 q cap e = Ok n \<longleftrightarrow> unat q \<le> unat cap \<and> unat n = unat q"
proof -
  have "unat q \<le> unat cap \<Longrightarrow> unat (as_u128_trunc q) = unat q"
    using u128_bound [of cap] by (simp add: as_u128_trunc_fits)
  then show ?thesis
    by (auto simp: bounded_u128_def word_less_nat_alt not_less word_eq_nat [where ?'a = 128])
qed

lemma bounded_u128_not_Panic [simp]: "bounded_u128 q cap e \<noteq> Panic"
  by (simp add: bounded_u128_def)

context primitive_types_spec
begin

lemma virtual_basis_quote_eq:
  "unat (virtual_basis_quote P s c amount to_shares up) =
     (if to_shares then quot (unat amount) (supply_of s c) (assets_of s c) up
      else quot (unat amount) (assets_of s c) (supply_of s c) up)"
  by (simp add: virtual_basis_quote_def Let_def mul_div_number_from supply_of_def assets_of_def)

lemma dual_basis_to_assets:
  "unat (dual_basis_quote P s c amount False up) =
     (if real_basis_active c (total_shares s)
      then min (quot (unat amount) (assets_of s c) (supply_of s c) up)
        (quot (unat amount) (unat (total_assets s)) (unat (total_shares s)) up)
      else quot (unat amount) (assets_of s c) (supply_of s c) up)"
  by (auto simp: dual_basis_quote_def Let_def virtual_basis_quote_eq mul_div_number_from min_def
    word_le_nat_alt)

lemma dual_basis_to_shares:
  "unat (dual_basis_quote P s c amount True up) =
     (if real_basis_active c (total_assets s)
      then max (quot (unat amount) (supply_of s c) (assets_of s c) up)
        (quot (unat amount) (unat (total_shares s)) (unat (total_assets s)) up)
      else quot (unat amount) (supply_of s c) (assets_of s c) up)"
  by (auto simp: dual_basis_quote_def Let_def virtual_basis_quote_eq mul_div_number_from max_def
    word_le_nat_alt)

text \<open>
  A mint for \<open>assets\<close> is paid in full, and an exit burns at least the proportion it takes: the cross
  products the price lemmas rest on.
\<close>

lemma mint_shares_le:
  assumes "convert_to_shares_bounded P s c assets cap e = Ok shares"
  shows "unat shares * assets_of s c \<le> unat assets * supply_of s c"
  using assms quot_floor_le [of "unat assets" "supply_of s c" "assets_of s c"]
  by (auto simp: convert_to_shares_bounded_def bounded_u128_Ok virtual_basis_quote_eq)

lemma withdraw_shares_ge:
  assumes "convert_to_withdraw_shares_ceil_bounded P s c assets cap e = Ok shares"
  shows "unat assets * supply_of s c \<le> unat shares * assets_of s c"
proof -
  have "quot (unat assets) (supply_of s c) (assets_of s c) True \<le> unat shares"
    using assms by (auto simp: convert_to_withdraw_shares_ceil_bounded_def bounded_u128_Ok
      dual_basis_to_shares split: if_splits)
  then show ?thesis by (simp add: quot_ceil_le)
qed

lemma redeem_assets_le:
  assumes "convert_to_redeem_assets_bounded P s c shares cap e = Ok assets"
  shows "unat assets * supply_of s c \<le> unat shares * assets_of s c"
proof -
  have "unat assets \<le> quot (unat shares) (assets_of s c) (supply_of s c) False"
    using assms by (auto simp: convert_to_redeem_assets_bounded_def bounded_u128_Ok
      dual_basis_to_assets split: if_splits)
  then show ?thesis by (simp add: le_quot_floor)
qed

text \<open>The same against the real totals, where the configuration has virtual assets.\<close>

lemma redeem_assets_le_real:
  assumes "convert_to_redeem_assets_bounded P s c shares cap e = Ok assets"
    and "virtual_assets c \<noteq> 0" and "total_shares s \<noteq> 0"
  shows "unat assets * unat (total_shares s) \<le> unat shares * unat (total_assets s)"
proof -
  have "unat assets \<le> quot (unat shares) (unat (total_assets s)) (unat (total_shares s)) False"
    using assms by (auto simp: convert_to_redeem_assets_bounded_def bounded_u128_Ok
      dual_basis_to_assets real_basis_active_def)
  with assms(3) show ?thesis by (simp add: le_quot_floor unat_gt_0)
qed

lemma withdraw_shares_ge_real:
  assumes "convert_to_withdraw_shares_ceil_bounded P s c assets cap e = Ok shares"
    and "virtual_assets c \<noteq> 0" and "total_assets s \<noteq> 0"
  shows "unat assets * unat (total_shares s) \<le> unat shares * unat (total_assets s)"
proof -
  have "quot (unat assets) (unat (total_shares s)) (unat (total_assets s)) True \<le> unat shares"
    using assms by (auto simp: convert_to_withdraw_shares_ceil_bounded_def bounded_u128_Ok
      dual_basis_to_shares real_basis_active_def)
  with assms(3) show ?thesis by (simp add: quot_ceil_le unat_gt_0)
qed

end

end
