(* ===== verification/Kernel_Actions.thy ===== *)
theory Kernel_Actions
  imports Kernel_Conversions
begin

text \<open>
  The action handlers and the dispatcher of the kernel
  (\<^verbatim>\<open>src/contract/vault/kernel/src/actions/mod.rs\<close>, but for its conversions, which are in
  \<open>Kernel_Conversions\<close>).

  \<^item> A handler takes the state by value and returns the new state with the effects to execute. An
    error drops the state, so the caller keeps the one it had.
  \<^item> A vector that the source fills through a mutable reference is a list argument returned
    extended.
  \<^item> The Cargo features that compile an action in or out are the fields of \<open>features\<close>.
  \<^item> \<open>next_withdrawal_queue_outcome\<close> is the loop of the source. It terminates on every state: each
    round that continues has removed an entry of the queue.
\<close>

record features =
  action_recovery :: bool
  action_sync_external :: bool
  action_refresh_fees :: bool
  action_allocation_lifecycle :: bool
  action_refresh_lifecycle :: bool
  action_pause :: bool

section \<open>Types\<close>

record KernelResult =
  kr_state :: VaultState
  kr_effects :: "KernelEffect list"

type_synonym KernelRes = "(KernelResult, KernelError) result"

datatype PayoutOutcome = Success | Failure

record IdlePayoutPlan =
  ip_op_id :: u64
  ip_request_id :: u64
  ip_owner :: Address
  ip_receiver :: Address
  ip_assets_out :: u128
  ip_burn_shares :: u128

datatype WithdrawalQueueOutcome =
    OutcomeNone
  | OutcomeCoolingDown TimestampNs
  | OutcomeInsufficientLiquidity
  | OutcomeReady WithdrawalRequest

record PendingWithdrawalHead =
  head_id :: u64
  head_owner :: Address
  head_receiver :: Address
  head_escrow_shares :: u128
  head_expected_assets :: u128
  head_requested_at_ns :: TimestampNs

datatype WithdrawalHeadOutcome =
    HeadSkip WithdrawalSkipReason
  | HeadCoolingDown TimestampNs
  | HeadInsufficientLiquidity
  | HeadReady

record PayoutSettlement =
  ps_burn_shares :: u128
  ps_refund_shares :: u128
  ps_completed_amount :: u128
  ps_success :: bool

record EmergencyResetOutcome =
  reset_state :: VaultState
  reset_op_id :: u64
  reset_from_code :: u32
  reset_refund_owner :: "Address option"
  reset_refund_shares :: u128

record WithdrawalRequestPlan =
  wr_owner :: Address
  wr_receiver :: Address
  wr_shares :: u128
  wr_expected_assets :: u128

record ExternalAssetSyncPlan =
  sync_new_external_assets :: u128
  sync_new_total_assets :: u128

text \<open>The fields of each action are in the order of the source.\<close>

datatype KernelAction =
    BeginAllocating u64 "AllocationPlanEntry list" TimestampNs
  | Deposit Address Address u128 u128 TimestampNs
  | AtomicWithdraw Address Address Address u128 u128 TimestampNs
  | AtomicRedeem Address Address Address u128 u128 TimestampNs
  | RequestWithdraw Address Address u128 u128 TimestampNs
  | ExecuteWithdraw TimestampNs
  | BeginRefreshing u64 "TargetId list" TimestampNs
  | FinishAllocating u64 TimestampNs
  | SyncExternalAssets u128 u64 TimestampNs
  | RebalanceWithdraw u64 u128 TimestampNs
  | FinishRefreshing u64 TimestampNs
  | AbortRefreshing u64
  | SettlePayout u64 PayoutOutcome
  | AbortAllocating u64
  | AbortWithdrawing u64
  | RefreshFees TimestampNs
  | Pause bool
  | EmergencyReset

fun action_op_id :: "KernelAction \<Rightarrow> u64 option" where
  "action_op_id (BeginAllocating op plan now_ns) = Some op"
| "action_op_id (BeginRefreshing op rplan now_ns) = Some op"
| "action_op_id (FinishAllocating op now_ns) = Some op"
| "action_op_id (SyncExternalAssets new_external op now_ns) = Some op"
| "action_op_id (RebalanceWithdraw op amount now_ns) = Some op"
| "action_op_id (FinishRefreshing op now_ns) = Some op"
| "action_op_id (AbortRefreshing op) = Some op"
| "action_op_id (SettlePayout op outcome) = Some op"
| "action_op_id (AbortAllocating op) = Some op"
| "action_op_id (AbortWithdrawing op) = Some op"
| "action_op_id _ = None"

fun action_timestamp_ns :: "KernelAction \<Rightarrow> TimestampNs option" where
  "action_timestamp_ns (BeginAllocating op plan now_ns) = Some now_ns"
| "action_timestamp_ns (Deposit own recv assets_in min_shares now_ns) = Some now_ns"
| "action_timestamp_ns (AtomicWithdraw own recv operator amount_out max_shares now_ns) = Some now_ns"
| "action_timestamp_ns (AtomicRedeem own recv operator shares min_assets now_ns) = Some now_ns"
| "action_timestamp_ns (RequestWithdraw own recv shares min_assets now_ns) = Some now_ns"
| "action_timestamp_ns (ExecuteWithdraw now_ns) = Some now_ns"
| "action_timestamp_ns (BeginRefreshing op rplan now_ns) = Some now_ns"
| "action_timestamp_ns (FinishAllocating op now_ns) = Some now_ns"
| "action_timestamp_ns (SyncExternalAssets new_external op now_ns) = Some now_ns"
| "action_timestamp_ns (RebalanceWithdraw op amount now_ns) = Some now_ns"
| "action_timestamp_ns (FinishRefreshing op now_ns) = Some now_ns"
| "action_timestamp_ns (RefreshFees now_ns) = Some now_ns"
| "action_timestamp_ns _ = None"

section \<open>Helpers\<close>

definition require_active_op_id ::
    "OpState \<Rightarrow> u64 \<Rightarrow> InvalidStateCode \<Rightarrow> (unit, KernelError) result" where
  "require_active_op_id ops provided error_code =
     (case op_id ops of
        None \<Rightarrow> Err (InvalidState error_code)
      | Some active \<Rightarrow>
          if active \<noteq> provided then Err (OpIdMismatch active provided) else Ok ())"

definition check_op_id :: "u64 \<Rightarrow> u64 \<Rightarrow> (unit, KernelError) result" where
  "check_op_id expected actual = (if expected \<noteq> actual then Err (OpIdMismatch expected actual) else Ok ())"

definition validate_queue_head ::
    "WithdrawQueue \<Rightarrow> u64 \<Rightarrow> Address \<Rightarrow> Address \<Rightarrow> u128 \<Rightarrow> (unit, KernelError) result" where
  "validate_queue_head queue request_id owner_id receiver_id escrow =
     (case queue_head queue of
        None \<Rightarrow> Err NoPendingWithdrawals
      | Some (hid, pending) \<Rightarrow>
          if hid \<noteq> request_id \<or> owner pending \<noteq> owner_id \<or> receiver pending \<noteq> receiver_id \<or>
            escrow_shares pending \<noteq> escrow
          then Err (InvalidState WithdrawalQueueHeadMismatch)
          else Ok ())"

definition push_refund_shares ::
    "KernelEffect list \<Rightarrow> Address \<Rightarrow> Address \<Rightarrow> u128 \<Rightarrow> KernelEffect list" where
  "push_refund_shares effects escrow owner_id shares =
     effects @ (if 0 < shares then [TransferShares escrow owner_id shares] else [])"

definition map_transition_result ::
    "('a, TransitionError) result \<Rightarrow> ('a, KernelError) result" where
  "map_transition_result r = map_err Transition r"

definition apply_transition_result :: "VaultState \<Rightarrow> TransitionRes \<Rightarrow> KernelRes" where
  "apply_transition_result state r =
     and_then (map_transition_result r) (\<lambda>result.
       Ok \<lparr>kr_state = state\<lparr>op_state := tr_state result\<rparr>, kr_effects = tr_effects result\<rparr>)"

fun map_queue_error :: "QueueError \<Rightarrow> KernelError" where
  "map_queue_error (QueueErrorFull current max_len) = QueueFull current max_len"
| "map_queue_error CacheOverflow = InvalidState WithdrawalQueueCacheOverflow"
| "map_queue_error (WithdrawalNotFound i) = InvalidState WithdrawalQueueMissingEntry"
| "map_queue_error QueueErrorEmpty = InvalidState UnexpectedEmptyQueue"
| "map_queue_error (InvariantViolation msg) = InvalidState WithdrawalQueueInvariantViolation"

definition enforce_restrictions ::
    "VaultConfig \<Rightarrow> RestrictionMode option \<Rightarrow> Address \<Rightarrow> Address \<Rightarrow> (unit, KernelError) result" where
  "enforce_restrictions config restrictions self_id actor =
     (if paused config then Err (Restricted Paused)
      else
        (case restrictions of
           None \<Rightarrow> Ok ()
         | Some r \<Rightarrow>
             (case is_restricted r actor of
                Some kind \<Rightarrow> Err (Restricted kind)
              | None \<Rightarrow> Ok ())))"

definition is_globally_paused :: "VaultConfig \<Rightarrow> RestrictionMode option \<Rightarrow> bool" where
  "is_globally_paused config restrictions = paused config"

definition enforce_withdrawal_actors ::
    "VaultConfig \<Rightarrow> RestrictionMode option \<Rightarrow> Address \<Rightarrow> Address \<Rightarrow> Address
      \<Rightarrow> (unit, KernelError) result" where
  "enforce_withdrawal_actors config restrictions self_id owner_id receiver_id =
     and_then (enforce_restrictions config restrictions self_id owner_id) (\<lambda>_.
       enforce_restrictions config restrictions self_id receiver_id)"

definition require_idle_with_nonzero_amount ::
    "VaultState \<Rightarrow> InvalidStateCode \<Rightarrow> u128 \<Rightarrow> (unit, KernelError) result" where
  "require_idle_with_nonzero_amount state idle_error amount =
     (if \<not> is_idle state then Err (InvalidState idle_error)
      else if amount = 0 then Err ZeroAmount
      else Ok ())"

section \<open>Fees\<close>

definition performance_fee_is_due :: "VaultState \<Rightarrow> VaultConfig \<Rightarrow> bool" where
  "performance_fee_is_due state config \<longleftrightarrow>
     0 < total_shares state \<and>
     fee_wad (performance (fees config)) \<noteq> 0 \<and>
     max_total_assets_growth_rate (fees config) = None \<and>
     anchor_total_assets (fee_anchor state) < total_assets state"

definition should_refresh_fees_for_value_transfer ::
    "VaultState \<Rightarrow> VaultConfig \<Rightarrow> TimestampNs \<Rightarrow> bool" where
  "should_refresh_fees_for_value_transfer state config now_ns =
     (if total_shares state = 0 \<or> \<not> has_active_slot_fees (fees config) then False
      else if anchor_timestamp_ns (fee_anchor state) < now_ns then True
      else now_ns = anchor_timestamp_ns (fee_anchor state) \<and> performance_fee_is_due state config)"

record FeeAccrualOutcome =
  management_shares :: u128
  performance_shares :: u128
  new_total_shares :: u128
  new_anchor :: FeeAccrualAnchor

datatype FeeAccrualOverflow = FeeAccrualOverflow

definition compute_fee_accrual ::
    "primitive_types \<Rightarrow> u128 \<Rightarrow> u128 \<Rightarrow> FeeAccrualAnchor \<Rightarrow> FeesSpec \<Rightarrow> TimestampNs
      \<Rightarrow> (FeeAccrualOutcome, FeeAccrualOverflow) result" where
  "compute_fee_accrual P current_assets shares anchor spec now_ns =
     (let anchor' = \<lparr>anchor_total_assets = current_assets, anchor_timestamp_ns = now_ns\<rparr> in
      if \<not> has_active_slot_fees spec then
        Ok \<lparr>management_shares = 0, performance_shares = 0, new_total_shares = shares,
          new_anchor = anchor'\<rparr>
      else
        let fee_assets_base = total_assets_for_fee_accrual P current_assets
              (anchor_total_assets anchor) (anchor_timestamp_ns anchor) now_ns
              (max_total_assets_growth_rate spec);
            management_number = compute_management_fee_shares P fee_assets_base current_assets
              shares (fee_wad (management spec)) (anchor_timestamp_ns anchor) now_ns;
            headroom = saturating_sub max_value shares
        in
        if number_from headroom < management_number then Err FeeAccrualOverflow
        else
          let management_minted = as_u128_trunc management_number in
          and_then (ok_or (checked_add shares management_minted) FeeAccrualOverflow)
            (\<lambda>supply_after_management.
          let profit = saturating_sub fee_assets_base (anchor_total_assets anchor);
              performance_fee_assets =
                apply_floored P (fee_wad (performance spec)) (number_from profit);
              performance_number = compute_fee_shares_from_assets P performance_fee_assets
                (number_from current_assets) (number_from supply_after_management);
              headroom' = saturating_sub max_value supply_after_management
          in
          if number_from headroom' < performance_number then Err FeeAccrualOverflow
          else
            let performance_minted = as_u128_trunc performance_number in
            and_then (ok_or (checked_add supply_after_management performance_minted)
                FeeAccrualOverflow)
              (\<lambda>supply_after_performance.
            Ok \<lparr>management_shares = management_minted, performance_shares = performance_minted,
              new_total_shares = supply_after_performance, new_anchor = anchor'\<rparr>)))"

definition handle_refresh_fees ::
    "primitive_types \<Rightarrow> VaultState \<Rightarrow> VaultConfig \<Rightarrow> TimestampNs \<Rightarrow> KernelRes" where
  "handle_refresh_fees P state config now_ns =
     (if \<not> is_idle state then Err (InvalidState RefreshFeesRequiresIdle)
      else if now_ns < anchor_timestamp_ns (fee_anchor state) then
        Err (InvalidState FeeRefreshTimestampMustAdvance)
      else
        let cur_total_assets = total_assets state;
            anchor = fee_anchor state
        in
        if now_ns = anchor_timestamp_ns anchor \<and> \<not> performance_fee_is_due state config then
          Err (InvalidState FeeRefreshTimestampMustAdvance)
        else if 0 < total_shares state \<and> is_uninitialized anchor \<and> cur_total_assets = 0 then
          Ok \<lparr>kr_state = state\<lparr>fee_anchor := \<lparr>anchor_total_assets = cur_total_assets,
                anchor_timestamp_ns = now_ns\<rparr>\<rparr>,
              kr_effects = [EmitEvent (FeesRefreshed now_ns cur_total_assets)]\<rparr>
        else
          and_then (map_err (\<lambda>_. InvalidState FeeMintOverflowTotalSupply)
              (compute_fee_accrual P cur_total_assets (total_shares state) anchor (fees config) now_ns))
            (\<lambda>accrual.
          Ok \<lparr>kr_state = state\<lparr>total_shares := new_total_shares accrual,
                fee_anchor := new_anchor accrual\<rparr>,
              kr_effects =
                (if 0 < management_shares accrual
                 then [MintShares (fee_recipient (management (fees config)))
                   (management_shares accrual)] else []) @
                (if 0 < performance_shares accrual
                 then [MintShares (fee_recipient (performance (fees config)))
                   (performance_shares accrual)] else []) @
                [EmitEvent (FeesRefreshed now_ns cur_total_assets)]\<rparr>))"

definition refresh_fees_before_value_transfer ::
    "features \<Rightarrow> primitive_types \<Rightarrow> VaultState \<Rightarrow> VaultConfig \<Rightarrow> TimestampNs
      \<Rightarrow> (VaultState \<times> KernelEffect list, KernelError) result" where
  "refresh_fees_before_value_transfer F P state config now_ns =
     (if should_refresh_fees_for_value_transfer state config now_ns then
        (if action_refresh_fees F then
           and_then (handle_refresh_fees P state config now_ns) (\<lambda>result.
             Ok (kr_state result, kr_effects result))
         else Err NotImplemented)
      else Ok (state, []))"

section \<open>Deposits and atomic exits\<close>

definition handle_deposit ::
    "features \<Rightarrow> primitive_types \<Rightarrow> VaultState \<Rightarrow> VaultConfig \<Rightarrow> RestrictionMode option \<Rightarrow> Address
      \<Rightarrow> Address \<Rightarrow> Address \<Rightarrow> u128 \<Rightarrow> u128 \<Rightarrow> TimestampNs \<Rightarrow> KernelRes" where
  "handle_deposit F P state0 config restrictions self_id owner_id receiver_id assets_in
     min_shares_out now_ns =
     and_then (enforce_restrictions config restrictions self_id owner_id) (\<lambda>_.
     and_then (enforce_restrictions config restrictions self_id receiver_id) (\<lambda>_.
     if \<not> is_idle state0 then Err (InvalidState DepositRequiresIdle)
     else if assets_in = 0 then Err ZeroAmount
     else
       and_then
         (if action_refresh_fees F \<and> should_refresh_fees_for_value_transfer state0 config now_ns
          then and_then (handle_refresh_fees P state0 config now_ns) (\<lambda>refresh.
            Ok (kr_state refresh, kr_effects refresh))
          else Ok (state0, [])) (\<lambda>(state, effects).
       and_then (convert_to_shares_bounded P state config assets_in
           (saturating_sub max_value (total_shares state)) MintOverflowTotalShares) (\<lambda>shares_out.
       if shares_out = 0 then Err ZeroAmount
       else if shares_out < min_shares_out then Err (Slippage min_shares_out shares_out)
       else
         and_then (ok_or (checked_add (total_assets state) assets_in)
             (InvalidState DepositOverflowTotalAssets)) (\<lambda>new_total.
         and_then (ok_or (checked_add (idle_assets state) assets_in)
             (InvalidState DepositOverflowIdleAssets)) (\<lambda>new_idle.
         and_then (ok_or (checked_add (total_shares state) shares_out)
             (InvalidState MintOverflowTotalShares)) (\<lambda>new_shares.
         Ok \<lparr>kr_state = state\<lparr>total_assets := new_total, idle_assets := new_idle,
               total_shares := new_shares,
               fee_anchor := \<lparr>anchor_total_assets = new_total, anchor_timestamp_ns = now_ns\<rparr>\<rparr>,
             kr_effects = effects @
               [TransferAssetsFrom owner_id self_id assets_in,
                MintShares receiver_id shares_out,
                EmitEvent (DepositProcessed owner_id receiver_id assets_in shares_out)]\<rparr>)))))))"

definition push_atomic_burn_shares ::
    "KernelEffect list \<Rightarrow> Address \<Rightarrow> Address \<Rightarrow> u128 \<Rightarrow> KernelEffect list" where
  "push_atomic_burn_shares effects owner_id operator shares =
     effects @ [if operator = owner_id then BurnShares owner_id shares
       else BurnSharesFrom operator owner_id shares]"

definition handle_atomic_withdraw ::
    "features \<Rightarrow> primitive_types \<Rightarrow> VaultState \<Rightarrow> VaultConfig \<Rightarrow> RestrictionMode option \<Rightarrow> Address
      \<Rightarrow> Address \<Rightarrow> Address \<Rightarrow> Address \<Rightarrow> u128 \<Rightarrow> u128 \<Rightarrow> TimestampNs \<Rightarrow> KernelRes" where
  "handle_atomic_withdraw F P state0 config restrictions self_id owner_id receiver_id operator
     amount_out max_shares_burned now_ns =
     and_then (enforce_withdrawal_actors config restrictions self_id owner_id receiver_id) (\<lambda>_.
     and_then (require_idle_with_nonzero_amount state0 AtomicWithdrawRequiresIdle amount_out) (\<lambda>_.
     and_then (refresh_fees_before_value_transfer F P state0 config now_ns) (\<lambda>(state, effects).
     and_then (convert_to_withdraw_shares_ceil_bounded P state config amount_out
         (total_shares state) AtomicWithdrawBurnExceedsTotalShares) (\<lambda>shares.
     if shares = 0 then Err ZeroAmount
     else if max_shares_burned < shares then Err (Slippage max_shares_burned shares)
     else if idle_assets state < amount_out then Err (InvalidState AtomicWithdrawExceedsIdleAssets)
     else
       and_then (ok_or (checked_sub (total_shares state) shares)
           (InvalidState AtomicWithdrawBurnExceedsTotalShares)) (\<lambda>new_shares.
       and_then (ok_or (checked_sub (idle_assets state) amount_out)
           (InvalidState AtomicWithdrawExceedsIdleAssets)) (\<lambda>new_idle.
       and_then (ok_or (checked_sub (total_assets state) amount_out)
           (InvalidState AtomicWithdrawTotalAssetsUnderflow)) (\<lambda>new_total.
       Ok \<lparr>kr_state = state\<lparr>total_shares := new_shares, idle_assets := new_idle,
             total_assets := new_total\<rparr>,
           kr_effects = push_atomic_burn_shares effects owner_id operator shares @
             [TransferAssets receiver_id amount_out,
              EmitEvent (AtomicWithdrawProcessed owner_id receiver_id shares amount_out)]\<rparr>)))))))"

definition handle_atomic_redeem ::
    "features \<Rightarrow> primitive_types \<Rightarrow> VaultState \<Rightarrow> VaultConfig \<Rightarrow> RestrictionMode option \<Rightarrow> Address
      \<Rightarrow> Address \<Rightarrow> Address \<Rightarrow> Address \<Rightarrow> u128 \<Rightarrow> u128 \<Rightarrow> TimestampNs \<Rightarrow> KernelRes" where
  "handle_atomic_redeem F P state0 config restrictions self_id owner_id receiver_id operator
     shares min_assets_out now_ns =
     and_then (enforce_withdrawal_actors config restrictions self_id owner_id receiver_id) (\<lambda>_.
     and_then (require_idle_with_nonzero_amount state0 AtomicWithdrawRequiresIdle shares) (\<lambda>_.
     and_then (refresh_fees_before_value_transfer F P state0 config now_ns) (\<lambda>(state, effects).
     and_then (convert_to_redeem_assets_bounded P state config shares (idle_assets state)
         AtomicWithdrawExceedsIdleAssets) (\<lambda>amount_out.
     if amount_out = 0 then Err ZeroAmount
     else if amount_out < min_assets_out then Err (Slippage min_assets_out amount_out)
     else if idle_assets state < amount_out then Err (InvalidState AtomicWithdrawExceedsIdleAssets)
     else
       and_then (ok_or (checked_sub (total_shares state) shares)
           (InvalidState AtomicWithdrawBurnExceedsTotalShares)) (\<lambda>new_shares.
       and_then (ok_or (checked_sub (idle_assets state) amount_out)
           (InvalidState AtomicWithdrawExceedsIdleAssets)) (\<lambda>new_idle.
       and_then (ok_or (checked_sub (total_assets state) amount_out)
           (InvalidState AtomicWithdrawTotalAssetsUnderflow)) (\<lambda>new_total.
       Ok \<lparr>kr_state = state\<lparr>total_shares := new_shares, idle_assets := new_idle,
             total_assets := new_total\<rparr>,
           kr_effects = push_atomic_burn_shares effects owner_id operator shares @
             [TransferAssets receiver_id amount_out,
              EmitEvent (AtomicWithdrawProcessed owner_id receiver_id shares amount_out)]\<rparr>)))))))"

section \<open>Requests\<close>

definition plan_withdrawal_request ::
    "primitive_types \<Rightarrow> VaultState \<Rightarrow> VaultConfig \<Rightarrow> Address \<Rightarrow> Address \<Rightarrow> u128 \<Rightarrow> u128
      \<Rightarrow> (WithdrawalRequestPlan, KernelError) result" where
  "plan_withdrawal_request P state config owner_id receiver_id shares min_assets_out =
     and_then (convert_to_redeem_assets_bounded P state config shares (total_assets state)
         RequestWithdrawExpectedAssetsExceedTotalAssets) (\<lambda>expected.
     if expected < min_assets_out then Err (Slippage min_assets_out expected)
     else if expected < min_withdrawal_assets config then
       Err (MinWithdrawal expected (min_withdrawal_assets config))
     else Ok \<lparr>wr_owner = owner_id, wr_receiver = receiver_id, wr_shares = shares,
       wr_expected_assets = expected\<rparr>)"

definition apply_withdrawal_request_plan ::
    "VaultState \<Rightarrow> VaultConfig \<Rightarrow> Address \<Rightarrow> WithdrawalRequestPlan \<Rightarrow> TimestampNs \<Rightarrow> KernelRes" where
  "apply_withdrawal_request_plan state config self_id plan now_ns =
     and_then (map_err map_queue_error (enqueue (withdraw_queue state) (wr_owner plan)
         (wr_receiver plan) (wr_shares plan) (wr_expected_assets plan) now_ns
         (max_pending_withdrawals config))) (\<lambda>(i, queue).
     Ok \<lparr>kr_state = state\<lparr>withdraw_queue := queue\<rparr>,
         kr_effects =
           [TransferShares (wr_owner plan) self_id (wr_shares plan),
            EmitEvent (WithdrawalRequested i (wr_owner plan) (wr_receiver plan) (wr_shares plan)
              (wr_expected_assets plan))]\<rparr>)"

definition handle_request_withdraw ::
    "features \<Rightarrow> primitive_types \<Rightarrow> VaultState \<Rightarrow> VaultConfig \<Rightarrow> RestrictionMode option \<Rightarrow> Address
      \<Rightarrow> Address \<Rightarrow> Address \<Rightarrow> u128 \<Rightarrow> u128 \<Rightarrow> TimestampNs \<Rightarrow> KernelRes" where
  "handle_request_withdraw F P state0 config restrictions self_id owner_id receiver_id shares
     min_assets_out now_ns =
     (if \<not> is_max_pending_valid config then Err (InvalidConfig MaxPendingWithdrawalsExceedsLimit)
      else
        and_then (enforce_withdrawal_actors config restrictions self_id owner_id receiver_id) (\<lambda>_.
        and_then (require_idle_with_nonzero_amount state0 RequestWithdrawRequiresIdle shares) (\<lambda>_.
        and_then (refresh_fees_before_value_transfer F P state0 config now_ns) (\<lambda>(state, effects).
        and_then (plan_withdrawal_request P state config owner_id receiver_id shares min_assets_out)
          (\<lambda>plan.
        and_then (apply_withdrawal_request_plan state config self_id plan now_ns) (\<lambda>result.
        Ok (result\<lparr>kr_effects := effects @ kr_effects result\<rparr>)))))))"

section \<open>Execution of the queue\<close>

definition restricted_withdraw_actor ::
    "RestrictionMode option \<Rightarrow> Address \<Rightarrow> Address \<Rightarrow> Address \<Rightarrow> RestrictionKind option" where
  "restricted_withdraw_actor restrictions self_id owner_id receiver_id =
     (case Option.bind restrictions (\<lambda>r. is_restricted r owner_id) of
        Some kind \<Rightarrow> Some kind
      | None \<Rightarrow>
          Option.bind restrictions (\<lambda>r. is_restricted_allowing_self r receiver_id self_id))"

definition pending_withdrawal_skip_reason ::
    "RestrictionMode option \<Rightarrow> Address \<Rightarrow> Address \<Rightarrow> Address \<Rightarrow> u128
      \<Rightarrow> WithdrawalSkipReason option" where
  "pending_withdrawal_skip_reason restrictions self_id owner_id receiver_id expected =
     (if restricted_withdraw_actor restrictions self_id owner_id receiver_id \<noteq> None
      then Some SkipRestricted
      else if expected = 0 then Some ZeroExpectedAssets
      else None)"

definition dequeue_skipped_withdrawal ::
    "VaultState \<Rightarrow> Address \<Rightarrow> KernelEffect list \<Rightarrow> WithdrawalSkipReason
      \<Rightarrow> (VaultState \<times> KernelEffect list, KernelError) result" where
  "dequeue_skipped_withdrawal state self_id skipped_effects reason =
     and_then (dequeue (withdraw_queue state)) (\<lambda>(popped, queue).
     and_then (ok_or popped NoPendingWithdrawals) (\<lambda>(pending_id, pending).
     Ok (state\<lparr>withdraw_queue := queue\<rparr>,
       push_refund_shares skipped_effects self_id (owner pending) (escrow_shares pending) @
         [EmitEvent (WithdrawalSkipped pending_id (owner pending) (receiver pending)
           (escrow_shares pending) (expected_assets pending) reason)])))"

definition pending_withdrawal_head :: "VaultState \<Rightarrow> PendingWithdrawalHead option" where
  "pending_withdrawal_head state =
     map_option (\<lambda>(i, pending).
       \<lparr>head_id = i, head_owner = owner pending, head_receiver = receiver pending,
        head_escrow_shares = escrow_shares pending, head_expected_assets = expected_assets pending,
        head_requested_at_ns = requested_at_ns pending\<rparr>)
       (queue_head (withdraw_queue state))"

definition has_actionable_withdrawal_liquidity :: "u128 \<Rightarrow> u128 \<Rightarrow> bool" where
  "has_actionable_withdrawal_liquidity expected available \<longleftrightarrow> expected \<le> available"

definition classify_withdrawal_head ::
    "PendingWithdrawalHead \<Rightarrow> VaultConfig \<Rightarrow> RestrictionMode option \<Rightarrow> Address \<Rightarrow> TimestampNs \<Rightarrow> u128
      \<Rightarrow> WithdrawalHeadOutcome" where
  "classify_withdrawal_head head config restrictions self_id now_ns available =
     (case pending_withdrawal_skip_reason restrictions self_id (head_owner head) (head_receiver head)
        (head_expected_assets head) of
        Some reason \<Rightarrow> HeadSkip reason
      | None \<Rightarrow>
          if \<not> is_past_cooldown (head_requested_at_ns head) now_ns (withdrawal_cooldown_ns config)
          then HeadCoolingDown (head_requested_at_ns head)
          else if \<not> has_actionable_withdrawal_liquidity (head_expected_assets head) available
          then HeadInsufficientLiquidity
          else HeadReady)"

definition withdrawal_request_from_head ::
    "VaultState \<Rightarrow> PendingWithdrawalHead \<Rightarrow> (WithdrawalRequest \<times> VaultState, 'e) result" where
  "withdrawal_request_from_head state head =
     and_then (allocate_op_id state) (\<lambda>(op, state').
       Ok (\<lparr>req_op_id = op, req_request_id = head_id head, req_amount = head_expected_assets head,
          req_receiver = head_receiver head, req_owner = head_owner head,
          req_escrow_shares = head_escrow_shares head\<rparr>, state'))"

text \<open>
  A round of the loop that goes on has shortened the queue: whatever the order of the entries, the
  search stays inside the vector.
\<close>

lemma search_loop_inside: "1 \<le> n \<Longrightarrow> search_loop f xs base n < base + n"
proof (induction n arbitrary: base rule: less_induct)
  case (less n)
  show ?case
  proof (cases "n \<le> 1")
    case True
    with less.prems show ?thesis by (subst search_loop.simps) simp
  next
    case False
    define base' where "base' = (if f (xs ! (base + n div 2)) = Greater then base else base + n div 2)"
    have "search_loop f xs base n = search_loop f xs base' (n - n div 2)"
      using False by (subst search_loop.simps) (simp add: Let_def base'_def)
    also have "\<dots> < base' + (n - n div 2)"
      using False by (intro less.IH) simp_all
    also have "\<dots> \<le> base + n" using False by (auto simp: base'_def)
    finally show ?thesis .
  qed
qed

lemma locate_inside: "locate entries i = Ok index \<Longrightarrow> index < length entries"
  using search_loop_inside [of "length entries" _ entries 0]
  by (auto simp: locate_def binary_search_by_def Let_def Suc_le_eq split: if_splits Ordering.splits)

lemma pw_remove_shorter: "pw_remove entries i = (Some w, rest) \<Longrightarrow> length rest < length entries"
  by (auto simp: pw_remove_def dest: locate_inside split: result.splits)

lemma dequeue_shorter: "dequeue q = Ok (Some e, q') \<Longrightarrow> queue_len q' < queue_len q"
  by (auto simp: dequeue_def Let_def queue_len_def dest: pw_remove_shorter
    split: if_splits prod.splits option.splits)

function next_withdrawal_queue_outcome ::
    "VaultState \<Rightarrow> VaultConfig \<Rightarrow> RestrictionMode option \<Rightarrow> Address \<Rightarrow> TimestampNs \<Rightarrow> KernelEffect list
      \<Rightarrow> (WithdrawalQueueOutcome \<times> VaultState \<times> KernelEffect list, KernelError) result" where
  "next_withdrawal_queue_outcome state config restrictions self_id now_ns skipped_effects =
     (case pending_withdrawal_head state of
        None \<Rightarrow> Ok (OutcomeNone, state, skipped_effects)
      | Some head \<Rightarrow>
          (case classify_withdrawal_head head config restrictions self_id now_ns (idle_assets state) of
             HeadSkip reason \<Rightarrow>
               and_then (dequeue_skipped_withdrawal state self_id skipped_effects reason)
                 (\<lambda>(state', skipped_effects').
                   next_withdrawal_queue_outcome state' config restrictions self_id now_ns
                     skipped_effects')
           | HeadCoolingDown requested_at \<Rightarrow>
               Ok (OutcomeCoolingDown requested_at, state, skipped_effects)
           | HeadInsufficientLiquidity \<Rightarrow>
               Ok (OutcomeInsufficientLiquidity, state, skipped_effects)
           | HeadReady \<Rightarrow>
               and_then (withdrawal_request_from_head state head) (\<lambda>(request, state').
                 Ok (OutcomeReady request, state', skipped_effects))))"
  by pat_completeness auto
termination
  by (relation "measure (\<lambda>(state, _). queue_len (withdraw_queue state))")
    (auto simp: dequeue_skipped_withdrawal_def dest: dequeue_shorter)

declare next_withdrawal_queue_outcome.simps [simp del]

definition handle_execute_withdraw ::
    "VaultState \<Rightarrow> VaultConfig \<Rightarrow> RestrictionMode option \<Rightarrow> Address \<Rightarrow> TimestampNs \<Rightarrow> KernelRes" where
  "handle_execute_withdraw state0 config restrictions self_id now_ns =
     (if \<not> is_idle_op (op_state state0) then
        Err (InvalidState (if as_withdrawing (op_state state0) \<noteq> None
          then ExecuteWithdrawRequiresIdleUseCallbacks else ExecuteWithdrawRequiresIdle))
      else if is_globally_paused config restrictions then Err (Restricted Paused)
      else
        and_then (next_withdrawal_queue_outcome state0 config restrictions self_id now_ns [])
          (\<lambda>(outcome, state, skipped_effects).
        (case outcome of
           OutcomeNone \<Rightarrow>
             if skipped_effects = [] then Err NoPendingWithdrawals
             else Ok \<lparr>kr_state = state, kr_effects = skipped_effects\<rparr>
         | OutcomeCoolingDown requested_at \<Rightarrow>
             if skipped_effects = [] then
               Err (Cooldown requested_at now_ns (withdrawal_cooldown_ns config))
             else Ok \<lparr>kr_state = state, kr_effects = skipped_effects\<rparr>
         | OutcomeInsufficientLiquidity \<Rightarrow>
             if skipped_effects = [] then Err (InvalidState WithdrawalLiquidityBelowMinimum)
             else Ok \<lparr>kr_state = state, kr_effects = skipped_effects\<rparr>
         | OutcomeReady request \<Rightarrow>
             and_then (apply_transition_result state (start_withdrawal (op_state state) request))
               (\<lambda>result. Ok (result\<lparr>kr_effects := skipped_effects @ kr_effects result\<rparr>)))))"

definition plan_idle_payout ::
    "primitive_types \<Rightarrow> VaultState \<Rightarrow> u128 \<Rightarrow> (IdlePayoutPlan, KernelError) result" where
  "plan_idle_payout P state min_assets =
     and_then (ok_or (queue_head (withdraw_queue state)) (InvalidState UnexpectedEmptyQueue))
       (\<lambda>(i, request).
     (case op_state state of
        Withdrawing withdrawing \<Rightarrow>
          if owner request \<noteq> wd_owner withdrawing \<or> receiver request \<noteq> wd_receiver withdrawing \<or>
            escrow_shares request \<noteq> wd_escrow_shares withdrawing
          then Err (InvalidState WithdrawalQueueHeadMismatch)
          else if \<not> has_actionable_withdrawal_liquidity (expected_assets request) (idle_assets state)
          then Err (InvalidState WithdrawalLiquidityBelowMinimum)
          else
            (case compute_idle_settlement P (escrow_shares request) (expected_assets request)
               (idle_assets state) of
               None \<Rightarrow> Err (InvalidState WithdrawalLiquidityBelowMinimum)
             | Some s \<Rightarrow>
                 if assets_out s = 0 then Err (InvalidState WithdrawalLiquidityBelowMinimum)
                 else Ok \<lparr>ip_op_id = wd_op_id withdrawing,
                   ip_request_id = wd_request_id withdrawing, ip_owner = wd_owner withdrawing,
                   ip_receiver = wd_receiver withdrawing, ip_assets_out = assets_out s,
                   ip_burn_shares = to_burn (settlement s)\<rparr>)
      | _ \<Rightarrow> Err (InvalidState ExecuteWithdrawRequiresIdleUseCallbacks)))"

section \<open>Allocation and external assets\<close>

definition handle_begin_allocating ::
    "VaultState \<Rightarrow> u64 \<Rightarrow> AllocationPlanEntry list \<Rightarrow> KernelRes" where
  "handle_begin_allocating state op plan =
     and_then (map_transition_result (start_allocation (op_state state) plan op)) (\<lambda>result.
     (case as_allocating (tr_state result) of
        None \<Rightarrow> Err (InvalidState StartAllocationMustReturnAllocating)
      | Some allocating \<Rightarrow>
          let alloc_total = alloc_remaining allocating in
          if idle_assets state < alloc_total then Err (InvalidState AllocationPlanExceedsIdleAssets)
          else
            and_then (sync_total_assets (state\<lparr>idle_assets := idle_assets state - alloc_total\<rparr>))
              (\<lambda>state'.
            Ok \<lparr>kr_state = state'\<lparr>op_state := tr_state result\<rparr>, kr_effects = tr_effects result\<rparr>)))"

definition handle_finish_allocating ::
    "VaultState \<Rightarrow> VaultConfig \<Rightarrow> RestrictionMode option \<Rightarrow> Address \<Rightarrow> u64 \<Rightarrow> TimestampNs
      \<Rightarrow> KernelRes" where
  "handle_finish_allocating state config restrictions self_id op now_ns =
     apply_transition_result state (complete_allocation (op_state state) op None)"

definition ensure_sync_external_state_allowed :: "OpState \<Rightarrow> (unit, KernelError) result" where
  "ensure_sync_external_state_allowed ops =
     (case ops of
        Allocating _ \<Rightarrow> Ok ()
      | Withdrawing _ \<Rightarrow> Ok ()
      | Refreshing _ \<Rightarrow> Ok ()
      | _ \<Rightarrow> Err (InvalidState SyncExternalRequiresAllowedStates))"

definition plan_external_asset_sync ::
    "VaultState \<Rightarrow> u128 \<Rightarrow> (ExternalAssetSyncPlan, KernelError) result" where
  "plan_external_asset_sync state new_external =
     and_then (ok_or (checked_add (idle_assets state) new_external)
         (InvalidState SyncExternalOverflowIdlePlusExternal)) (\<lambda>new_total.
     Ok \<lparr>sync_new_external_assets = new_external, sync_new_total_assets = new_total\<rparr>)"

definition handle_sync_external_assets :: "VaultState \<Rightarrow> u128 \<Rightarrow> u64 \<Rightarrow> KernelRes" where
  "handle_sync_external_assets state new_external op =
     and_then (require_active_op_id (op_state state) op SyncExternalRequiresActiveOp) (\<lambda>_.
     and_then (ensure_sync_external_state_allowed (op_state state)) (\<lambda>_.
     and_then (plan_external_asset_sync state new_external) (\<lambda>plan.
     Ok \<lparr>kr_state = state\<lparr>external_assets := sync_new_external_assets plan,
           total_assets := sync_new_total_assets plan\<rparr>,
         kr_effects = [EmitEvent (ExternalAssetsSynced op (sync_new_external_assets plan)
           (sync_new_total_assets plan))]\<rparr>)))"

definition handle_rebalance_withdraw :: "VaultState \<Rightarrow> u64 \<Rightarrow> u128 \<Rightarrow> KernelRes" where
  "handle_rebalance_withdraw state op amount =
     and_then
       (case op_state state of
          Idle \<Rightarrow> Ok ()
        | Allocating _ \<Rightarrow> require_active_op_id (op_state state) op SyncExternalRequiresActiveOp
        | _ \<Rightarrow> Err (InvalidState RebalanceWithdrawRequiresIdle)) (\<lambda>_.
     if external_assets state < amount then
       Err (InvalidState RebalanceWithdrawExceedsExternalAssets)
     else
       and_then (ok_or (checked_add (idle_assets state) amount)
           (InvalidState RebalanceWithdrawOverflowsIdleAssets)) (\<lambda>new_idle.
       and_then (sync_total_assets (state\<lparr>external_assets := external_assets state - amount,
           idle_assets := new_idle\<rparr>)) (\<lambda>state'.
       Ok \<lparr>kr_state = state',
           kr_effects = [EmitEvent (ExternalAssetsSynced op (external_assets state')
             (total_assets state'))]\<rparr>)))"

section \<open>Aborts\<close>

definition handle_abort_refreshing :: "VaultState \<Rightarrow> u64 \<Rightarrow> KernelRes" where
  "handle_abort_refreshing state op =
     and_then (require_active_op_id (op_state state) op AbortRefreshingRequiresActiveOp) (\<lambda>_.
     (case op_state state of
        Refreshing _ \<Rightarrow> Ok \<lparr>kr_state = state\<lparr>op_state := Idle\<rparr>, kr_effects = []\<rparr>
      | _ \<Rightarrow> Err (InvalidState AbortRefreshingRequiresRefreshing)))"

definition handle_abort_allocating :: "VaultState \<Rightarrow> u64 \<Rightarrow> KernelRes" where
  "handle_abort_allocating state op =
     (case op_state state of
        Allocating alloc \<Rightarrow>
          and_then (check_op_id (alloc_op_id alloc) op) (\<lambda>_.
          and_then (restore_to_idle state (alloc_remaining alloc)) (\<lambda>state'.
          Ok \<lparr>kr_state = state'\<lparr>op_state := Idle\<rparr>, kr_effects = []\<rparr>))
      | _ \<Rightarrow> Err (InvalidState AbortAllocatingRequiresAllocating))"

definition handle_abort_withdrawing :: "VaultState \<Rightarrow> Address \<Rightarrow> u64 \<Rightarrow> KernelRes" where
  "handle_abort_withdrawing state self_id op =
     (case op_state state of
        Withdrawing withdraw \<Rightarrow>
          and_then (check_op_id (wd_op_id withdraw) op) (\<lambda>_.
          and_then (validate_queue_head (withdraw_queue state) (wd_request_id withdraw)
              (wd_owner withdraw) (wd_receiver withdraw) (wd_escrow_shares withdraw)) (\<lambda>_.
          and_then (restore_to_idle state (wd_collected withdraw)) (\<lambda>state'.
          and_then (map_transition_result (stop_withdrawal (op_state state') op self_id))
            (\<lambda>result.
          and_then (dequeue (withdraw_queue state')) (\<lambda>(popped, queue).
          Ok \<lparr>kr_state = state'\<lparr>op_state := tr_state result, withdraw_queue := queue\<rparr>,
            kr_effects = tr_effects result\<rparr>)))))
      | _ \<Rightarrow> Err (InvalidState AbortWithdrawingRequiresWithdrawing))"

section \<open>Payouts\<close>

definition plan_payout_settlement ::
    "PayoutState \<Rightarrow> PayoutOutcome \<Rightarrow> (PayoutSettlement, KernelError) result" where
  "plan_payout_settlement payout outcome =
     (case outcome of
        Success \<Rightarrow>
          and_then (ok_or (checked_sub (payout_escrow_shares payout) (payout_burn_shares payout))
              (InvalidState PayoutSuccessSettlementMismatch)) (\<lambda>refund_shares.
          Ok \<lparr>ps_burn_shares = payout_burn_shares payout, ps_refund_shares = refund_shares,
            ps_completed_amount = payout_amount payout, ps_success = True\<rparr>)
      | Failure \<Rightarrow>
          Ok \<lparr>ps_burn_shares = 0, ps_refund_shares = payout_escrow_shares payout,
            ps_completed_amount = 0, ps_success = False\<rparr>)"

definition apply_payout_settlement ::
    "VaultState \<Rightarrow> PayoutState \<Rightarrow> PayoutSettlement \<Rightarrow> Address \<Rightarrow> KernelEffect list
      \<Rightarrow> (VaultState \<times> KernelEffect list, KernelError) result" where
  "apply_payout_settlement state payout s escrow_address effects =
     and_then
       (if 0 < ps_burn_shares s then
          and_then (ok_or (checked_sub (total_shares state) (ps_burn_shares s))
              (InvalidState PayoutBurnExceedsTotalShares)) (\<lambda>new_shares.
          Ok (state\<lparr>total_shares := new_shares\<rparr>,
            effects @ [BurnShares escrow_address (ps_burn_shares s)]))
        else Ok (state, effects)) (\<lambda>(state1, effects1).
     let effects2 = push_refund_shares effects1 escrow_address (payout_owner payout)
           (ps_refund_shares s)
     in
     and_then
       (if ps_success s then
          and_then (ok_or (checked_sub (idle_assets state1) (payout_amount payout))
              (InvalidState PayoutFailureRestoreIdleMismatch)) (\<lambda>new_idle.
          sync_total_assets (state1\<lparr>idle_assets := new_idle\<rparr>))
        else Ok state1) (\<lambda>state2.
     Ok (state2\<lparr>op_state := Idle\<rparr>, effects2)))"

definition handle_settle_payout ::
    "VaultState \<Rightarrow> Address \<Rightarrow> u64 \<Rightarrow> PayoutOutcome \<Rightarrow> KernelRes" where
  "handle_settle_payout state0 self_id op outcome =
     (case op_state state0 of
        Payout payout \<Rightarrow>
          let state = state0\<lparr>op_state := Idle\<rparr> in
          and_then (check_op_id (payout_op_id payout) op) (\<lambda>_.
          and_then (validate_queue_head (withdraw_queue state) (payout_request_id payout)
              (payout_owner payout) (payout_receiver payout) (payout_escrow_shares payout)) (\<lambda>_.
          and_then (plan_payout_settlement payout outcome) (\<lambda>s.
          and_then (apply_payout_settlement state payout s self_id []) (\<lambda>(state', effects).
          and_then (dequeue (withdraw_queue state')) (\<lambda>(popped, queue).
          Ok \<lparr>kr_state = state'\<lparr>withdraw_queue := queue\<rparr>,
              kr_effects = effects @
                [EmitEvent (PayoutCompleted op (ps_success s) (ps_burn_shares s)
                  (ps_refund_shares s) (ps_completed_amount s))]\<rparr>)))))
      | _ \<Rightarrow> Err (InvalidState SettlePayoutRequiresPayout))"

section \<open>Emergency reset\<close>

definition plan_emergency_reset ::
    "VaultState \<Rightarrow> (EmergencyResetOutcome, KernelError) result" where
  "plan_emergency_reset state0 =
     (let prev_state = op_state state0;
          state = state0\<lparr>op_state := Idle\<rparr>;
          from_code = kind_code prev_state
      in
      and_then (ok_or (op_id prev_state) (InvalidState EmergencyResetAlreadyIdle)) (\<lambda>op.
      and_then
        (case prev_state of
           Idle \<Rightarrow> Err (InvalidState EmergencyResetAlreadyIdle)
         | Refreshing _ \<Rightarrow> Ok (state, None, 0)
         | Allocating alloc \<Rightarrow>
             and_then (restore_to_idle state (alloc_remaining alloc)) (\<lambda>state'.
               Ok (state', None, 0))
         | Withdrawing w \<Rightarrow>
             and_then (restore_to_idle state (wd_collected w)) (\<lambda>state'.
             and_then (dequeue (withdraw_queue state')) (\<lambda>(popped, queue).
               Ok (state'\<lparr>withdraw_queue := queue\<rparr>, Some (wd_owner w), wd_escrow_shares w)))
         | Payout p \<Rightarrow>
             and_then (restore_to_idle state (payout_amount p)) (\<lambda>state'.
             and_then (dequeue (withdraw_queue state')) (\<lambda>(popped, queue).
               Ok (state'\<lparr>withdraw_queue := queue\<rparr>, Some (payout_owner p), payout_escrow_shares p))))
        (\<lambda>(state', refund_owner, refund_shares).
      Ok \<lparr>reset_state = state'\<lparr>op_state := Idle,
            fee_anchor := \<lparr>anchor_total_assets = total_assets state',
              anchor_timestamp_ns = anchor_timestamp_ns (fee_anchor state')\<rparr>\<rparr>,
          reset_op_id = op, reset_from_code = from_code, reset_refund_owner = refund_owner,
          reset_refund_shares = refund_shares\<rparr>)))"

definition handle_emergency_reset :: "VaultState \<Rightarrow> Address \<Rightarrow> KernelRes" where
  "handle_emergency_reset state self_id =
     and_then (plan_emergency_reset state) (\<lambda>outcome.
     Ok \<lparr>kr_state = reset_state outcome,
         kr_effects =
           (case reset_refund_owner outcome of
              Some owner_id \<Rightarrow> push_refund_shares [] self_id owner_id (reset_refund_shares outcome)
            | None \<Rightarrow> []) @
           [EmitEvent (EmergencyResetCompleted (reset_op_id outcome) (reset_from_code outcome))]\<rparr>)"

section \<open>The dispatcher\<close>

definition when_feature :: "bool \<Rightarrow> KernelRes \<Rightarrow> KernelRes" where
  "when_feature enabled r = (if enabled then r else Err NotImplemented)"

fun apply_action ::
    "features \<Rightarrow> primitive_types \<Rightarrow> VaultState \<Rightarrow> VaultConfig \<Rightarrow> RestrictionMode option \<Rightarrow> Address
      \<Rightarrow> KernelAction \<Rightarrow> KernelRes" where
  "apply_action F P state config restrictions self_id
     (Deposit owner_id receiver_id assets_in min_shares_out now_ns) =
     handle_deposit F P state config restrictions self_id owner_id receiver_id assets_in
       min_shares_out now_ns"
| "apply_action F P state config restrictions self_id
     (AtomicWithdraw owner_id receiver_id operator amount_out max_shares_burned now_ns) =
     handle_atomic_withdraw F P state config restrictions self_id owner_id receiver_id operator
       amount_out max_shares_burned now_ns"
| "apply_action F P state config restrictions self_id
     (AtomicRedeem owner_id receiver_id operator shares min_assets_out now_ns) =
     handle_atomic_redeem F P state config restrictions self_id owner_id receiver_id operator
       shares min_assets_out now_ns"
| "apply_action F P state config restrictions self_id
     (RequestWithdraw owner_id receiver_id shares min_assets_out now_ns) =
     handle_request_withdraw F P state config restrictions self_id owner_id receiver_id shares
       min_assets_out now_ns"
| "apply_action F P state config restrictions self_id (ExecuteWithdraw now_ns) =
     handle_execute_withdraw state config restrictions self_id now_ns"
| "apply_action F P state config restrictions self_id (BeginAllocating op plan now_ns) =
     when_feature (action_allocation_lifecycle F) (handle_begin_allocating state op plan)"
| "apply_action F P state config restrictions self_id (FinishAllocating op now_ns) =
     when_feature (action_allocation_lifecycle F)
       (handle_finish_allocating state config restrictions self_id op now_ns)"
| "apply_action F P state config restrictions self_id (BeginRefreshing op rplan now_ns) =
     when_feature (action_refresh_lifecycle F)
       (apply_transition_result state (start_refresh (op_state state) rplan op))"
| "apply_action F P state config restrictions self_id (FinishRefreshing op now_ns) =
     when_feature (action_refresh_lifecycle F)
       (apply_transition_result state (complete_refresh (op_state state) op))"
| "apply_action F P state config restrictions self_id (SyncExternalAssets new_external op now_ns) =
     when_feature (action_sync_external F) (handle_sync_external_assets state new_external op)"
| "apply_action F P state config restrictions self_id (RebalanceWithdraw op amount now_ns) =
     when_feature (action_sync_external F) (handle_rebalance_withdraw state op amount)"
| "apply_action F P state config restrictions self_id (AbortRefreshing op) =
     when_feature (action_recovery F) (handle_abort_refreshing state op)"
| "apply_action F P state config restrictions self_id (AbortAllocating op) =
     when_feature (action_recovery F) (handle_abort_allocating state op)"
| "apply_action F P state config restrictions self_id (AbortWithdrawing op) =
     when_feature (action_recovery F) (handle_abort_withdrawing state self_id op)"
| "apply_action F P state config restrictions self_id (SettlePayout op outcome) =
     handle_settle_payout state self_id op outcome"
| "apply_action F P state config restrictions self_id (Pause paused_flag) =
     when_feature (action_pause F)
       (Ok \<lparr>kr_state = state, kr_effects = [EmitEvent (PauseUpdated paused_flag)]\<rparr>)"
| "apply_action F P state config restrictions self_id (RefreshFees now_ns) =
     when_feature (action_refresh_fees F) (handle_refresh_fees P state config now_ns)"
| "apply_action F P state config restrictions self_id EmergencyReset =
     when_feature (action_recovery F) (handle_emergency_reset state self_id)"

end
