(* ===== verification/Kernel_Handlers.thy ===== *)
theory Kernel_Handlers
  imports Kernel_Actions
begin

text \<open>
  What each handler of \<open>Kernel_Actions\<close> does when it returns: one lemma per handler that lists the
  conditions it has checked, the state it returns and what its effects do to shares and assets.
\<close>

text \<open>Two states that differ in the share supply and the fee anchor only.\<close>

definition same_but_fees :: "VaultState \<Rightarrow> VaultState \<Rightarrow> bool" where
  "same_but_fees s s' \<longleftrightarrow>
     s' = s\<lparr>total_shares := total_shares s', fee_anchor := fee_anchor s'\<rparr>"

lemma same_but_fees_fields:
  "same_but_fees s s' \<Longrightarrow> total_assets s' = total_assets s \<and> idle_assets s' = idle_assets s \<and>
    external_assets s' = external_assets s \<and> op_state s' = op_state s \<and>
    withdraw_queue s' = withdraw_queue s \<and> next_op_id s' = next_op_id s"
  by (cases s; cases s') (auto simp: same_but_fees_def)

lemma same_but_fees_refl [simp]: "same_but_fees s s"
  by (simp add: same_but_fees_def)

text \<open>Effects that move no shares and no assets but by minting.\<close>

definition only_mints :: "KernelEffect list \<Rightarrow> bool" where
  "only_mints es \<longleftrightarrow> (\<forall>e \<in> set es. (\<exists>a n. e = MintShares a n) \<or> (\<exists>v. e = EmitEvent v))"

lemma only_mints_sums [simp]:
  assumes "only_mints es"
  shows "burned_total es = 0" and "paid es = 0" and "released a es = 0"
  using assms by (induction es) (auto simp: only_mints_def effect_sums)

lemma only_mints_simps [simp]:
  "only_mints []" "only_mints (es @ es') \<longleftrightarrow> only_mints es \<and> only_mints es'"
  "only_mints (MintShares a n # es) \<longleftrightarrow> only_mints es"
  "only_mints (EmitEvent v # es) \<longleftrightarrow> only_mints es"
  "only_mints (if b then [MintShares a n] else [])"
  by (auto simp: only_mints_def)

section \<open>Guards\<close>

lemma require_active_op_id_Ok [simp]:
  "require_active_op_id s i e = Ok u \<longleftrightarrow> op_id s = Some i"
  by (auto simp: require_active_op_id_def split: option.splits)

lemma check_op_id_Ok [simp]: "check_op_id i j = Ok u \<longleftrightarrow> i = j"
  by (simp add: check_op_id_def)

lemma map_transition_result_Ok [simp]: "map_transition_result r = Ok t \<longleftrightarrow> r = Ok t"
  by (simp add: map_transition_result_def)

lemma apply_transition_result_Ok:
  "apply_transition_result s r = Ok k \<longleftrightarrow>
    (\<exists>t. r = Ok t \<and> k = \<lparr>kr_state = s\<lparr>op_state := tr_state t\<rparr>, kr_effects = tr_effects t\<rparr>)"
  by (auto simp: apply_transition_result_def)

lemma enforce_restrictions_Ok:
  "enforce_restrictions c r self a = Ok u \<longleftrightarrow>
    \<not> paused c \<and> (\<forall>m. r = Some m \<longrightarrow> is_restricted m a = None)"
  by (auto simp: enforce_restrictions_def split: option.splits)

lemma enforce_withdrawal_actors_Ok:
  "enforce_withdrawal_actors c r self own recv = Ok u \<longleftrightarrow>
    \<not> paused c \<and> (\<forall>m. r = Some m \<longrightarrow> is_restricted m own = None \<and> is_restricted m recv = None)"
  by (auto simp: enforce_withdrawal_actors_def enforce_restrictions_Ok)

lemma require_idle_with_nonzero_amount_Ok:
  "require_idle_with_nonzero_amount s e n = Ok u \<longleftrightarrow> op_state s = Idle \<and> n \<noteq> 0"
  by (simp add: require_idle_with_nonzero_amount_def is_idle_def is_idle_op_def)

text \<open>The request at the head of the queue is the one an operation was started for.\<close>

definition head_is :: "WithdrawQueue \<Rightarrow> u64 \<Rightarrow> Address \<Rightarrow> Address \<Rightarrow> u128 \<Rightarrow> bool" where
  "head_is q i own recv escrow \<longleftrightarrow>
     (case queue_head q of
        None \<Rightarrow> False
      | Some (h, w) \<Rightarrow> h = i \<and> owner w = own \<and> receiver w = recv \<and> escrow_shares w = escrow)"

lemma validate_queue_head_Ok:
  "validate_queue_head q i own recv escrow = Ok u \<longleftrightarrow> head_is q i own recv escrow"
  by (auto simp: validate_queue_head_def head_is_def split: option.splits)

lemma head_is_list:
  "queue_wf q \<Longrightarrow> head_is q i own recv escrow \<longleftrightarrow>
    (\<exists>w xs. queue_list q = (i, w) # xs \<and> owner w = own \<and> receiver w = recv \<and> escrow_shares w = escrow)"
  by (auto simp: head_is_def queue_head_list split: list.splits)

text \<open>Removing the head of a well-formed queue that has one.\<close>

lemma dequeue_wf:
  assumes "queue_wf q" and "dequeue q = (Ok (popped, q') :: (_, 'e) result)"
  shows "queue_wf q'" and "queue_list q = (case popped of None \<Rightarrow> [] | Some e \<Rightarrow> [e]) @ queue_list q'"
    and "next_pending_withdrawal_id q' = next_pending_withdrawal_id q"
proof -
  obtain x r where "dequeue q = (Ok (x, r) :: (_, 'e) result)" "queue_wf r"
    "next_pending_withdrawal_id r = next_pending_withdrawal_id q"
    "queue_list q = (case x of None \<Rightarrow> [] | Some e \<Rightarrow> [e]) @ queue_list r"
    using assms(1) by (rule fq.deq_cases)
  with assms(2) show "queue_wf q'"
    and "queue_list q = (case popped of None \<Rightarrow> [] | Some e \<Rightarrow> [e]) @ queue_list q'"
    and "next_pending_withdrawal_id q' = next_pending_withdrawal_id q"
    by simp_all
qed

lemma dequeue_not_Panic:
  assumes "queue_wf q"
  shows "\<exists>popped q'. dequeue q = (Ok (popped, q') :: (_, 'e) result)"
proof -
  obtain x r where "dequeue q = (Ok (x, r) :: (_, 'e) result)"
    using assms by (rule fq.deq_cases)
  then show ?thesis by blast
qed

section \<open>Fees\<close>

lemma unat_headroom: "unat (saturating_sub max_value (n :: u128)) = 2 ^ 128 - 1 - unat n"
  by (simp add: unat_saturating_sub unat_max_value)

lemma compute_fee_accrual_Ok:
  assumes "compute_fee_accrual P assets shares anchor spec now = Ok out"
  shows "unat (new_total_shares out) =
      unat shares + unat (management_shares out) + unat (performance_shares out)"
    and "new_anchor out = \<lparr>anchor_total_assets = assets, anchor_timestamp_ns = now\<rparr>"
  using assms by (auto simp: compute_fee_accrual_def Let_def checked_add_eq_Some split: if_splits)

lemma compute_fee_accrual_not_Panic [simp]:
  "compute_fee_accrual P assets shares anchor spec now \<noteq> Panic"
  by (auto simp: compute_fee_accrual_def Let_def and_then_eq_Panic split: if_splits)

lemma handle_refresh_fees_cases:
  assumes "handle_refresh_fees P s c now = Ok r"
  obtains (anchored)
      "op_state s = Idle"
      "r = \<lparr>kr_state = s\<lparr>fee_anchor := \<lparr>anchor_total_assets = total_assets s,
          anchor_timestamp_ns = now\<rparr>\<rparr>,
        kr_effects = [EmitEvent (FeesRefreshed now (total_assets s))]\<rparr>"
    | (accrued) out where
      "op_state s = Idle"
      "compute_fee_accrual P (total_assets s) (total_shares s) (fee_anchor s) (fees c) now = Ok out"
      "r = \<lparr>kr_state = s\<lparr>total_shares := new_total_shares out, fee_anchor := new_anchor out\<rparr>,
        kr_effects =
          (if 0 < management_shares out
           then [MintShares (fee_recipient (management (fees c))) (management_shares out)] else []) @
          (if 0 < performance_shares out
           then [MintShares (fee_recipient (performance (fees c))) (performance_shares out)] else []) @
          [EmitEvent (FeesRefreshed now (total_assets s))]\<rparr>"
proof (cases "0 < total_shares s \<and> is_uninitialized (fee_anchor s) \<and> total_assets s = 0")
  case True
  with assms show thesis
    by (intro that(1)) (simp_all add: handle_refresh_fees_def Let_def is_idle_def is_idle_op_def)
next
  case False
  with assms show thesis
    by (auto simp: handle_refresh_fees_def Let_def is_idle_def is_idle_op_def intro: that(2))
qed

lemma handle_refresh_fees_Ok:
  assumes "handle_refresh_fees P s c now = Ok r"
  shows "op_state s = Idle" and "same_but_fees s (kr_state r)" and "only_mints (kr_effects r)"
    and "unat (total_shares (kr_state r)) = unat (total_shares s) + minted (kr_effects r)"
    and "fee_anchor (kr_state r) =
      \<lparr>anchor_total_assets = total_assets s, anchor_timestamp_ns = now\<rparr>"
  using assms
  by (cases rule: handle_refresh_fees_cases;
    simp add: same_but_fees_def compute_fee_accrual_Ok effect_sums)+

lemma handle_refresh_fees_not_Panic [simp]: "handle_refresh_fees P s c now \<noteq> Panic"
  by (auto simp: handle_refresh_fees_def Let_def and_then_eq_Panic)

text \<open>
  The fee refresh that precedes a transfer of value, as the exits and the deposit do it; without the
  feature the exits refuse where the deposit skips it.
\<close>

definition deposit_refresh ::
    "features \<Rightarrow> primitive_types \<Rightarrow> VaultState \<Rightarrow> VaultConfig \<Rightarrow> TimestampNs
      \<Rightarrow> (VaultState \<times> KernelEffect list, KernelError) result" where
  "deposit_refresh F P s c now =
     (if action_refresh_fees F \<and> should_refresh_fees_for_value_transfer s c now
      then and_then (handle_refresh_fees P s c now) (\<lambda>refresh. Ok (kr_state refresh, kr_effects refresh))
      else Ok (s, []))"

lemma deposit_refresh_Ok:
  assumes "deposit_refresh F P s c now = Ok (s', es)"
  shows "same_but_fees s s'" and "only_mints es"
    and "unat (total_shares s') = unat (total_shares s) + minted es"
  using assms
  by (auto simp: deposit_refresh_def handle_refresh_fees_Ok effect_sums split: if_splits)

lemma exit_refresh_deposit_refresh:
  "refresh_fees_before_value_transfer F P s c now = Ok p \<Longrightarrow> deposit_refresh F P s c now = Ok p"
  by (auto simp: refresh_fees_before_value_transfer_def deposit_refresh_def split: if_splits)

lemmas exit_refresh_Ok = deposit_refresh_Ok [OF exit_refresh_deposit_refresh]

lemma exit_refresh_not_Panic [simp]:
  "refresh_fees_before_value_transfer F P s c now \<noteq> Panic" "deposit_refresh F P s c now \<noteq> Panic"
  by (auto simp: refresh_fees_before_value_transfer_def deposit_refresh_def and_then_eq_Panic)

section \<open>Deposits and exits\<close>

lemma handle_deposit_Ok:
  assumes "handle_deposit F P s c R self own recv n min_out now = Ok r"
  obtains s1 es shares where
    "deposit_refresh F P s c now = Ok (s1, es)"
    "convert_to_shares_bounded P s1 c n (saturating_sub max_value (total_shares s1))
      MintOverflowTotalShares = Ok shares"
    "op_state s = Idle" "n \<noteq> 0" "shares \<noteq> 0" "min_out \<le> shares"
    "unat (total_assets (kr_state r)) = unat (total_assets s1) + unat n"
    "unat (idle_assets (kr_state r)) = unat (idle_assets s1) + unat n"
    "unat (total_shares (kr_state r)) = unat (total_shares s1) + unat shares"
    "external_assets (kr_state r) = external_assets s1"
    "op_state (kr_state r) = op_state s1" "withdraw_queue (kr_state r) = withdraw_queue s1"
    "kr_effects r = es @ [TransferAssetsFrom own self n, MintShares recv shares,
      EmitEvent (DepositProcessed own recv n shares)]"
  using assms
  by (auto simp: handle_deposit_def is_idle_def is_idle_op_def checked_add_eq_Some not_less
    simp flip: deposit_refresh_def)

text \<open>What the two atomic exits have in common once their amounts are fixed.\<close>

definition exits ::
    "VaultState \<Rightarrow> KernelEffect list \<Rightarrow> Address \<Rightarrow> Address \<Rightarrow> Address \<Rightarrow> u128 \<Rightarrow> u128 \<Rightarrow> KernelResult
      \<Rightarrow> bool" where
  "exits s es own recv operator shares amount r \<longleftrightarrow>
     shares \<noteq> 0 \<and> amount \<noteq> 0 \<and>
     unat (total_shares s) = unat (total_shares (kr_state r)) + unat shares \<and>
     unat (idle_assets s) = unat (idle_assets (kr_state r)) + unat amount \<and>
     unat (total_assets s) = unat (total_assets (kr_state r)) + unat amount \<and>
     external_assets (kr_state r) = external_assets s \<and>
     op_state (kr_state r) = op_state s \<and> withdraw_queue (kr_state r) = withdraw_queue s \<and>
     kr_effects r = es @ [if operator = own then BurnShares own shares
         else BurnSharesFrom operator own shares, TransferAssets recv amount,
       EmitEvent (AtomicWithdrawProcessed own recv shares amount)]"

lemma exits_sums:
  "exits s es own recv operator shares amount r \<Longrightarrow> only_mints es \<Longrightarrow>
    burned_total (kr_effects r) = unat shares \<and> minted (kr_effects r) = minted es \<and>
    paid (kr_effects r) = unat amount"
  by (auto simp: exits_def effect_sums)

lemma handle_atomic_withdraw_Ok:
  assumes "handle_atomic_withdraw F P s c R self own recv operator amount max_burn now = Ok r"
  obtains s1 es shares where
    "refresh_fees_before_value_transfer F P s c now = Ok (s1, es)"
    "convert_to_withdraw_shares_ceil_bounded P s1 c amount (total_shares s1)
      AtomicWithdrawBurnExceedsTotalShares = Ok shares"
    "op_state s = Idle" "shares \<le> max_burn" "exits s1 es own recv operator shares amount r"
  using assms
  by (auto simp: handle_atomic_withdraw_def require_idle_with_nonzero_amount_Ok exits_def
    push_atomic_burn_shares_def checked_sub_eq_Some not_less)

lemma handle_atomic_redeem_Ok:
  assumes "handle_atomic_redeem F P s c R self own recv operator shares min_out now = Ok r"
  obtains s1 es amount where
    "refresh_fees_before_value_transfer F P s c now = Ok (s1, es)"
    "convert_to_redeem_assets_bounded P s1 c shares (idle_assets s1)
      AtomicWithdrawExceedsIdleAssets = Ok amount"
    "op_state s = Idle" "min_out \<le> amount" "exits s1 es own recv operator shares amount r"
  using assms
  by (auto simp: handle_atomic_redeem_def require_idle_with_nonzero_amount_Ok exits_def
    push_atomic_burn_shares_def checked_sub_eq_Some not_less)

section \<open>Requests\<close>

lemma handle_request_withdraw_Ok:
  assumes "handle_request_withdraw F P s c R self own recv shares min_out now = Ok r"
  obtains s1 es expected i q w where
    "refresh_fees_before_value_transfer F P s c now = Ok (s1, es)"
    "convert_to_redeem_assets_bounded P s1 c shares (total_assets s1)
      RequestWithdrawExpectedAssetsExceedTotalAssets = Ok expected"
    "w = \<lparr>owner = own, receiver = recv, escrow_shares = shares, expected_assets = expected,
       requested_at_ns = now\<rparr>"
    "enqueue_withdrawal (withdraw_queue s1) w (max_pending_withdrawals c) = Ok (i, q)"
    "op_state s = Idle" "shares \<noteq> 0" "min_out \<le> expected" "min_withdrawal_assets c \<le> expected"
    "kr_state r = s1\<lparr>withdraw_queue := q\<rparr>"
    "kr_effects r = es @ [TransferShares own self shares,
      EmitEvent (WithdrawalRequested i own recv shares expected)]"
  using assms
  by (auto simp: handle_request_withdraw_def require_idle_with_nonzero_amount_Ok
    plan_withdrawal_request_def apply_withdrawal_request_plan_def enqueue_def not_less)

section \<open>Allocation and external assets\<close>

lemma handle_begin_allocating_Ok:
  assumes "handle_begin_allocating s op plan = Ok r"
  obtains t a where
    "start_allocation (op_state s) plan op = Ok t" "tr_state t = Allocating a"
    "unat (idle_assets s) = unat (idle_assets (kr_state r)) + unat (alloc_remaining a)"
    "unat (total_assets (kr_state r)) =
      unat (idle_assets (kr_state r)) + unat (external_assets (kr_state r))"
    "external_assets (kr_state r) = external_assets s" "total_shares (kr_state r) = total_shares s"
    "withdraw_queue (kr_state r) = withdraw_queue s" "op_state (kr_state r) = tr_state t"
    "kr_effects r = tr_effects t"
proof -
  from assms obtain t a s' where *: "start_allocation (op_state s) plan op = Ok t"
    "tr_state t = Allocating a" "alloc_remaining a \<le> idle_assets s"
    "sync_total_assets (s\<lparr>idle_assets := idle_assets s - alloc_remaining a\<rparr>) = (Ok s' :: (_, KernelError) result)"
    "r = \<lparr>kr_state = s'\<lparr>op_state := tr_state t\<rparr>, kr_effects = tr_effects t\<rparr>"
    by (auto simp: handle_begin_allocating_def Let_def not_less split: option.splits
      elim!: as_allocating.elims)
  from *(3) have "unat (idle_assets s) =
      unat (idle_assets s - alloc_remaining a) + unat (alloc_remaining a)"
    by (simp add: unat_sub word_le_nat_alt)
  with * show thesis by (intro that [of t a]) (auto simp: sync_total_assets_Ok)
qed

lemma handle_sync_external_assets_Ok:
  "handle_sync_external_assets s n op = Ok r \<longleftrightarrow>
    op_id (op_state s) = Some op \<and> (\<forall>p. op_state s \<noteq> Payout p) \<and>
    (\<exists>t. unat t = unat (idle_assets s) + unat n \<and>
      r = \<lparr>kr_state = s\<lparr>external_assets := n, total_assets := t\<rparr>,
        kr_effects = [EmitEvent (ExternalAssetsSynced op n t)]\<rparr>)"
  by (cases "op_state s") (auto simp: handle_sync_external_assets_def
    ensure_sync_external_state_allowed_def plan_external_asset_sync_def checked_add_eq_Some)

lemma handle_rebalance_withdraw_Ok:
  assumes "handle_rebalance_withdraw s op n = Ok r"
  shows "op_state s = Idle \<or> (\<exists>a. op_state s = Allocating a \<and> alloc_op_id a = op)"
    and "n \<le> external_assets s"
    and "unat (external_assets s) = unat (external_assets (kr_state r)) + unat n"
    and "unat (idle_assets (kr_state r)) = unat (idle_assets s) + unat n"
    and "unat (total_assets (kr_state r)) =
      unat (idle_assets (kr_state r)) + unat (external_assets (kr_state r))"
    and "total_shares (kr_state r) = total_shares s" and "op_state (kr_state r) = op_state s"
    and "withdraw_queue (kr_state r) = withdraw_queue s" and "only_mints (kr_effects r)"
    and "minted (kr_effects r) = 0"
  using assms
  by (auto simp: handle_rebalance_withdraw_def sync_total_assets_Ok checked_add_eq_Some not_less
    unat_sub word_le_nat_alt effect_sums split: OpState.splits)

section \<open>Aborts, payouts and the reset\<close>

lemma handle_abort_refreshing_Ok:
  "handle_abort_refreshing s op = Ok r \<longleftrightarrow>
    (\<exists>f. op_state s = Refreshing f \<and> refresh_op_id f = op \<and>
      r = \<lparr>kr_state = s\<lparr>op_state := Idle\<rparr>, kr_effects = []\<rparr>)"
  by (cases "op_state s") (auto simp: handle_abort_refreshing_def)

lemma handle_abort_allocating_Ok:
  "handle_abort_allocating s op = Ok r \<longleftrightarrow>
    (\<exists>a s'. op_state s = Allocating a \<and> alloc_op_id a = op \<and>
      restore_to_idle s (alloc_remaining a) = (Ok s' :: (_, KernelError) result) \<and>
      r = \<lparr>kr_state = s'\<lparr>op_state := Idle\<rparr>, kr_effects = []\<rparr>)"
  by (cases "op_state s") (auto simp: handle_abort_allocating_def)

lemma restore_to_idle_op_state:
  "restore_to_idle s n = Ok s' \<Longrightarrow> op_state s' = op_state s \<and> withdraw_queue s' = withdraw_queue s"
  by (auto simp: restore_to_idle_Ok)

lemma handle_abort_withdrawing_Ok:
  "handle_abort_withdrawing s self op = Ok r \<longleftrightarrow>
    (\<exists>w s' popped q. op_state s = Withdrawing w \<and> wd_op_id w = op \<and>
      head_is (withdraw_queue s) (wd_request_id w) (wd_owner w) (wd_receiver w) (wd_escrow_shares w) \<and>
      restore_to_idle s (wd_collected w) = (Ok s' :: (_, KernelError) result) \<and>
      dequeue (withdraw_queue s) = (Ok (popped, q) :: (_, KernelError) result) \<and>
      r = \<lparr>kr_state = s'\<lparr>op_state := Idle, withdraw_queue := q\<rparr>,
        kr_effects = push_refund_shares [] self (wd_owner w) (wd_escrow_shares w) @
          [EmitEvent (WithdrawalStopped op (wd_escrow_shares w))]\<rparr>)"
proof (cases "op_state s")
  case (Withdrawing w)
  have "restore_to_idle s (wd_collected w) = (Ok s' :: (_, KernelError) result) \<Longrightarrow>
      op_state s' = Withdrawing w \<and> withdraw_queue s' = withdraw_queue s" for s'
    using restore_to_idle_op_state [of s "wd_collected w" s'] Withdrawing by simp
  then show ?thesis
    by (auto simp: handle_abort_withdrawing_def Withdrawing validate_queue_head_Ok
      stop_withdrawal_def push_refund_shares_def)
qed (auto simp: handle_abort_withdrawing_def)

lemma plan_payout_settlement_Ok:
  "plan_payout_settlement p outcome = Ok ps \<longleftrightarrow>
    (case outcome of
       Success \<Rightarrow> payout_burn_shares p \<le> payout_escrow_shares p \<and>
         ps = \<lparr>ps_burn_shares = payout_burn_shares p,
           ps_refund_shares = payout_escrow_shares p - payout_burn_shares p,
           ps_completed_amount = payout_amount p, ps_success = True\<rparr>
     | Failure \<Rightarrow> ps = \<lparr>ps_burn_shares = 0, ps_refund_shares = payout_escrow_shares p,
         ps_completed_amount = 0, ps_success = False\<rparr>)"
  by (auto simp: plan_payout_settlement_def checked_sub_def split: PayoutOutcome.splits if_splits)

text \<open>The shares and assets a settled payout moves.\<close>

definition settled_burn :: "PayoutState \<Rightarrow> PayoutOutcome \<Rightarrow> u128" where
  "settled_burn p outcome = (case outcome of Success \<Rightarrow> payout_burn_shares p | Failure \<Rightarrow> 0)"

definition settled_amount :: "PayoutState \<Rightarrow> PayoutOutcome \<Rightarrow> u128" where
  "settled_amount p outcome = (case outcome of Success \<Rightarrow> payout_amount p | Failure \<Rightarrow> 0)"

lemma apply_payout_settlement_Ok:
  assumes "apply_payout_settlement s p ps escrow es = Ok (s', es')"
  shows "unat (total_shares s) = unat (total_shares s') + unat (ps_burn_shares ps)"
    and "unat (idle_assets s) =
      unat (idle_assets s') + (if ps_success ps then unat (payout_amount p) else 0)"
    and "external_assets s' = external_assets s" and "withdraw_queue s' = withdraw_queue s"
    and "op_state s' = Idle"
    and "if ps_success ps then unat (total_assets s') = unat (idle_assets s') + unat (external_assets s')
      else total_assets s' = total_assets s"
    and "es' = es @ (if 0 < ps_burn_shares ps then [BurnShares escrow (ps_burn_shares ps)] else []) @
      push_refund_shares [] escrow (payout_owner p) (ps_refund_shares ps)"
proof -
  note defs = apply_payout_settlement_def checked_sub_eq_Some sync_total_assets_Ok
    push_refund_shares_def
  from assms have "unat (total_shares s) = unat (total_shares s') + unat (ps_burn_shares ps) \<and>
    unat (idle_assets s) = unat (idle_assets s') + (if ps_success ps then unat (payout_amount p) else 0) \<and>
    external_assets s' = external_assets s \<and> withdraw_queue s' = withdraw_queue s \<and>
    op_state s' = Idle \<and>
    (if ps_success ps then unat (total_assets s') = unat (idle_assets s') + unat (external_assets s')
      else total_assets s' = total_assets s) \<and>
    es' = es @ (if 0 < ps_burn_shares ps then [BurnShares escrow (ps_burn_shares ps)] else []) @
      push_refund_shares [] escrow (payout_owner p) (ps_refund_shares ps)"
  proof (cases "ps_burn_shares ps = 0")
    case True
    with assms show ?thesis by (cases "ps_success ps") (auto simp: defs Let_def)
  next
    case False
    then have "0 < ps_burn_shares ps" by (simp add: word_gt_0)
    with assms show ?thesis by (cases "ps_success ps") (auto simp: defs Let_def)
  qed
  then show "unat (total_shares s) = unat (total_shares s') + unat (ps_burn_shares ps)"
    and "unat (idle_assets s) =
      unat (idle_assets s') + (if ps_success ps then unat (payout_amount p) else 0)"
    and "external_assets s' = external_assets s" and "withdraw_queue s' = withdraw_queue s"
    and "op_state s' = Idle"
    and "if ps_success ps then unat (total_assets s') = unat (idle_assets s') + unat (external_assets s')
      else total_assets s' = total_assets s"
    and "es' = es @ (if 0 < ps_burn_shares ps then [BurnShares escrow (ps_burn_shares ps)] else []) @
      push_refund_shares [] escrow (payout_owner p) (ps_refund_shares ps)"
    by blast+
qed

lemma handle_settle_payout_Ok:
  assumes "handle_settle_payout s self op outcome = Ok r"
  obtains p popped where
    "op_state s = Payout p" "payout_op_id p = op"
    "head_is (withdraw_queue s) (payout_request_id p) (payout_owner p) (payout_receiver p)
      (payout_escrow_shares p)"
    "outcome = Success \<Longrightarrow> payout_burn_shares p \<le> payout_escrow_shares p"
    "dequeue (withdraw_queue s) = (Ok (popped, withdraw_queue (kr_state r)) :: (_, KernelError) result)"
    "unat (total_shares s) = unat (total_shares (kr_state r)) + unat (settled_burn p outcome)"
    "unat (idle_assets s) = unat (idle_assets (kr_state r)) + unat (settled_amount p outcome)"
    "external_assets (kr_state r) = external_assets s"
    "outcome = Success \<Longrightarrow> unat (total_assets (kr_state r)) =
      unat (idle_assets (kr_state r)) + unat (external_assets (kr_state r))"
    "outcome = Failure \<Longrightarrow> total_assets (kr_state r) = total_assets s"
    "op_state (kr_state r) = Idle"
    "kr_effects r =
      (if 0 < settled_burn p outcome then [BurnShares self (settled_burn p outcome)] else []) @
      push_refund_shares [] self (payout_owner p) (payout_escrow_shares p - settled_burn p outcome) @
      [EmitEvent (PayoutCompleted op (outcome = Success) (settled_burn p outcome)
        (payout_escrow_shares p - settled_burn p outcome) (settled_amount p outcome))]"
proof -
  from assms obtain p where p: "op_state s = Payout p"
    by (auto simp: handle_settle_payout_def split: OpState.splits)
  with assms obtain ps s' es' popped q where
    op: "payout_op_id p = op" and head: "head_is (withdraw_queue s) (payout_request_id p)
      (payout_owner p) (payout_receiver p) (payout_escrow_shares p)"
    and plan: "plan_payout_settlement p outcome = Ok ps"
    and applied: "apply_payout_settlement (s\<lparr>op_state := Idle\<rparr>) p ps self [] = Ok (s', es')"
    and deq: "dequeue (withdraw_queue s') = (Ok (popped, q) :: (_, KernelError) result)"
    and r: "r = \<lparr>kr_state = s'\<lparr>withdraw_queue := q\<rparr>, kr_effects = es' @
      [EmitEvent (PayoutCompleted op (ps_success ps) (ps_burn_shares ps) (ps_refund_shares ps)
        (ps_completed_amount ps))]\<rparr>"
    by (auto simp: handle_settle_payout_def Let_def validate_queue_head_Ok)
  have ps: "ps_burn_shares ps = settled_burn p outcome" "ps_success ps \<longleftrightarrow> outcome = Success"
    "ps_refund_shares ps = payout_escrow_shares p - settled_burn p outcome"
    "ps_completed_amount ps = settled_amount p outcome"
    "outcome = Success \<Longrightarrow> payout_burn_shares p \<le> payout_escrow_shares p"
    "unat (settled_amount p outcome) = (if ps_success ps then unat (payout_amount p) else 0)"
    using plan by (auto simp: plan_payout_settlement_Ok settled_burn_def settled_amount_def
      split: PayoutOutcome.splits)
  show thesis
    using apply_payout_settlement_Ok [OF applied] deq op head ps
    by (intro that [of p popped]) (simp_all add: p r)
qed

text \<open>What the reset gives back to the idle assets, and to whom it returns shares.\<close>

fun reset_restored :: "OpState \<Rightarrow> u128" where
  "reset_restored (Allocating a) = alloc_remaining a"
| "reset_restored (Withdrawing w) = wd_collected w"
| "reset_restored (Payout p) = payout_amount p"
| "reset_restored _ = 0"

fun escrow_of :: "OpState \<Rightarrow> (Address \<times> u128) option" where
  "escrow_of (Withdrawing w) = Some (wd_owner w, wd_escrow_shares w)"
| "escrow_of (Payout p) = Some (payout_owner p, payout_escrow_shares p)"
| "escrow_of _ = None"

lemma handle_emergency_reset_Ok:
  assumes "handle_emergency_reset s self = Ok r"
  shows "op_state s \<noteq> Idle" and "op_state (kr_state r) = Idle"
    and "unat (idle_assets (kr_state r)) = unat (idle_assets s) + unat (reset_restored (op_state s))"
    and "external_assets (kr_state r) = external_assets s"
    and "total_shares (kr_state r) = total_shares s"
    and "(case escrow_of (op_state s) of
       None \<Rightarrow> withdraw_queue (kr_state r) = withdraw_queue s
     | Some _ \<Rightarrow> \<exists>popped. dequeue (withdraw_queue s) =
         (Ok (popped, withdraw_queue (kr_state r)) :: (_, KernelError) result))"
    and "(\<exists>f. op_state s = Refreshing f \<and> total_assets (kr_state r) = total_assets s) \<or>
      unat (total_assets (kr_state r)) =
        unat (idle_assets (kr_state r)) + unat (external_assets (kr_state r))"
    and "kr_effects r = (case escrow_of (op_state s) of
       None \<Rightarrow> [] | Some (own, n) \<Rightarrow> push_refund_shares [] self own n) @
       [EmitEvent (EmergencyResetCompleted (the (op_id (op_state s))) (kind_code (op_state s)))]"
proof -
  note defs = handle_emergency_reset_def plan_emergency_reset_def Let_def restore_to_idle_Ok
  have *: "op_state s \<noteq> Idle \<and> op_state (kr_state r) = Idle \<and>
    unat (idle_assets (kr_state r)) = unat (idle_assets s) + unat (reset_restored (op_state s)) \<and>
    external_assets (kr_state r) = external_assets s \<and> total_shares (kr_state r) = total_shares s \<and>
    (case escrow_of (op_state s) of
       None \<Rightarrow> withdraw_queue (kr_state r) = withdraw_queue s
     | Some _ \<Rightarrow> \<exists>popped. dequeue (withdraw_queue s) =
         (Ok (popped, withdraw_queue (kr_state r)) :: (_, KernelError) result)) \<and>
    ((\<exists>f. op_state s = Refreshing f \<and> total_assets (kr_state r) = total_assets s) \<or>
      unat (total_assets (kr_state r)) =
        unat (idle_assets (kr_state r)) + unat (external_assets (kr_state r))) \<and>
    kr_effects r = (case escrow_of (op_state s) of
       None \<Rightarrow> [] | Some (own, n) \<Rightarrow> push_refund_shares [] self own n) @
       [EmitEvent (EmergencyResetCompleted (the (op_id (op_state s))) (kind_code (op_state s)))]"
  proof (cases "op_state s")
    case Idle
    with assms show ?thesis by (simp add: defs)
  next
    case (Allocating a)
    with assms show ?thesis by (auto simp: defs)
  next
    case (Withdrawing w)
    with assms show ?thesis by (auto simp: defs)
  next
    case (Refreshing f)
    with assms show ?thesis by (auto simp: defs)
  next
    case (Payout p)
    with assms show ?thesis by (auto simp: defs)
  qed
  then show "op_state s \<noteq> Idle" and "op_state (kr_state r) = Idle"
    and "unat (idle_assets (kr_state r)) = unat (idle_assets s) + unat (reset_restored (op_state s))"
    and "external_assets (kr_state r) = external_assets s"
    and "total_shares (kr_state r) = total_shares s"
    and "(case escrow_of (op_state s) of
       None \<Rightarrow> withdraw_queue (kr_state r) = withdraw_queue s
     | Some _ \<Rightarrow> \<exists>popped. dequeue (withdraw_queue s) =
         (Ok (popped, withdraw_queue (kr_state r)) :: (_, KernelError) result))"
    and "(\<exists>f. op_state s = Refreshing f \<and> total_assets (kr_state r) = total_assets s) \<or>
      unat (total_assets (kr_state r)) =
        unat (idle_assets (kr_state r)) + unat (external_assets (kr_state r))"
    and "kr_effects r = (case escrow_of (op_state s) of
       None \<Rightarrow> [] | Some (own, n) \<Rightarrow> push_refund_shares [] self own n) @
       [EmitEvent (EmergencyResetCompleted (the (op_id (op_state s))) (kind_code (op_state s)))]"
    by blast+
qed

end
