(* ===== verification/Kernel_Invariants.thy ===== *)
theory Kernel_Invariants
  imports Kernel_Handlers
begin

text \<open>
  The invariant of the vault and the properties of the dispatcher.

  \<^item> \<open>vault_inv\<close> extends the well-formedness of the state by the coupling of the operation in progress
    with the withdrawal queue: a withdrawal or a payout always serves the request at the head.
  \<^item> \<open>kernel_step\<close> is the vault as its executors drive it: kernel actions under any configuration and
    restrictions, and the callbacks that advance the operation in progress.
  \<^item> \<open>execute_spec\<close> says what executing the queue does, in terms of the list of requests.
\<close>

section \<open>Executing the queue\<close>

definition skips :: "RestrictionMode option \<Rightarrow> Address \<Rightarrow> u64 \<times> PendingWithdrawal \<Rightarrow> bool" where
  "skips R self e \<longleftrightarrow>
     pending_withdrawal_skip_reason R self (owner (snd e)) (receiver (snd e)) (expected_assets (snd e))
       \<noteq> None"

definition skip_effects ::
    "RestrictionMode option \<Rightarrow> Address \<Rightarrow> u64 \<times> PendingWithdrawal \<Rightarrow> KernelEffect list" where
  "skip_effects R self e =
     (if 0 < escrow_shares (snd e)
      then [TransferShares self (owner (snd e)) (escrow_shares (snd e))] else []) @
     [EmitEvent (WithdrawalSkipped (fst e) (owner (snd e)) (receiver (snd e)) (escrow_shares (snd e))
       (expected_assets (snd e))
       (the (pending_withdrawal_skip_reason R self (owner (snd e)) (receiver (snd e))
         (expected_assets (snd e)))))]"

definition request_of :: "u64 \<Rightarrow> u64 \<times> PendingWithdrawal \<Rightarrow> WithdrawalRequest" where
  "request_of op e =
     \<lparr>req_op_id = op, req_request_id = fst e, req_amount = expected_assets (snd e),
      req_receiver = receiver (snd e), req_owner = owner (snd e),
      req_escrow_shares = escrow_shares (snd e)\<rparr>"

text \<open>The outcome at the first request that is not skipped.\<close>

definition head_outcome ::
    "VaultConfig \<Rightarrow> TimestampNs \<Rightarrow> VaultState \<Rightarrow> KernelEffect list
      \<Rightarrow> (WithdrawalQueueOutcome \<times> VaultState \<times> KernelEffect list, KernelError) result" where
  "head_outcome c now s es =
     (case queue_list (withdraw_queue s) of
        [] \<Rightarrow> Ok (OutcomeNone, s, es)
      | e # _ \<Rightarrow>
          if \<not> is_past_cooldown (requested_at_ns (snd e)) now (withdrawal_cooldown_ns c)
          then Ok (OutcomeCoolingDown (requested_at_ns (snd e)), s, es)
          else if idle_assets s < expected_assets (snd e)
          then Ok (OutcomeInsufficientLiquidity, s, es)
          else and_then (allocate_op_id s) (\<lambda>(op, s'). Ok (OutcomeReady (request_of op e), s', es)))"

lemma pending_withdrawal_head_list:
  assumes "queue_wf (withdraw_queue s)"
  shows "pending_withdrawal_head s =
    (case queue_list (withdraw_queue s) of
       [] \<Rightarrow> None
     | (i, w) # _ \<Rightarrow> Some \<lparr>head_id = i, head_owner = owner w, head_receiver = receiver w,
         head_escrow_shares = escrow_shares w, head_expected_assets = expected_assets w,
         head_requested_at_ns = requested_at_ns w\<rparr>)"
  by (simp add: pending_withdrawal_head_def queue_head_list [OF assms] split: list.splits)

text \<open>
  The loop drops the longest prefix of requests to skip, in order, and stops at the first other one.
\<close>

lemma next_withdrawal_queue_outcome_wf:
  assumes "queue_wf (withdraw_queue s)" and "queue_list (withdraw_queue s) = xs"
  shows "\<exists>q. queue_wf q \<and> queue_list q = dropWhile (skips R self) xs \<and>
    next_pending_withdrawal_id q = next_pending_withdrawal_id (withdraw_queue s) \<and>
    next_withdrawal_queue_outcome s c R self now es =
      head_outcome c now (s\<lparr>withdraw_queue := q\<rparr>)
        (es @ concat (map (skip_effects R self) (takeWhile (skips R self) xs)))"
  using assms
proof (induction xs arbitrary: s es)
  case Nil
  then show ?case
    by (intro exI [of _ "withdraw_queue s"], subst next_withdrawal_queue_outcome.simps)
      (simp add: pending_withdrawal_head_list head_outcome_def)
next
  case (Cons e xs)
  obtain i w where e: "e = (i, w)" by fastforce
  let ?h = "\<lparr>head_id = i, head_owner = owner w, head_receiver = receiver w,
    head_escrow_shares = escrow_shares w, head_expected_assets = expected_assets w,
    head_requested_at_ns = requested_at_ns w\<rparr>"
  have head: "pending_withdrawal_head s = Some ?h"
    using Cons.prems by (simp add: pending_withdrawal_head_list e)
  show ?case
  proof (cases "skips R self e")
    case False
    then have "pending_withdrawal_skip_reason R self (owner w) (receiver w) (expected_assets w) = None"
      by (simp add: skips_def e)
    then have "next_withdrawal_queue_outcome s c R self now es = head_outcome c now s es"
      using Cons.prems
      by (subst next_withdrawal_queue_outcome.simps)
        (auto simp: head head_outcome_def e classify_withdrawal_head_def request_of_def
          has_actionable_withdrawal_liquidity_def withdrawal_request_from_head_def not_le not_less
          case_prod_beta allocate_op_id_def checked_add_def)
    with False Cons.prems show ?thesis
      by (intro exI [of _ "withdraw_queue s"]) simp
  next
    case True
    then obtain reason where reason:
      "pending_withdrawal_skip_reason R self (owner w) (receiver w) (expected_assets w) = Some reason"
      by (auto simp: skips_def e)
    from dequeue_head [OF Cons.prems(1), of i w xs, where ?'a = KernelError] Cons.prems(2)
    obtain q1 where q1: "dequeue (withdraw_queue s) = (Ok (Some (i, w), q1) :: (_, KernelError) result)"
      "queue_wf q1" "queue_list q1 = xs"
      "next_pending_withdrawal_id q1 = next_pending_withdrawal_id (withdraw_queue s)"
      by (auto simp: e)
    have "next_withdrawal_queue_outcome s c R self now es =
        next_withdrawal_queue_outcome (s\<lparr>withdraw_queue := q1\<rparr>) c R self now
          (es @ skip_effects R self e)"
      by (subst next_withdrawal_queue_outcome.simps)
        (simp add: head classify_withdrawal_head_def reason dequeue_skipped_withdrawal_def q1(1)
          push_refund_shares_def skip_effects_def e)
    with True Cons.IH [of "s\<lparr>withdraw_queue := q1\<rparr>" "es @ skip_effects R self e"] q1
    show ?thesis by simp
  qed
qed

text \<open>Executing the queue, as a function of the list of requests.\<close>

definition execute_spec ::
    "VaultState \<Rightarrow> VaultConfig \<Rightarrow> RestrictionMode option \<Rightarrow> Address \<Rightarrow> TimestampNs \<Rightarrow> WithdrawQueue
      \<Rightarrow> KernelRes" where
  "execute_spec s c R self now q =
     (let es = concat (map (skip_effects R self)
            (takeWhile (skips R self) (queue_list (withdraw_queue s))));
          s' = s\<lparr>withdraw_queue := q\<rparr>
      in
      (case dropWhile (skips R self) (queue_list (withdraw_queue s)) of
         [] \<Rightarrow> if es = [] then Err NoPendingWithdrawals else Ok \<lparr>kr_state = s', kr_effects = es\<rparr>
       | e # _ \<Rightarrow>
           if \<not> is_past_cooldown (requested_at_ns (snd e)) now (withdrawal_cooldown_ns c) then
             if es = [] then Err (Cooldown (requested_at_ns (snd e)) now (withdrawal_cooldown_ns c))
             else Ok \<lparr>kr_state = s', kr_effects = es\<rparr>
           else if idle_assets s < expected_assets (snd e) then
             if es = [] then Err (InvalidState WithdrawalLiquidityBelowMinimum)
             else Ok \<lparr>kr_state = s', kr_effects = es\<rparr>
           else
             and_then (allocate_op_id s') (\<lambda>(op, s'').
             and_then (map_transition_result (start_withdrawal Idle (request_of op e))) (\<lambda>t.
             Ok \<lparr>kr_state = s''\<lparr>op_state := tr_state t\<rparr>, kr_effects = es @ tr_effects t\<rparr>))))"

lemma handle_execute_withdraw_wf:
  assumes "queue_wf (withdraw_queue s)" and "op_state s = Idle" and "\<not> paused c"
  obtains q where "queue_wf q"
    "queue_list q = dropWhile (skips R self) (queue_list (withdraw_queue s))"
    "handle_execute_withdraw s c R self now = execute_spec s c R self now q"
proof -
  from next_withdrawal_queue_outcome_wf [OF assms(1) refl, of R self c now "[]"]
  obtain q where q: "queue_wf q"
    "queue_list q = dropWhile (skips R self) (queue_list (withdraw_queue s))"
    and run: "next_withdrawal_queue_outcome s c R self now [] =
      head_outcome c now (s\<lparr>withdraw_queue := q\<rparr>)
        (concat (map (skip_effects R self) (takeWhile (skips R self) (queue_list (withdraw_queue s)))))"
    by auto
  have idle: "allocate_op_id s' = Ok (op, s'') \<Longrightarrow> op_state s'' = op_state s'" for s' s'' op
    by (auto simp: allocate_op_id_Ok)
  have "handle_execute_withdraw s c R self now = execute_spec s c R self now q"
    using assms(2,3) unfolding handle_execute_withdraw_def run
    by (cases "queue_list q"; cases "allocate_op_id (s\<lparr>withdraw_queue := q\<rparr>) :: (_, KernelError) result")
      (auto simp: is_idle_op_def is_globally_paused_def head_outcome_def execute_spec_def Let_def
        simp flip: q(2) simp: apply_transition_result_def idle and_then_assoc)
  with q show thesis by (rule that)
qed

text \<open>What a successful execution returns: the skipped prefix is refunded, and at most one withdrawal starts.\<close>

definition skipped_prefix ::
    "RestrictionMode option \<Rightarrow> Address \<Rightarrow> VaultState \<Rightarrow> KernelEffect list" where
  "skipped_prefix R self s =
     concat (map (skip_effects R self) (takeWhile (skips R self) (queue_list (withdraw_queue s))))"

lemma skip_effects_sums:
  "minted (concat (map (skip_effects R self) xs)) = 0"
  "burned_total (concat (map (skip_effects R self) xs)) = 0"
  "paid (concat (map (skip_effects R self) xs)) = 0"
  "released self (concat (map (skip_effects R self) xs)) = sum_escrow (map snd xs)"
  by (induction xs) (auto simp: effect_sums skip_effects_def word_gt_0)

lemma handle_execute_withdraw_Ok:
  assumes wf: "queue_wf (withdraw_queue s)"
    and ok: "handle_execute_withdraw s c R self now = Ok r"
  obtains
      (skipped) q where "op_state s = Idle" "queue_wf q"
        "queue_list q = dropWhile (skips R self) (queue_list (withdraw_queue s))"
        "kr_state r = s\<lparr>withdraw_queue := q\<rparr>" "kr_effects r = skipped_prefix R self s"
    | (started) q e xs n where "op_state s = Idle" "queue_wf q"
        "queue_list q = dropWhile (skips R self) (queue_list (withdraw_queue s))"
        "queue_list q = e # xs"
        "is_past_cooldown (requested_at_ns (snd e)) now (withdrawal_cooldown_ns c)"
        "expected_assets (snd e) \<le> idle_assets s"
        "expected_assets (snd e) \<noteq> 0" "escrow_shares (snd e) \<noteq> 0"
        "unat n = unat (next_op_id s) + 1"
        "kr_state r = s\<lparr>withdraw_queue := q, next_op_id := n,
           op_state := Withdrawing (withdrawing_of (request_of (next_op_id s) e))\<rparr>"
        "kr_effects r = skipped_prefix R self s @ [EmitEvent (WithdrawalStarted (next_op_id s)
           (expected_assets (snd e)) (escrow_shares (snd e)) (owner (snd e)) (receiver (snd e)))]"
proof -
  from ok have idle: "op_state s = Idle" and np: "\<not> paused c"
    by (auto simp: handle_execute_withdraw_def is_idle_op_def is_globally_paused_def)
  obtain q where q: "queue_wf q"
    "queue_list q = dropWhile (skips R self) (queue_list (withdraw_queue s))"
    and spec: "handle_execute_withdraw s c R self now = execute_spec s c R self now q"
    by (rule handle_execute_withdraw_wf [OF wf idle np])
  note run = ok [unfolded spec execute_spec_def Let_def, folded q(2) skipped_prefix_def]
  show thesis
  proof (cases "queue_list q")
    case Nil
    show thesis
      by (rule skipped [OF idle q]) (use run Nil in \<open>auto split: if_splits\<close>)
  next
    case (Cons e xs)
    show thesis
    proof (cases "is_past_cooldown (requested_at_ns (snd e)) now (withdrawal_cooldown_ns c) \<and>
        expected_assets (snd e) \<le> idle_assets s")
      case True
      with run Cons obtain n where n: "unat n = unat (next_op_id s) + 1"
        and nz: "expected_assets (snd e) \<noteq> 0" "escrow_shares (snd e) \<noteq> 0"
        and r: "r = \<lparr>kr_state = s\<lparr>withdraw_queue := q, next_op_id := n,
           op_state := Withdrawing (withdrawing_of (request_of (next_op_id s) e))\<rparr>,
         kr_effects = skipped_prefix R self s @ [EmitEvent (WithdrawalStarted (next_op_id s)
           (expected_assets (snd e)) (escrow_shares (snd e)) (owner (snd e)) (receiver (snd e)))]\<rparr>"
        by (auto simp: word_guard allocate_op_id_Ok start_withdrawal_def is_idle_op_def request_of_def)
      show thesis
        by (rule started [OF idle q Cons _ _ nz n]) (use True r in simp_all)
    next
      case False
      show thesis
        by (rule skipped [OF idle q]) (use run Cons False in \<open>auto simp: not_le split: if_splits\<close>)
    qed
  qed
qed

section \<open>The share supply\<close>

definition supply_balance :: "VaultState \<Rightarrow> KernelEffect list \<Rightarrow> VaultState \<Rightarrow> bool" where
  "supply_balance s es s' \<longleftrightarrow>
     unat (total_shares s') + burned_total es = unat (total_shares s) + minted es"

lemma push_refund_sums [effect_sums]:
  "minted (push_refund_shares es a b n) = minted es"
  "burned_total (push_refund_shares es a b n) = burned_total es"
  "paid (push_refund_shares es a b n) = paid es"
  "released a (push_refund_shares es a b n) = released a es + unat n"
  by (simp_all add: push_refund_shares_def effect_sums)

text \<open>Effects that move neither shares nor assets.\<close>

definition neutral :: "KernelEffect list \<Rightarrow> bool" where
  "neutral es \<longleftrightarrow> (\<forall>e \<in> set es. \<exists>v. e = EmitEvent v)"

lemma neutral_simps [simp]:
  "neutral []" "neutral (EmitEvent v # es) \<longleftrightarrow> neutral es"
  "neutral (es @ es') \<longleftrightarrow> neutral es \<and> neutral es'"
  by (auto simp: neutral_def)

lemma neutral_sums:
  assumes "neutral es"
  shows "minted es = 0" and "burned_total es = 0" and "paid es = 0" and "released a es = 0"
  using assms by (induction es) (auto simp: neutral_def effect_sums)

lemma transition_neutral:
  "start_allocation st plan op = Ok t \<Longrightarrow> neutral (tr_effects t)"
  "allocation_step_callback st ok n op = Ok t \<Longrightarrow> neutral (tr_effects t)"
  "complete_allocation st op req = Ok t \<Longrightarrow> neutral (tr_effects t)"
  "withdrawal_step_callback st op n = Ok t \<Longrightarrow> neutral (tr_effects t)"
  "withdrawal_collected st op b = Ok t \<Longrightarrow> neutral (tr_effects t)"
  "withdrawal_settled st op n b = Ok t \<Longrightarrow> neutral (tr_effects t)"
  "start_refresh st rplan op = Ok t \<Longrightarrow> neutral (tr_effects t)"
  "refresh_step_callback st op = Ok t \<Longrightarrow> neutral (tr_effects t)"
  "complete_refresh st op = Ok t \<Longrightarrow> neutral (tr_effects t)"
  by (auto simp: start_allocation_def allocation_step_Ok complete_allocation_def withdrawal_step_Ok
    withdrawal_collected_def withdrawal_settled_Ok start_refresh_def refresh_step_callback_def
    complete_refresh_def Let_def split: OpState.splits if_splits option.splits)

lemma neutral_supply: "neutral es \<Longrightarrow> total_shares s' = total_shares s \<Longrightarrow> supply_balance s es s'"
  by (simp add: supply_balance_def neutral_sums)

lemma exit_supply:
  assumes "exits s1 es own recv operator shares amount r" and "only_mints es"
    and "unat (total_shares s1) = unat (total_shares s) + minted es"
  shows "supply_balance s (kr_effects r) (kr_state r)"
  using assms exits_sums [OF assms(1,2)] by (simp add: supply_balance_def exits_def)

lemma handler_supply:
  "handle_deposit F P s c R self own recv n m now = Ok r \<Longrightarrow> supply_balance s (kr_effects r) (kr_state r)"
  "handle_atomic_withdraw F P s c R self own recv operator n m now = Ok r \<Longrightarrow>
    supply_balance s (kr_effects r) (kr_state r)"
  "handle_atomic_redeem F P s c R self own recv operator n m now = Ok r \<Longrightarrow>
    supply_balance s (kr_effects r) (kr_state r)"
  "handle_request_withdraw F P s c R self own recv n m now = Ok r \<Longrightarrow>
    supply_balance s (kr_effects r) (kr_state r)"
  "handle_refresh_fees P s c now = Ok r \<Longrightarrow> supply_balance s (kr_effects r) (kr_state r)"
  "handle_begin_allocating s op plan = Ok r \<Longrightarrow> supply_balance s (kr_effects r) (kr_state r)"
  "handle_sync_external_assets s n op = Ok r \<Longrightarrow> supply_balance s (kr_effects r) (kr_state r)"
  "handle_rebalance_withdraw s op n = Ok r \<Longrightarrow> supply_balance s (kr_effects r) (kr_state r)"
  "handle_abort_refreshing s op = Ok r \<Longrightarrow> supply_balance s (kr_effects r) (kr_state r)"
  "handle_abort_allocating s op = Ok r \<Longrightarrow> supply_balance s (kr_effects r) (kr_state r)"
  "handle_abort_withdrawing s self op = Ok r \<Longrightarrow> supply_balance s (kr_effects r) (kr_state r)"
  "handle_settle_payout s self op outcome = Ok r \<Longrightarrow> supply_balance s (kr_effects r) (kr_state r)"
  "handle_emergency_reset s self = Ok r \<Longrightarrow> supply_balance s (kr_effects r) (kr_state r)"
  subgoal
    by (erule handle_deposit_Ok, frule deposit_refresh_Ok(2), drule deposit_refresh_Ok(3))
      (simp add: supply_balance_def effect_sums)
  subgoal
    by (erule handle_atomic_withdraw_Ok, frule exit_refresh_Ok(2), drule exit_refresh_Ok(3))
      (rule exit_supply)
  subgoal
    by (erule handle_atomic_redeem_Ok, frule exit_refresh_Ok(2), drule exit_refresh_Ok(3))
      (rule exit_supply)
  subgoal
    by (erule handle_request_withdraw_Ok, frule exit_refresh_Ok(2), drule exit_refresh_Ok(3))
      (simp add: supply_balance_def effect_sums)
  subgoal by (simp add: supply_balance_def handle_refresh_fees_Ok)
  subgoal
    by (erule handle_begin_allocating_Ok, drule transition_neutral) (simp add: neutral_supply)
  subgoal by (auto simp: supply_balance_def handle_sync_external_assets_Ok effect_sums)
  subgoal by (simp add: supply_balance_def handle_rebalance_withdraw_Ok)
  subgoal by (auto simp: supply_balance_def handle_abort_refreshing_Ok effect_sums)
  subgoal by (auto simp: supply_balance_def handle_abort_allocating_Ok restore_to_idle_Ok effect_sums)
  subgoal
    by (auto simp: supply_balance_def handle_abort_withdrawing_Ok restore_to_idle_Ok effect_sums)
  subgoal by (erule handle_settle_payout_Ok) (simp add: supply_balance_def effect_sums)
  subgoal
    by (frule handle_emergency_reset_Ok(5), drule handle_emergency_reset_Ok(8))
      (auto simp: supply_balance_def effect_sums split: option.splits)
  done

lemma apply_action_supply:
  assumes "queue_wf (withdraw_queue s)" and "apply_action F P s c R self a = Ok r"
  shows "supply_balance s (kr_effects r) (kr_state r)"
proof (cases a)
  case (ExecuteWithdraw now)
  with assms show ?thesis
    by (auto simp: supply_balance_def effect_sums skipped_prefix_def skip_effects_sums
      elim!: handle_execute_withdraw_Ok)
qed (use assms in \<open>auto simp: when_feature_def handle_finish_allocating_def apply_transition_result_Ok
    neutral_supply dest!: transition_neutral dest: handler_supply split: if_splits\<close>)

section \<open>The invariant\<close>

text \<open>The operation in progress and the queue: who is served, and how much.\<close>

fun op_coupled :: "WithdrawQueue \<Rightarrow> OpState \<Rightarrow> bool" where
  "op_coupled q (Withdrawing w) =
     (case queue_head q of
        None \<Rightarrow> False
      | Some (h, pw) \<Rightarrow>
          h = wd_request_id w \<and> owner pw = wd_owner w \<and> receiver pw = wd_receiver w \<and>
          escrow_shares pw = wd_escrow_shares w \<and>
          unat (wd_remaining w) + unat (wd_collected w) = unat (expected_assets pw))"
| "op_coupled q (Payout p) =
     (case queue_head q of
        None \<Rightarrow> False
      | Some (h, pw) \<Rightarrow>
          h = payout_request_id p \<and> owner pw = payout_owner p \<and> receiver pw = payout_receiver p \<and>
          escrow_shares pw = payout_escrow_shares p \<and> payout_amount p \<le> expected_assets pw)"
| "op_coupled q _ = True"

definition vault_inv :: "VaultState \<Rightarrow> bool" where
  "vault_inv s \<longleftrightarrow>
     vault_wf s \<and> op_wf (op_state s) \<and> op_coupled (withdraw_queue s) (op_state s) \<and>
     (\<forall>e \<in> set (queue_list (withdraw_queue s)). escrow_shares (snd e) \<noteq> 0)"

lemma vault_inv_intro:
  assumes "assets_balanced s" and "queue_wf (withdraw_queue s)" and "op_wf (op_state s)"
    and "op_coupled (withdraw_queue s) (op_state s)"
    and "\<And>e. e \<in> set (queue_list (withdraw_queue s)) \<Longrightarrow> escrow_shares (snd e) \<noteq> 0"
  shows "vault_inv s"
  using assms by (simp add: vault_inv_def vault_wf_def)

text \<open>The parts of the state the invariant reads, for states that agree on them.\<close>

lemma vault_inv_same_queue:
  assumes "vault_inv s" and "withdraw_queue s' = withdraw_queue s" and "op_state s' = op_state s"
    and "assets_balanced s'"
  shows "vault_inv s'"
  using assms by (simp add: vault_inv_def vault_wf_def)

lemma vault_inv_op:
  assumes "vault_inv s" and "withdraw_queue s' = withdraw_queue s" and "assets_balanced s'"
    and "op_wf (op_state s')" and "op_coupled (withdraw_queue s) (op_state s')"
  shows "vault_inv s'"
  using assms by (simp add: vault_inv_def vault_wf_def)

lemma vault_inv_dequeued:
  assumes "vault_inv s" and "assets_balanced s'" and "op_state s' = Idle"
    and "dequeue (withdraw_queue s) = (Ok (popped, withdraw_queue s') :: (_, KernelError) result)"
  shows "vault_inv s'"
proof (rule vault_inv_intro)
  have q: "queue_wf (withdraw_queue s)" using assms(1) by (simp add: vault_inv_def vault_wf_def)
  show "queue_wf (withdraw_queue s')" using q assms(4) by (rule dequeue_wf)
  fix e assume "e \<in> set (queue_list (withdraw_queue s'))"
  with dequeue_wf(2) [OF q assms(4)] have "e \<in> set (queue_list (withdraw_queue s))" by simp
  with assms(1) show "escrow_shares (snd e) \<noteq> 0" by (simp add: vault_inv_def)
qed (use assms in simp_all)

lemma balanced_same_but_fees: "same_but_fees s s' \<Longrightarrow> assets_balanced s' \<longleftrightarrow> assets_balanced s"
  by (simp add: assets_balanced_def same_but_fees_fields)

lemma vault_inv_fees: "vault_inv s \<Longrightarrow> same_but_fees s s' \<Longrightarrow> vault_inv s'"
  by (rule vault_inv_same_queue)
    (simp_all add: same_but_fees_fields balanced_same_but_fees vault_inv_def vault_wf_def)

lemma vault_inv_balanced: "vault_inv s \<Longrightarrow> assets_balanced s"
  by (simp add: vault_inv_def vault_wf_def)

lemma vault_inv_queue: "vault_inv s \<Longrightarrow> queue_wf (withdraw_queue s)"
  by (simp add: vault_inv_def vault_wf_def)

lemma vault_inv_new: "vault_inv vault_new"
  using vault_wf_new by (simp add: vault_inv_def) (simp add: vault_new_def queue_wf_new(2))

subsection \<open>Handlers\<close>

lemma handle_deposit_inv:
  assumes "vault_inv s" and "handle_deposit F P s c R self own recv n m now = Ok r"
  shows "vault_inv (kr_state r)"
proof -
  obtain s1 es shares where refresh: "deposit_refresh F P s c now = Ok (s1, es)"
    and st: "unat (total_assets (kr_state r)) = unat (total_assets s1) + unat n"
    "unat (idle_assets (kr_state r)) = unat (idle_assets s1) + unat n"
    "external_assets (kr_state r) = external_assets s1"
    "op_state (kr_state r) = op_state s1" "withdraw_queue (kr_state r) = withdraw_queue s1"
    using assms(2) by (rule handle_deposit_Ok)
  have "vault_inv s1" using assms(1) deposit_refresh_Ok(1) [OF refresh] by (rule vault_inv_fees)
  then show ?thesis
    by (rule vault_inv_same_queue)
      (use st vault_inv_balanced [OF \<open>vault_inv s1\<close>] in \<open>simp_all add: assets_balanced_def\<close>)
qed

lemma exits_inv:
  assumes "vault_inv s" and "refresh_fees_before_value_transfer F P s c now = Ok (s1, es)"
    and "exits s1 es own recv operator shares amount r"
  shows "vault_inv (kr_state r)"
proof -
  have s1: "vault_inv s1" using assms(1) exit_refresh_Ok(1) [OF assms(2)] by (rule vault_inv_fees)
  then show ?thesis
    by (rule vault_inv_same_queue)
      (use assms(3) vault_inv_balanced [OF s1] in \<open>simp_all add: exits_def assets_balanced_def\<close>)
qed

lemma handle_request_withdraw_inv:
  assumes "vault_inv s" and "handle_request_withdraw F P s c R self own recv n m now = Ok r"
  shows "vault_inv (kr_state r)"
proof -
  obtain s1 es expected i q w where refresh: "refresh_fees_before_value_transfer F P s c now = Ok (s1, es)"
    and w: "w = \<lparr>owner = own, receiver = recv, escrow_shares = n, expected_assets = expected,
       requested_at_ns = now\<rparr>"
    and enq: "enqueue_withdrawal (withdraw_queue s1) w (max_pending_withdrawals c) = Ok (i, q)"
    and idle: "op_state s = Idle" and n: "n \<noteq> 0" and r: "kr_state r = s1\<lparr>withdraw_queue := q\<rparr>"
    using assms(2) by (rule handle_request_withdraw_Ok)
  note same = exit_refresh_Ok(1) [OF refresh]
  have s1: "vault_inv s1" using assms(1) same by (rule vault_inv_fees)
  note q = enqueue_withdrawal_wf [OF vault_inv_queue [OF s1] enq]
  show ?thesis
    by (rule vault_inv_intro)
      (use s1 q n idle same_but_fees_fields [OF same] in
        \<open>auto simp: r vault_inv_def vault_wf_def assets_balanced_def w\<close>)
qed

lemma handle_execute_withdraw_inv:
  assumes "vault_inv s" and "handle_execute_withdraw s c R self now = Ok r"
  shows "vault_inv (kr_state r)"
proof -
  have funded: "escrow_shares (snd e) \<noteq> 0"
    if "queue_list q = dropWhile (skips R self) (queue_list (withdraw_queue s))"
      "e \<in> set (queue_list q)" for q e
    using that assms(1) set_dropWhileD [of e "skips R self" "queue_list (withdraw_queue s)"]
    by (simp add: vault_inv_def)
  from vault_inv_queue [OF assms(1)] assms(2) show ?thesis
  proof (cases rule: handle_execute_withdraw_Ok)
    case (skipped q)
    show ?thesis
      by (rule vault_inv_intro)
        (use skipped funded vault_inv_balanced [OF assms(1)] in \<open>auto simp: assets_balanced_def\<close>)
  next
    case (started q e xs n)
    have "queue_head q = Some e"
      using started(4) by (simp add: queue_head_list [OF started(2)])
    then have "op_coupled q (Withdrawing (withdrawing_of (request_of (next_op_id s) e)))"
      by (cases e) (simp add: withdrawing_of_def request_of_def)
    then show ?thesis
      by (intro vault_inv_intro)
        (use started(2,3,8,10) funded vault_inv_balanced [OF assms(1)] in
          \<open>auto simp: assets_balanced_def withdrawing_of_def request_of_def u128_bound\<close>)
  qed
qed

lemma handle_settle_payout_inv:
  assumes "vault_inv s" and "handle_settle_payout s self op outcome = Ok r"
  shows "vault_inv (kr_state r)"
proof -
  obtain p popped where "op_state s = Payout p"
    and deq: "dequeue (withdraw_queue s) =
      (Ok (popped, withdraw_queue (kr_state r)) :: (_, KernelError) result)"
    and idle: "unat (idle_assets s) = unat (idle_assets (kr_state r)) + unat (settled_amount p outcome)"
    and ext: "external_assets (kr_state r) = external_assets s"
    and ok: "outcome = Success \<Longrightarrow> unat (total_assets (kr_state r)) =
      unat (idle_assets (kr_state r)) + unat (external_assets (kr_state r))"
    and fail: "outcome = Failure \<Longrightarrow> total_assets (kr_state r) = total_assets s"
    and op: "op_state (kr_state r) = Idle"
    using assms(2) by (rule handle_settle_payout_Ok) blast
  have "assets_balanced (kr_state r)"
  proof (cases outcome)
    case Success
    with ok show ?thesis by (simp add: assets_balanced_def)
  next
    case Failure
    have "idle_assets (kr_state r) = idle_assets s"
      using idle by (simp add: Failure settled_amount_def word_eq_nat [where ?'a = 128])
    with fail [OF Failure] ext vault_inv_balanced [OF assms(1)] show ?thesis
      by (simp add: assets_balanced_def)
  qed
  from assms(1) this op deq show ?thesis by (rule vault_inv_dequeued)
qed

lemma handle_emergency_reset_inv:
  assumes "vault_inv s" and "handle_emergency_reset s self = Ok r"
  shows "vault_inv (kr_state r)"
proof -
  note reset = handle_emergency_reset_Ok [OF assms(2)]
  have bal: "assets_balanced (kr_state r)"
    using reset(3,4,7) vault_inv_balanced [OF assms(1)] by (auto simp: assets_balanced_def)
  show ?thesis
  proof (cases "escrow_of (op_state s)")
    case None
    show ?thesis by (rule vault_inv_op [OF assms(1)]) (use None reset(2,6) bal in simp_all)
  next
    case (Some x)
    with reset(6) obtain popped where "dequeue (withdraw_queue s) =
        (Ok (popped, withdraw_queue (kr_state r)) :: (_, KernelError) result)"
      by auto
    with assms(1) bal reset(2) show ?thesis by (rule vault_inv_dequeued)
  qed
qed

lemma restore_to_idle_balanced: "restore_to_idle s n = Ok s' \<Longrightarrow> assets_balanced s'"
  by (auto simp: restore_to_idle_Ok assets_balanced_def)

lemma handle_abort_withdrawing_inv:
  assumes "vault_inv s" and "handle_abort_withdrawing s self op = Ok r"
  shows "vault_inv (kr_state r)"
proof -
  from assms(2) obtain w :: WithdrawingState and s' popped q where
    restore: "restore_to_idle s (wd_collected w) = (Ok s' :: (_, KernelError) result)"
    and deq: "dequeue (withdraw_queue s) = (Ok (popped, q) :: (_, KernelError) result)"
    and r: "r = \<lparr>kr_state = s'\<lparr>op_state := Idle, withdraw_queue := q\<rparr>,
      kr_effects = push_refund_shares [] self (wd_owner w) (wd_escrow_shares w) @
        [EmitEvent (WithdrawalStopped op (wd_escrow_shares w))]\<rparr>"
    unfolding handle_abort_withdrawing_Ok by blast
  show ?thesis
    by (rule vault_inv_dequeued [OF assms(1), where popped = popped])
      (use restore_to_idle_balanced [OF restore] deq in \<open>simp_all add: r assets_balanced_def\<close>)
qed

lemma handle_abort_allocating_inv:
  assumes "vault_inv s" and "handle_abort_allocating s op = Ok r"
  shows "vault_inv (kr_state r)"
proof -
  from assms(2) obtain a :: AllocatingState and s' where
    restore: "restore_to_idle s (alloc_remaining a) = (Ok s' :: (_, KernelError) result)"
    and r: "kr_state r = s'\<lparr>op_state := Idle\<rparr>"
    by (auto simp: handle_abort_allocating_Ok)
  show ?thesis
    by (rule vault_inv_op [OF assms(1)])
      (use restore_to_idle_balanced [OF restore] restore_to_idle_op_state [OF restore] in
        \<open>simp_all add: r assets_balanced_def\<close>)
qed

lemma handle_begin_allocating_inv:
  assumes "vault_inv s" and "handle_begin_allocating s op plan = Ok r"
  shows "vault_inv (kr_state r)"
proof -
  obtain t a where t: "start_allocation (op_state s) plan op = Ok t" "tr_state t = Allocating a"
    and bal: "unat (total_assets (kr_state r)) =
      unat (idle_assets (kr_state r)) + unat (external_assets (kr_state r))"
    and q: "withdraw_queue (kr_state r) = withdraw_queue s" "op_state (kr_state r) = tr_state t"
    using assms(2) by (rule handle_begin_allocating_Ok)
  have "op_wf (tr_state t)"
    using assms(1) start_allocation_step [OF t(1)] by (simp add: vault_inv_def)
  then show ?thesis
    by (intro vault_inv_op [OF assms(1)]) (use q bal t(2) in \<open>simp_all add: assets_balanced_def\<close>)
qed

lemma handler_inv_simple:
  "vault_inv s \<Longrightarrow> handle_refresh_fees P s c now = Ok r \<Longrightarrow> vault_inv (kr_state r)"
  "vault_inv s \<Longrightarrow> handle_sync_external_assets s n op = Ok r \<Longrightarrow> vault_inv (kr_state r)"
  "vault_inv s \<Longrightarrow> handle_rebalance_withdraw s op n = Ok r \<Longrightarrow> vault_inv (kr_state r)"
  "vault_inv s \<Longrightarrow> handle_abort_refreshing s op = Ok r \<Longrightarrow> vault_inv (kr_state r)"
  subgoal by (rule vault_inv_fees, assumption, rule handle_refresh_fees_Ok)
  subgoal
    by (rule vault_inv_same_queue, assumption)
      (auto simp: handle_sync_external_assets_Ok assets_balanced_def)
  subgoal
    by (rule vault_inv_same_queue, assumption)
      (simp_all add: handle_rebalance_withdraw_Ok assets_balanced_def)
  subgoal
    by (rule vault_inv_op, assumption)
      (auto simp: handle_abort_refreshing_Ok assets_balanced_def dest: vault_inv_balanced)
  done

text \<open>A transition applied to the operation in progress keeps the invariant if it keeps the coupling.\<close>

lemma apply_transition_inv:
  assumes "vault_inv s" and "op_wf st" and "op_coupled (withdraw_queue s) st"
  shows "vault_inv (s\<lparr>op_state := st\<rparr>)"
  by (rule vault_inv_op [OF assms(1)])
    (use assms vault_inv_balanced [OF assms(1)] in \<open>simp_all add: assets_balanced_def\<close>)

lemma apply_action_inv:
  assumes "vault_inv s" and "apply_action F P s c R self a = Ok r"
  shows "vault_inv (kr_state r)"
proof (cases a)
  case (FinishAllocating op now)
  with assms obtain t where t: "complete_allocation (op_state s) op None = Ok t"
    and r: "kr_state r = s\<lparr>op_state := tr_state t\<rparr>"
    by (auto simp: when_feature_def handle_finish_allocating_def apply_transition_result_Ok
      split: if_splits)
  then have "tr_state t = Idle" by (auto simp: complete_allocation_def split: OpState.splits if_splits)
  then show ?thesis using assms(1) by (simp add: r apply_transition_inv)
next
  case (BeginRefreshing op rplan now)
  with assms obtain t where t: "start_refresh (op_state s) rplan op = Ok t"
    and r: "kr_state r = s\<lparr>op_state := tr_state t\<rparr>"
    by (auto simp: when_feature_def apply_transition_result_Ok split: if_splits)
  then obtain f where "tr_state t = Refreshing f" by (auto simp: start_refresh_def split: if_splits)
  moreover have "op_wf (tr_state t)"
    using assms(1) start_refresh_step [OF t] by (simp add: vault_inv_def)
  ultimately show ?thesis using assms(1) by (simp add: r apply_transition_inv)
next
  case (FinishRefreshing op now)
  with assms obtain t where t: "complete_refresh (op_state s) op = Ok t"
    and r: "kr_state r = s\<lparr>op_state := tr_state t\<rparr>"
    by (auto simp: when_feature_def apply_transition_result_Ok split: if_splits)
  then have "tr_state t = Idle" by (auto simp: complete_refresh_def split: OpState.splits if_splits)
  then show ?thesis using assms(1) by (simp add: r apply_transition_inv)
next
  case (AtomicWithdraw own recv operator n m now)
  with assms show ?thesis by (auto elim!: handle_atomic_withdraw_Ok intro: exits_inv)
next
  case (AtomicRedeem own recv operator n m now)
  with assms show ?thesis by (auto elim!: handle_atomic_redeem_Ok intro: exits_inv)
qed (use assms in \<open>auto simp: when_feature_def split: if_splits intro: handle_deposit_inv
    handle_request_withdraw_inv handle_execute_withdraw_inv handle_settle_payout_inv
    handle_emergency_reset_inv handle_abort_withdrawing_inv handle_abort_allocating_inv
    handle_begin_allocating_inv handler_inv_simple\<close>)

end
