(* ===== verification/Kernel_Machine.thy ===== *)
theory Kernel_Machine
  imports Kernel_Invariants
begin

text \<open>
  The vault as its executors drive it, a machine of kernel actions and callbacks: its invariant and its
  share supply along every run, the absence of panics, and the lemmas on prices, fees and payouts that
  the properties of the kernel rest on.
\<close>

section \<open>The vault as a machine\<close>

text \<open>
  The executors apply kernel actions, under a configuration and restrictions of their own that may
  change between actions, and replace the operation in progress by the result of a callback.
\<close>

inductive kernel_step ::
    "features \<Rightarrow> primitive_types \<Rightarrow> Address \<Rightarrow> VaultState \<Rightarrow> KernelEffect list \<Rightarrow> VaultState \<Rightarrow> bool"
  for F P self where
  step_action: "apply_action F P s c R self a = Ok r \<Longrightarrow>
    kernel_step F P self s (kr_effects r) (kr_state r)"
| step_allocated: "allocation_step_callback (op_state s) ok n op = Ok t \<Longrightarrow>
    kernel_step F P self s (tr_effects t) (s\<lparr>op_state := tr_state t\<rparr>)"
| step_withdrawn: "withdrawal_step_callback (op_state s) op n = Ok t \<Longrightarrow>
    kernel_step F P self s (tr_effects t) (s\<lparr>op_state := tr_state t\<rparr>)"
| step_all_collected: "withdrawal_collected (op_state s) op burn = Ok t \<Longrightarrow>
    kernel_step F P self s (tr_effects t) (s\<lparr>op_state := tr_state t\<rparr>)"
| step_settle: "withdrawal_settled (op_state s) op n burn = Ok t \<Longrightarrow>
    kernel_step F P self s (tr_effects t) (s\<lparr>op_state := tr_state t\<rparr>)"
| step_refreshed: "refresh_step_callback (op_state s) op = Ok t \<Longrightarrow>
    kernel_step F P self s (tr_effects t) (s\<lparr>op_state := tr_state t\<rparr>)"

text \<open>A run with all the effects it has asked for.\<close>

inductive kernel_run ::
    "features \<Rightarrow> primitive_types \<Rightarrow> Address \<Rightarrow> VaultState \<Rightarrow> KernelEffect list \<Rightarrow> VaultState \<Rightarrow> bool"
  for F P self where
  run_refl: "kernel_run F P self s [] s"
| run_step: "kernel_run F P self s es s' \<Longrightarrow> kernel_step F P self s' es' s'' \<Longrightarrow>
    kernel_run F P self s (es @ es') s''"

lemma op_coupled_advance:
  assumes "vault_inv s" and "op_state s = Withdrawing w" and "n \<le> wd_remaining w"
  shows "op_coupled (withdraw_queue s) (Withdrawing (wd_advance w n))"
    and "op_coupled (withdraw_queue s) (Payout (payout_of (wd_advance w n) burn))"
proof -
  from assms have room: "unat (wd_remaining w) + unat (wd_collected w) < 2 ^ 128"
    by (simp add: vault_inv_def)
  note adv = wd_advance_balance [OF assms(3) room]
  from assms(1,2) show "op_coupled (withdraw_queue s) (Withdrawing (wd_advance w n))"
    using adv(3) by (auto simp: vault_inv_def split: option.splits)
  from assms show "op_coupled (withdraw_queue s) (Payout (payout_of (wd_advance w n) burn))"
    using adv(2) by (auto simp: vault_inv_def payout_of_def word_le_nat_alt split: option.splits)
qed

lemma op_coupled_collected:
  assumes "vault_inv s" and "op_state s = Withdrawing w"
  shows "op_coupled (withdraw_queue s) (Payout (payout_of w burn))"
  using assms by (auto simp: vault_inv_def payout_of_def word_le_nat_alt split: option.splits)

lemma callback_inv:
  assumes "vault_inv s"
  shows "allocation_step_callback (op_state s) ok n op = Ok t \<Longrightarrow> vault_inv (s\<lparr>op_state := tr_state t\<rparr>)"
    and "withdrawal_step_callback (op_state s) op n = Ok t \<Longrightarrow> vault_inv (s\<lparr>op_state := tr_state t\<rparr>)"
    and "withdrawal_collected (op_state s) op burn = Ok t \<Longrightarrow> vault_inv (s\<lparr>op_state := tr_state t\<rparr>)"
    and "withdrawal_settled (op_state s) op n burn = Ok t \<Longrightarrow> vault_inv (s\<lparr>op_state := tr_state t\<rparr>)"
    and "refresh_step_callback (op_state s) op = Ok t \<Longrightarrow> vault_inv (s\<lparr>op_state := tr_state t\<rparr>)"
proof -
  have wf: "op_wf (op_state s)" using assms by (simp add: vault_inv_def)
  note keep = apply_transition_inv [OF assms]
  {
    assume t: "allocation_step_callback (op_state s) ok n op = Ok t"
    then have "op_coupled (withdraw_queue s) (tr_state t)"
      by (auto simp: allocation_step_Ok split: if_splits)
    then show "vault_inv (s\<lparr>op_state := tr_state t\<rparr>)"
      using allocation_step_callback_step [OF t] wf by (intro keep) simp_all
  next
    assume t: "withdrawal_step_callback (op_state s) op n = Ok t"
    then have "op_coupled (withdraw_queue s) (tr_state t)"
      using op_coupled_advance(1) [OF assms] by (auto simp: withdrawal_step_Ok)
    then show "vault_inv (s\<lparr>op_state := tr_state t\<rparr>)"
      using withdrawal_step_callback_step [OF t] wf by (intro keep) simp_all
  next
    assume t: "withdrawal_collected (op_state s) op burn = Ok t"
    then have "op_coupled (withdraw_queue s) (tr_state t)"
      using op_coupled_collected [OF assms]
      by (auto simp: withdrawal_collected_def split: OpState.splits if_splits)
    then show "vault_inv (s\<lparr>op_state := tr_state t\<rparr>)"
      using withdrawal_collected_step [OF t] wf by (intro keep) simp_all
  next
    assume t: "withdrawal_settled (op_state s) op n burn = Ok t"
    then have "op_coupled (withdraw_queue s) (tr_state t)"
      using op_coupled_advance(2) [OF assms] by (auto simp: withdrawal_settled_Ok)
    then show "vault_inv (s\<lparr>op_state := tr_state t\<rparr>)"
      using withdrawal_settled_step [OF t] wf by (intro keep) simp_all
  next
    assume t: "refresh_step_callback (op_state s) op = Ok t"
    then have "op_coupled (withdraw_queue s) (tr_state t)"
      by (auto simp: refresh_step_callback_def split: OpState.splits if_splits)
    then show "vault_inv (s\<lparr>op_state := tr_state t\<rparr>)"
      using refresh_step_callback_step [OF t] wf by (intro keep) simp_all
  }
qed

lemma kernel_step_inv: "kernel_step F P self s es s' \<Longrightarrow> vault_inv s \<Longrightarrow> vault_inv s'"
  by (erule kernel_step.cases) (auto intro: apply_action_inv callback_inv)

lemma kernel_step_supply:
  "kernel_step F P self s es s' \<Longrightarrow> vault_inv s \<Longrightarrow> supply_balance s es s'"
  by (erule kernel_step.cases)
    (auto simp: neutral_supply dest!: transition_neutral dest: apply_action_supply [rotated]
      vault_inv_queue)

interpretation kernel: state_machine "\<lambda>s. s = vault_new"
    "\<lambda>s s'. \<exists>es. kernel_step F P self s es s'" vault_inv for F P self
  by unfold_locales (auto simp: vault_inv_new intro: kernel_step_inv)

lemma kernel_run_steps:
  "kernel_run F P self s es s' \<Longrightarrow> (\<lambda>s s'. \<exists>es. kernel_step F P self s es s')\<^sup>*\<^sup>* s s'"
  by (induction rule: kernel_run.induct) (auto intro: rtranclp.rtrancl_into_rtrancl)

lemma kernel_run_inv: "kernel_run F P self vault_new es s \<Longrightarrow> vault_inv s"
  using kernel.reachable_inv kernel_run_steps by blast

lemma kernel_run_supply:
  assumes "kernel_run F P self s es s'" and "vault_inv s"
  shows "supply_balance s es s'"
  using assms
proof (induction rule: kernel_run.induct)
  case (run_step s es s' es' s'')
  have "vault_inv s'"
    using kernel.steps_inv [OF kernel_run_steps [OF run_step.hyps(1)]] run_step.prems .
  with run_step show ?case
    using kernel_step_supply [OF run_step.hyps(2)] by (simp add: supply_balance_def effect_sums)
qed (simp add: supply_balance_def effect_sums)

section \<open>No panic\<close>

lemma sync_total_assets_not_Panic:
  "unat (idle_assets s) + unat (external_assets s) < 2 ^ 128 \<Longrightarrow> sync_total_assets s \<noteq> Panic"
  by (auto simp: sync_total_assets_def and_then_eq_Panic checked_add_eq_None)

lemma restore_to_idle_not_Panic:
  assumes "unat (idle_assets s) + unat (external_assets s) + unat n < 2 ^ 128"
  shows "restore_to_idle s n \<noteq> Panic"
proof -
  have "sync_total_assets (s\<lparr>idle_assets := i\<rparr>) \<noteq> Panic" if "unat i = unat (idle_assets s) + unat n" for i
    using assms that by (intro sync_total_assets_not_Panic) simp
  with assms show ?thesis
    by (auto simp: restore_to_idle_def and_then_eq_Panic checked_add_eq_None checked_add_eq_Some)
qed

lemma dequeue_wf_not_Panic: "queue_wf q \<Longrightarrow> dequeue q \<noteq> (Panic :: (_, 'e) result)"
  using dequeue_not_Panic [of q, where ?'e = 'e] by auto

text \<open>What the operation in progress could still return to the idle assets fits, and ids are left.\<close>

definition no_overflow :: "VaultState \<Rightarrow> bool" where
  "no_overflow s \<longleftrightarrow>
     unat (idle_assets s) + unat (external_assets s) + unat (reset_restored (op_state s)) < 2 ^ 128 \<and>
     next_op_id s \<noteq> max_value"

lemma guards_not_Panic [simp]:
  "enforce_restrictions c R self a \<noteq> Panic"
  "enforce_withdrawal_actors c R self own recv \<noteq> Panic"
  "require_idle_with_nonzero_amount s e n \<noteq> Panic"
  "require_active_op_id st i e \<noteq> Panic" "check_op_id i j \<noteq> Panic"
  "validate_queue_head q i own recv esc \<noteq> Panic"
  "plan_payout_settlement p outcome \<noteq> Panic"
  by (auto simp: enforce_restrictions_def enforce_withdrawal_actors_def and_then_eq_Panic
    require_idle_with_nonzero_amount_def require_active_op_id_def check_op_id_def
    validate_queue_head_def plan_payout_settlement_def split: option.splits PayoutOutcome.splits)

lemma quotes_not_Panic [simp]:
  "convert_to_shares_bounded P s c n cap e \<noteq> Panic"
  "convert_to_redeem_assets_bounded P s c n cap e \<noteq> Panic"
  "convert_to_withdraw_shares_ceil_bounded P s c n cap e \<noteq> Panic"
  by (simp_all add: convert_to_shares_bounded_def convert_to_redeem_assets_bounded_def
    convert_to_withdraw_shares_ceil_bounded_def)

lemma transitions_not_Panic [simp]:
  "start_allocation st plan op \<noteq> Panic" "complete_allocation st op req \<noteq> Panic"
  "start_withdrawal st r \<noteq> Panic" "stop_withdrawal st op a \<noteq> Panic"
  "start_refresh st rplan op \<noteq> Panic" "complete_refresh st op \<noteq> Panic"
  by (auto simp: start_allocation_def complete_allocation_def start_withdrawal_def
    stop_withdrawal_def start_refresh_def complete_refresh_def Let_def
    split: OpState.splits option.splits)

lemma map_transition_result_not_Panic [simp]: "map_transition_result r = Panic \<longleftrightarrow> r = Panic"
  by (simp add: map_transition_result_def)

lemma value_handlers_not_Panic:
  "handle_deposit F P s c R self own recv n m now \<noteq> Panic"
  "handle_atomic_withdraw F P s c R self own recv operator n m now \<noteq> Panic"
  "handle_atomic_redeem F P s c R self own recv operator n m now \<noteq> Panic"
  "handle_request_withdraw F P s c R self own recv n m now \<noteq> Panic"
  by (auto simp: handle_deposit_def handle_atomic_withdraw_def handle_atomic_redeem_def
    handle_request_withdraw_def plan_withdrawal_request_def apply_withdrawal_request_plan_def
    enqueue_def enqueue_withdrawal_not_Panic and_then_eq_Panic simp flip: deposit_refresh_def
    split: if_splits)

lemma handle_execute_withdraw_not_Panic:
  assumes "vault_inv s" and "next_op_id s \<noteq> max_value"
  shows "handle_execute_withdraw s c R self now \<noteq> Panic"
proof (cases "op_state s = Idle \<and> \<not> paused c")
  case True
  then have idle: "op_state s = Idle" and np: "\<not> paused c" by simp_all
  obtain q where spec: "handle_execute_withdraw s c R self now = execute_spec s c R self now q"
    by (rule handle_execute_withdraw_wf [OF vault_inv_queue [OF assms(1)] idle np])
  have "unat (next_op_id s) \<noteq> unat (max_value :: u64)" using assms(2) by (simp add: word_eq_nat)
  then have "checked_add (next_op_id s) 1 \<noteq> None"
    using unat_le_max [of "next_op_id s"] by (simp add: checked_add_def unat_max_value)
  then show ?thesis
    by (auto simp: spec execute_spec_def Let_def allocate_op_id_def and_then_eq_Panic
      split: list.splits if_splits)
next
  case False
  then show ?thesis
    by (auto simp: handle_execute_withdraw_def is_idle_op_def is_globally_paused_def)
qed

lemma handle_begin_allocating_not_Panic:
  assumes "vault_inv s"
  shows "handle_begin_allocating s op plan \<noteq> Panic"
proof -
  have "sync_total_assets (s\<lparr>idle_assets := idle_assets s - n\<rparr>) \<noteq> (Panic :: (_, KernelError) result)"
    if "n \<le> idle_assets s" for n
    using that vault_inv_balanced [OF assms] u128_bound [of "total_assets s"]
    by (intro sync_total_assets_not_Panic) (simp add: assets_balanced_def unat_sub)
  then show ?thesis
    by (auto simp: handle_begin_allocating_def and_then_eq_Panic Let_def not_less
      split: option.splits)
qed

lemma handle_rebalance_withdraw_not_Panic:
  assumes "vault_inv s"
  shows "handle_rebalance_withdraw s op n \<noteq> Panic"
proof -
  have "sync_total_assets (s\<lparr>external_assets := external_assets s - n, idle_assets := i\<rparr>)
      \<noteq> (Panic :: (_, KernelError) result)"
    if "n \<le> external_assets s" "unat i = unat (idle_assets s) + unat n" for i
    using that vault_inv_balanced [OF assms] u128_bound [of "total_assets s"]
    by (intro sync_total_assets_not_Panic) (simp add: assets_balanced_def unat_sub word_le_nat_alt)
  then show ?thesis
    by (auto simp: handle_rebalance_withdraw_def and_then_eq_Panic not_less checked_add_eq_Some
      split: OpState.splits)
qed

lemma handle_settle_payout_not_Panic:
  assumes "vault_inv s"
  shows "handle_settle_payout s self op outcome \<noteq> Panic"
proof -
  have bal: "unat (idle_assets s) + unat (external_assets s) < 2 ^ 128"
    using vault_inv_balanced [OF assms] u128_bound [of "total_assets s"]
    by (simp add: assets_balanced_def)
  have applied: "apply_payout_settlement (s\<lparr>op_state := Idle\<rparr>) p ps self [] \<noteq> Panic" for p ps
  proof -
    have "sync_total_assets (s'\<lparr>idle_assets := i\<rparr>) \<noteq> (Panic :: (_, KernelError) result)"
      if "idle_assets s' = idle_assets s" "external_assets s' = external_assets s"
        "unat (idle_assets s) = unat n + unat i" for s' i and n :: u128
      using that bal by (intro sync_total_assets_not_Panic) simp
    then show ?thesis
      by (auto simp: apply_payout_settlement_def and_then_eq_Panic Let_def checked_sub_eq_Some)
  qed
  have "dequeue (withdraw_queue s') \<noteq> (Panic :: (_, KernelError) result)"
    if "apply_payout_settlement (s\<lparr>op_state := Idle\<rparr>) p ps self [] = Ok (s', es)" for p ps s' es
    using apply_payout_settlement_Ok(4) [OF that] dequeue_wf_not_Panic vault_inv_queue [OF assms]
    by simp
  with applied show ?thesis
    by (auto simp: handle_settle_payout_def and_then_eq_Panic Let_def split: OpState.splits)
qed

lemma recovery_not_Panic:
  assumes "vault_inv s" and "no_overflow s"
  shows "handle_abort_allocating s op \<noteq> Panic" and "handle_abort_withdrawing s self op \<noteq> Panic"
    and "handle_emergency_reset s self \<noteq> Panic"
proof -
  have restore: "restore_to_idle (s\<lparr>op_state := st\<rparr>) (reset_restored (op_state s))
      \<noteq> (Panic :: (_, KernelError) result)" for st
    using assms(2) by (intro restore_to_idle_not_Panic) (simp add: no_overflow_def)
  have restore': "restore_to_idle s (reset_restored (op_state s)) \<noteq> (Panic :: (_, KernelError) result)"
    using assms(2) by (intro restore_to_idle_not_Panic) (simp add: no_overflow_def)
  have deq: "dequeue (withdraw_queue s') \<noteq> (Panic :: (_, KernelError) result)"
    if "restore_to_idle (s\<lparr>op_state := st\<rparr>) n = (Ok s' :: (_, KernelError) result) \<or>
      restore_to_idle s n = (Ok s' :: (_, KernelError) result)" for s' st n
    using that dequeue_wf_not_Panic [OF vault_inv_queue [OF assms(1)], where ?'e = KernelError]
    by (auto dest!: restore_to_idle_op_state)
  show "handle_abort_allocating s op \<noteq> Panic"
    using restore' by (cases "op_state s") (auto simp: handle_abort_allocating_def and_then_eq_Panic)
  show "handle_abort_withdrawing s self op \<noteq> Panic"
    using restore' deq
    by (cases "op_state s") (auto simp: handle_abort_withdrawing_def and_then_eq_Panic)
  show "handle_emergency_reset s self \<noteq> Panic"
    using restore [of Idle] deq [of Idle]
    by (cases "op_state s")
      (auto simp: handle_emergency_reset_def plan_emergency_reset_def Let_def and_then_eq_Panic)
qed

lemma apply_action_not_Panic:
  assumes "vault_inv s" and "no_overflow s"
  shows "apply_action F P s c R self a \<noteq> Panic"
proof -
  have id: "next_op_id s \<noteq> max_value" using assms(2) by (simp add: no_overflow_def)
  have sync: "handle_sync_external_assets s n op \<noteq> Panic" "handle_abort_refreshing s op \<noteq> Panic" for n op
    by (auto simp: handle_sync_external_assets_def handle_abort_refreshing_def
      ensure_sync_external_state_allowed_def plan_external_asset_sync_def and_then_eq_Panic
      split: OpState.splits)
  show ?thesis
    by (cases a) (auto simp: when_feature_def value_handlers_not_Panic sync
      handle_execute_withdraw_not_Panic [OF assms(1) id] handle_settle_payout_not_Panic [OF assms(1)]
      handle_begin_allocating_not_Panic [OF assms(1)] recovery_not_Panic [OF assms]
      handle_rebalance_withdraw_not_Panic [OF assms(1)] handle_finish_allocating_def
      apply_transition_result_def and_then_eq_Panic)
qed

section \<open>Prices\<close>

text \<open>The state a value action prices against: the one its fee refresh leaves.\<close>

lemma supply_of_mono:
  assumes "same_but_fees s s1" and "unat (total_shares s) \<le> unat (total_shares s1)"
  shows "supply_of s c \<le> supply_of s1 c" and "assets_of s1 c = assets_of s c"
  using assms same_but_fees_fields [OF assms(1)]
  by (simp_all add: supply_of_def assets_of_def effective_totals_def unat_saturating_add min_def)

text \<open>A deposit adds its assets and its shares to the effective totals, an exit takes them off.\<close>

lemma deposit_effective:
  assumes "totals_fit s' c" and "unat (total_assets s') = unat (total_assets s) + n"
    and "unat (total_shares s') = unat (total_shares s) + m"
  shows "assets_of s' c = assets_of s c + n" and "supply_of s' c = supply_of s c + m"
proof -
  have "totals_fit s c" using assms by (simp add: totals_fit_def)
  with assms show "assets_of s' c = assets_of s c + n" "supply_of s' c = supply_of s c + m"
    by (simp_all add: effective_exact)
qed

text \<open>The two inequalities on cross products that prices rest on.\<close>

lemma price_up:
  fixes a b A S :: nat
  assumes "b * A \<le> a * S"
  shows "A * (S + b) \<le> (A + a) * S"
  using assms by (simp add: algebra_simps)

lemma round_trip_bound:
  fixes a b A S out S' :: nat
  assumes "b * A \<le> a * S" and "out * S' \<le> b * (A + a)" and "S + b \<le> S'" and "0 < S"
  shows "out \<le> a"
proof -
  have "out * (S + b) \<le> out * S'" using assms(3) by simp
  also have "\<dots> \<le> b * (A + a)" by (rule assms(2))
  also have "\<dots> \<le> a * (S + b)" using assms(1) by (simp add: algebra_simps)
  finally have "out * (S + b) \<le> a * (S + b)" .
  with assms(4) show ?thesis by simp
qed

context primitive_types_spec
begin

lemma deposit_price:
  assumes "handle_deposit F P s c R self own recv n m now = Ok r"
    and "deposit_refresh F P s c now = Ok (s1, es)" and "totals_fit (kr_state r) c"
  shows "assets_of s1 c * supply_of (kr_state r) c \<le> assets_of (kr_state r) c * supply_of s1 c"
proof -
  obtain shares where q: "convert_to_shares_bounded P s1 c n
      (saturating_sub max_value (total_shares s1)) MintOverflowTotalShares = Ok shares"
    and st: "unat (total_assets (kr_state r)) = unat (total_assets s1) + unat n"
    "unat (total_shares (kr_state r)) = unat (total_shares s1) + unat shares"
    using assms(1,2) by (auto elim!: handle_deposit_Ok)
  have "assets_of s1 c * (supply_of s1 c + unat shares) \<le> (assets_of s1 c + unat n) * supply_of s1 c"
    using mint_shares_le [OF q] by (rule price_up)
  with deposit_effective [OF assms(3) st] show ?thesis by simp
qed

lemma exit_price:
  assumes "exits s1 es own recv operator shares amount r" and "totals_fit s1 c"
    and "unat amount * supply_of s1 c \<le> unat shares * assets_of s1 c"
  shows "assets_of s1 c * supply_of (kr_state r) c \<le> assets_of (kr_state r) c * supply_of s1 c"
proof -
  have st: "unat (total_assets s1) = unat (total_assets (kr_state r)) + unat amount"
    "unat (total_shares s1) = unat (total_shares (kr_state r)) + unat shares"
    using assms(1) by (auto simp: exits_def)
  note eff = deposit_effective [OF assms(2) st]
  from assms(3) show ?thesis unfolding eff by (simp add: algebra_simps)
qed

lemma redeem_le_deposit:
  assumes "handle_deposit F P s c R self own recv n m now = Ok r"
    and "kr_effects r = es @ [TransferAssetsFrom own self n, MintShares recv shares,
      EmitEvent (DepositProcessed own recv n shares)]"
    and "totals_fit (kr_state r) c"
    and "same_but_fees (kr_state r) s2"
    and "unat (total_shares (kr_state r)) \<le> unat (total_shares s2)"
    and "unat out * supply_of s2 c \<le> unat burnt * assets_of s2 c" and "burnt \<le> shares"
  shows "unat out \<le> unat n"
proof -
  obtain s1 where q: "convert_to_shares_bounded P s1 c n
      (saturating_sub max_value (total_shares s1)) MintOverflowTotalShares = Ok shares"
    and st: "unat (total_assets (kr_state r)) = unat (total_assets s1) + unat n"
    "unat (total_shares (kr_state r)) = unat (total_shares s1) + unat shares"
    using assms(1,2) by (auto elim!: handle_deposit_Ok)
  note eff = deposit_effective [OF assms(3) st]
  have "unat burnt * assets_of s2 c \<le> unat shares * assets_of s2 c"
    using assms(7) by (intro mult_le_mono1) (simp add: word_le_nat_alt)
  with assms(6) have "unat out * supply_of s2 c \<le> unat shares * assets_of s2 c"
    by (rule order_trans)
  then have "unat out * supply_of s2 c \<le> unat shares * (assets_of s1 c + unat n)"
    using supply_of_mono(2) [OF assms(4,5), of c] by (simp add: eff)
  moreover have "supply_of s1 c + unat shares \<le> supply_of s2 c"
    using supply_of_mono(1) [OF assms(4,5), of c] by (simp add: eff)
  ultimately show ?thesis
    using round_trip_bound [OF mint_shares_le [OF q]] by simp
qed

end

section \<open>Fees\<close>

context primitive_types_spec
begin

text \<open>The assets a management fee can claim, and that a performance fee can.\<close>

lemma management_fee_claim:
  assumes "management_shares out = as_u128_trunc (compute_management_fee_shares P base assets shares
      wad t0 now)"
    and "unat (compute_management_fee_shares P base assets shares wad t0 now) < 2 ^ 128"
    and "base \<le> assets"
  shows "unat (management_shares out) * unat assets * (unat SCALE * unat YEAR_NS)
    \<le> unat assets * unat wad * (unat now - unat t0) *
      (unat shares + unat (management_shares out))"
proof (cases "wad = 0 \<or> shares = 0 \<or> now \<le> t0")
  case True
  with assms(1) show ?thesis by (auto simp: compute_management_fee_shares_def as_u128_trunc_def)
next
  case False
  define fee where "fee = mul_div_floor P (apply_floored P wad (number_from base))
    (number_from (ucast (now - t0))) (number_from (ucast YEAR_NS))"
  let ?m = "compute_fee_shares_from_assets P fee (number_from assets) (number_from shares)"
  have m: "compute_management_fee_shares P base assets shares wad t0 now = ?m"
    using False by (simp add: compute_management_fee_shares_def fee_def)
  with assms(1,2) have out: "unat (management_shares out) = unat ?m"
    by (simp add: as_u128_trunc_fits)
  have elapsed: "unat (now - t0) = unat now - unat t0" using False by (intro unat_sub) auto
  have "unat fee * (unat SCALE * unat YEAR_NS) \<le> unat base * unat wad * unat (now - t0)"
    unfolding fee_def by (rule prorated_le)
  also have "\<dots> \<le> unat assets * unat wad * (unat now - unat t0)"
    using assms(3) by (simp add: elapsed word_le_nat_alt mult_le_mono1)
  finally have fee: "unat fee * (unat SCALE * unat YEAR_NS)
    \<le> unat assets * unat wad * (unat now - unat t0)" .
  have "unat ?m * unat assets * (unat SCALE * unat YEAR_NS)
      \<le> unat fee * (unat shares + unat ?m) * (unat SCALE * unat YEAR_NS)"
    using fee_shares_claim_le [of fee "number_from assets" "number_from shares"]
    by (intro mult_le_mono1) simp
  also have "\<dots> = unat fee * (unat SCALE * unat YEAR_NS) * (unat shares + unat ?m)"
    by (simp only: ac_simps)
  also have "\<dots> \<le> unat assets * unat wad * (unat now - unat t0) * (unat shares + unat ?m)"
    using fee by (rule mult_le_mono1)
  finally show ?thesis by (simp only: out)
qed

lemma performance_fee_claim:
  assumes "unat n = unat (compute_fee_shares_from_assets P (apply_floored P wad (number_from profit))
      (number_from assets) (number_from minted_supply))"
  shows "unat n * unat assets * unat SCALE \<le> unat profit * unat wad * (unat minted_supply + unat n)"
proof -
  let ?fee = "apply_floored P wad (number_from profit)"
  have "unat n * unat assets * unat SCALE \<le> unat ?fee * (unat minted_supply + unat n) * unat SCALE"
    using fee_shares_claim_le [of ?fee "number_from assets" "number_from minted_supply"]
    by (intro mult_le_mono1) (simp add: assms)
  also have "\<dots> = unat ?fee * unat SCALE * (unat minted_supply + unat n)" by (simp only: ac_simps)
  also have "\<dots> \<le> unat profit * unat wad * (unat minted_supply + unat n)"
    using apply_floored_le [of wad "number_from profit"] by (intro mult_le_mono1) simp
  finally show ?thesis .
qed

lemma fee_accrual_claims:
  assumes "compute_fee_accrual P assets shares anchor spec now = Ok out"
  shows "unat (management_shares out) * unat assets * (unat SCALE * unat YEAR_NS)
      \<le> unat assets * unat (fee_wad (management spec)) * (unat now - unat (anchor_timestamp_ns anchor)) *
        (unat shares + unat (management_shares out))"
    and "unat (performance_shares out) * unat assets * unat SCALE
      \<le> (unat assets - unat (anchor_total_assets anchor)) * unat (fee_wad (performance spec)) *
        unat (new_total_shares out)"
proof -
  let ?base = "total_assets_for_fee_accrual P assets (anchor_total_assets anchor)
    (anchor_timestamp_ns anchor) now (max_total_assets_growth_rate spec)"
  let ?m = "compute_management_fee_shares P ?base assets shares (fee_wad (management spec))
    (anchor_timestamp_ns anchor) now"
  let ?profit = "saturating_sub ?base (anchor_total_assets anchor)"
  have base: "?base \<le> assets" by (rule accrual_le_current)
  show "unat (management_shares out) * unat assets * (unat SCALE * unat YEAR_NS)
      \<le> unat assets * unat (fee_wad (management spec)) * (unat now - unat (anchor_timestamp_ns anchor)) *
        (unat shares + unat (management_shares out))"
  proof (cases "has_active_slot_fees spec")
    case True
    with assms have m: "management_shares out = as_u128_trunc ?m"
      and fits: "unat ?m \<le> unat (saturating_sub max_value shares)"
      by (auto simp: compute_fee_accrual_def Let_def not_less word_le_nat_alt)
    have "unat ?m < 2 ^ 128"
      using fits u128_bound [of "saturating_sub max_value shares"] by simp
    with m show ?thesis using base by (rule management_fee_claim)
  next
    case False
    with assms show ?thesis by (auto simp: compute_fee_accrual_def Let_def)
  qed
  show "unat (performance_shares out) * unat assets * unat SCALE
      \<le> (unat assets - unat (anchor_total_assets anchor)) * unat (fee_wad (performance spec)) *
        unat (new_total_shares out)"
  proof (cases "has_active_slot_fees spec")
    case True
    with assms obtain minted_supply where
      p: "performance_shares out = as_u128_trunc (compute_fee_shares_from_assets P
        (apply_floored P (fee_wad (performance spec)) (number_from ?profit)) (number_from assets)
        (number_from minted_supply))"
      and fits: "unat (compute_fee_shares_from_assets P
        (apply_floored P (fee_wad (performance spec)) (number_from ?profit)) (number_from assets)
        (number_from minted_supply)) \<le> unat (saturating_sub max_value minted_supply)"
      and new: "unat (new_total_shares out) = unat minted_supply + unat (performance_shares out)"
      by (auto simp: compute_fee_accrual_def Let_def not_less word_le_nat_alt checked_add_eq_Some)
    let ?p = "compute_fee_shares_from_assets P
      (apply_floored P (fee_wad (performance spec)) (number_from ?profit)) (number_from assets)
      (number_from minted_supply)"
    have "unat ?p < 2 ^ 128"
      using fits u128_bound [of "saturating_sub max_value minted_supply"] by simp
    then have eq: "unat (performance_shares out) = unat ?p" by (simp add: p as_u128_trunc_fits)
    have profit: "unat ?profit \<le> unat assets - unat (anchor_total_assets anchor)"
      using base by (simp add: unat_saturating_sub word_le_nat_alt)
    have "unat (performance_shares out) * unat assets * unat SCALE
        \<le> unat ?profit * unat (fee_wad (performance spec)) * unat (new_total_shares out)"
      using performance_fee_claim [OF eq] by (simp only: new)
    also have "\<dots> \<le> (unat assets - unat (anchor_total_assets anchor)) *
        unat (fee_wad (performance spec)) * unat (new_total_shares out)"
      using profit by (intro mult_le_mono1)
    finally show ?thesis .
  next
    case False
    with assms show ?thesis by (auto simp: compute_fee_accrual_def Let_def)
  qed
qed

end

end
