(* ===== verification/Kernel_Properties.thy ===== *)
theory Kernel_Properties
  imports Kernel_Machine
begin

text \<open>
  What the kernel guarantees to those who drive it and to those who hold its shares. The examples at
  the head are the concrete vault the properties are evaluated on.
\<close>

section \<open>A concrete vault\<close>

definition all_features :: features where
  "all_features = \<lparr>action_recovery = True, action_sync_external = True, action_refresh_fees = True,
     action_allocation_lifecycle = True, action_refresh_lifecycle = True, action_pause = True\<rparr>"

definition demo_config :: VaultConfig where
  "demo_config = \<lparr>fees = FeesSpec_ZERO, min_withdrawal_assets = 1, withdrawal_cooldown_ns = 10,
     max_pending_withdrawals = 8, paused = False, virtual_shares = 1, virtual_assets = 1\<rparr>"

text \<open>After a deposit of 1000 into the new vault.\<close>

definition demo_vault :: VaultState where
  "demo_vault = vault_new\<lparr>total_assets := 1000, total_shares := 1000, idle_assets := 1000,
     fee_anchor := \<lparr>anchor_total_assets = 1000, anchor_timestamp_ns = 5\<rparr>\<rparr>"

definition demo_effects :: "KernelEffect list" where
  "demo_effects = [TransferAssetsFrom 1 9 1000, MintShares 2 1000,
     EmitEvent (DepositProcessed 1 2 1000 1000)]"

lemma demo_quote:
  "convert_to_shares_bounded word_types vault_new demo_config 1000 (- 1) MintOverflowTotalShares = Ok 1000"
  "convert_to_redeem_assets_bounded word_types demo_vault demo_config 400 1000 e = Ok 400"
  "convert_to_withdraw_shares_ceil_bounded word_types demo_vault demo_config 400 1000 e = Ok 400"
  "convert_to_redeem_assets_bounded word_types demo_vault demo_config 1000 1000 e = Ok 1000"
  by (simp_all add: convert_to_shares_bounded_def convert_to_redeem_assets_bounded_def
    convert_to_withdraw_shares_ceil_bounded_def bounded_u128_Ok words.virtual_basis_quote_eq
    words.dual_basis_to_assets words.dual_basis_to_shares real_basis_active_def supply_of_def
    assets_of_def effective_totals_def saturating_add_def checked_add_def quot_floor vault_new_def
    demo_config_def demo_vault_def quot_def unsigned_minus_1_eq_mask mask_eq_exp_minus_1)

lemma demo_fee:
  "apply_floored word_types 100000000000000000 (number_from 100) = 10"
  "compute_fee_shares_from_assets word_types 10 (number_from 1100) (number_from 1000) = 9"
proof -
  show "apply_floored word_types 100000000000000000 (number_from 100) = 10"
    by (simp add: word_eq_nat [where ?'a = 256] words.apply_floored_quot)
  have "u256_sub word_types (number_from 1100) 10 = 1090"
    by (simp add: word_types_def number_from_def)
  then show "compute_fee_shares_from_assets word_types 10 (number_from 1100) (number_from 1000) = 9"
    by (simp add: compute_fee_shares_from_assets_def word_eq_nat [where ?'a = 256]
      words.mul_div_floor_quot quot_floor word_le_nat_alt)
qed

lemma demo_deposit:
  "handle_deposit all_features word_types vault_new demo_config None 9 1 2 1000 0 5 =
     Ok \<lparr>kr_state = demo_vault, kr_effects = demo_effects\<rparr>"
  using demo_quote(1)
  by (simp add: handle_deposit_def enforce_restrictions_def is_idle_def is_idle_op_def vault_new_def
    should_refresh_fees_for_value_transfer_def saturating_sub_def max_value_def demo_vault_def
    demo_effects_def checked_add_def) (simp add: demo_config_def)

lemma demo_run: "kernel_run all_features word_types 9 vault_new demo_effects demo_vault"
  using run_step [OF run_refl step_action
    [of all_features word_types vault_new demo_config None 9 "Deposit 1 2 1000 0 5"]] demo_deposit
  by simp

lemma demo_refresh:
  "refresh_fees_before_value_transfer F P s demo_config now = Ok (s, [])"
  "deposit_refresh F P s demo_config now = Ok (s, [])"
  by (simp_all add: refresh_fees_before_value_transfer_def deposit_refresh_def
    should_refresh_fees_for_value_transfer_def demo_config_def FeesSpec_ZERO_def FeeSlot_ZERO_def
    has_active_slot_fees_def has_rate_def)

lemma demo_redeem:
  "handle_atomic_redeem all_features word_types demo_vault demo_config None 9 2 2 2 400 0 6 =
     Ok \<lparr>kr_state = demo_vault\<lparr>total_shares := 600, idle_assets := 600, total_assets := 600\<rparr>,
       kr_effects = [BurnShares 2 400, TransferAssets 2 400,
         EmitEvent (AtomicWithdrawProcessed 2 2 400 400)]\<rparr>"
  using demo_quote(2)
  by (simp add: handle_atomic_redeem_def enforce_withdrawal_actors_def enforce_restrictions_def
    require_idle_with_nonzero_amount_def is_idle_def is_idle_op_def demo_vault_def vault_new_def demo_refresh
    push_atomic_burn_shares_def checked_sub_def) (simp add: demo_config_def)

lemma demo_redeem_all:
  "handle_atomic_redeem all_features word_types demo_vault demo_config None 9 2 2 2 1000 0 6 =
     Ok \<lparr>kr_state = demo_vault\<lparr>total_shares := 0, idle_assets := 0, total_assets := 0\<rparr>,
       kr_effects = [BurnShares 2 1000, TransferAssets 2 1000,
         EmitEvent (AtomicWithdrawProcessed 2 2 1000 1000)]\<rparr>"
  using demo_quote(4)
  by (simp add: handle_atomic_redeem_def enforce_withdrawal_actors_def enforce_restrictions_def
    require_idle_with_nonzero_amount_def is_idle_def is_idle_op_def demo_vault_def vault_new_def
    demo_refresh push_atomic_burn_shares_def checked_sub_def) (simp add: demo_config_def)

text \<open>After a request for 400 of the shares.\<close>

definition demo_queue :: WithdrawQueue where
  "demo_queue = \<lparr>pending_withdrawals = [\<lparr>pw_id = 0, pw_withdrawal = \<lparr>owner = 2, receiver = 3,
       escrow_shares = 400, expected_assets = 400, requested_at_ns = 6\<rparr>\<rparr>],
     next_withdraw_to_execute = 0, next_pending_withdrawal_id = 1, cached_total_escrow = 400,
     cached_total_expected = 400\<rparr>"

lemma demo_request:
  "handle_request_withdraw all_features word_types demo_vault demo_config None 9 2 3 400 1 6 =
     Ok \<lparr>kr_state = demo_vault\<lparr>withdraw_queue := demo_queue\<rparr>,
       kr_effects = [TransferShares 2 9 400, EmitEvent (WithdrawalRequested 0 2 3 400 400)]\<rparr>"
  using demo_quote(2)
  by (simp add: handle_request_withdraw_def enforce_withdrawal_actors_def enforce_restrictions_def
    require_idle_with_nonzero_amount_def is_idle_def is_idle_op_def demo_vault_def vault_new_def
    demo_refresh plan_withdrawal_request_def apply_withdrawal_request_plan_def enqueue_def
    enqueue_withdrawal_def queue_can_enqueue_def queue_new_def pw_new_def MAX_PENDING_def
    checked_add_def pw_insert_def locate_def binary_search_by_def demo_queue_def)
    (simp add: demo_config_def is_max_pending_valid_def MAX_PENDING_def)

text \<open>After the queue is executed, and with the payout that is settled from the idle assets.\<close>

definition demo_waiting :: VaultState where
  "demo_waiting = demo_vault\<lparr>withdraw_queue := demo_queue\<rparr>"

definition demo_withdrawing :: WithdrawingState where
  "demo_withdrawing = \<lparr>wd_op_id = 0, wd_request_id = 0, wd_index = 0, wd_remaining = 400,
     wd_collected = 0, wd_receiver = 3, wd_owner = 2, wd_escrow_shares = 400\<rparr>"

definition demo_payout :: PayoutState where
  "demo_payout = \<lparr>payout_op_id = 0, payout_request_id = 0, payout_receiver = 3, payout_amount = 400,
     payout_owner = 2, payout_escrow_shares = 400, payout_burn_shares = 400\<rparr>"

lemma demo_head:
  "queue_head demo_queue = Some (0, \<lparr>owner = 2, receiver = 3, escrow_shares = 400,
     expected_assets = 400, requested_at_ns = 6\<rparr>)"
  by (simp add: queue_head_def demo_queue_def pw_get_def locate_def binary_search_by_def
    search_loop.simps)

lemma demo_execute:
  "handle_execute_withdraw demo_waiting demo_config None 9 50 =
     Ok \<lparr>kr_state = demo_waiting\<lparr>next_op_id := 1, op_state := Withdrawing demo_withdrawing\<rparr>,
       kr_effects = [EmitEvent (WithdrawalStarted 0 400 400 2 3)]\<rparr>"
  by (simp add: handle_execute_withdraw_def demo_waiting_def demo_vault_def vault_new_def is_idle_op_def
    is_globally_paused_def next_withdrawal_queue_outcome.simps pending_withdrawal_head_def demo_head
    classify_withdrawal_head_def pending_withdrawal_skip_reason_def restricted_withdraw_actor_def
    is_past_cooldown_def has_actionable_withdrawal_liquidity_def withdrawal_request_from_head_def
    allocate_op_id_def checked_add_def apply_transition_result_def map_transition_result_def
    start_withdrawal_def withdrawing_of_def demo_withdrawing_def demo_config_def saturating_add_def)

lemma demo_settled:
  "withdrawal_settled (Withdrawing demo_withdrawing) 0 400 400 =
     Ok \<lparr>tr_state = Payout demo_payout, tr_effects = [EmitEvent (WithdrawalCollected 0 400 400)]\<rparr>"
  by (simp add: withdrawal_settled_def withdrawal_step_callback_def tr_new_def wd_advance_def
    payout_of_def demo_withdrawing_def demo_payout_def saturating_add_def saturating_sub_def
    checked_add_def)

definition demo_paying :: VaultState where
  "demo_paying = demo_waiting\<lparr>next_op_id := 1, op_state := Payout demo_payout\<rparr>"

lemma demo_paying_run: "\<exists>es. kernel_run all_features word_types 9 vault_new es demo_paying"
proof -
  have "kernel_step all_features word_types 9 demo_vault [TransferShares 2 9 400,
      EmitEvent (WithdrawalRequested 0 2 3 400 400)] demo_waiting"
    using step_action [of all_features word_types demo_vault demo_config None 9
      "RequestWithdraw 2 3 400 1 6"] demo_request by (simp add: demo_waiting_def)
  moreover have "kernel_step all_features word_types 9 demo_waiting
      [EmitEvent (WithdrawalStarted 0 400 400 2 3)]
      (demo_waiting\<lparr>next_op_id := 1, op_state := Withdrawing demo_withdrawing\<rparr>)"
    using step_action [of all_features word_types demo_waiting demo_config None 9 "ExecuteWithdraw 50"]
      demo_execute by simp
  moreover have "kernel_step all_features word_types 9
      (demo_waiting\<lparr>next_op_id := 1, op_state := Withdrawing demo_withdrawing\<rparr>)
      [EmitEvent (WithdrawalCollected 0 400 400)] demo_paying"
    using step_settle [of "demo_waiting\<lparr>next_op_id := 1, op_state := Withdrawing demo_withdrawing\<rparr>"
      0 400 400 "\<lparr>tr_state = Payout demo_payout,
        tr_effects = [EmitEvent (WithdrawalCollected 0 400 400)]\<rparr>"] demo_settled
    by (simp add: demo_paying_def)
  ultimately show ?thesis using demo_run by (blast intro: run_step)
qed

section \<open>Runs\<close>

text \<open>
  C1. The vault keeps its invariant and accounts for every share. After any run of kernel actions and
  callbacks from the new vault, under configurations and restrictions that may change at every action,
  the invariant check of the source holds, a withdrawal or payout in progress serves the request at the
  head of the queue, and the share supply is what the effects of the run minted less what they burned.
\<close>

theorem kernel_run_safe:
  assumes "kernel_run F P self vault_new es s"
  shows "check_invariant s \<and> op_wf (op_state s) \<and> op_coupled (withdraw_queue s) (op_state s) \<and>
    unat (total_shares s) + burned_total es = minted es"
proof -
  have inv: "vault_inv s" using assms by (rule kernel_run_inv)
  have "supply_balance vault_new es s" using assms vault_inv_new by (rule kernel_run_supply)
  then have "unat (total_shares s) + burned_total es = minted es"
    by (simp add: supply_balance_def vault_new_def)
  with inv show ?thesis by (simp add: vault_inv_def vault_wf_check_invariant)
qed

theorem kernel_run_safe_witness:
  "check_invariant demo_vault \<and> unat (total_shares demo_vault) = minted demo_effects \<and>
   minted demo_effects = 1000"
  using kernel_run_safe [OF demo_run] by (simp add: demo_effects_def effect_sums)

text \<open>
  C7. The kernel does not abort. In every state a run can reach, as long as the operation in progress
  could return its assets without overflow and operation ids are left, every action under every
  configuration and every restriction returns a result or an error.
\<close>

theorem kernel_never_panics:
  assumes "kernel_run F P self vault_new es s" and "no_overflow s"
  shows "apply_action F P s c R self a \<noteq> Panic"
  using kernel_run_inv [OF assms(1)] assms(2) by (rule apply_action_not_Panic)

theorem kernel_never_panics_witness:
  "no_overflow demo_vault \<and>
   apply_action all_features word_types demo_vault demo_config None 9 EmergencyReset \<noteq> Panic"
proof -
  have "no_overflow demo_vault"
    by (simp add: no_overflow_def demo_vault_def vault_new_def max_value_def)
  with kernel_never_panics [OF demo_run this] show ?thesis by blast
qed

section \<open>Prices and fees\<close>



text \<open>
  C3. Deposits and exits never lower the price of a share. For a deposit, an atomic withdrawal and an
  atomic redemption that return, the ratio of the effective assets to the effective supply after the
  action is at least the ratio in the state the action priced against, the one its fee refresh left.
\<close>

theorem share_price_never_falls:
  assumes "primitive_types_spec P" and "deposit_refresh F P s c now = Ok (s1, es)"
    and "a = Deposit own recv n m now \<or> a = AtomicWithdraw own recv operator n m now \<or>
      a = AtomicRedeem own recv operator n m now"
    and "apply_action F P s c R self a = Ok r" and "totals_fit s1 c" and "totals_fit (kr_state r) c"
  shows "assets_of s1 c * supply_of (kr_state r) c \<le> assets_of (kr_state r) c * supply_of s1 c"
  using assms(3)
proof (elim disjE)
  assume "a = Deposit own recv n m now"
  with assms(4) show ?thesis
    using primitive_types_spec.deposit_price [OF assms(1) _ assms(2,6)] by simp
next
  assume "a = AtomicWithdraw own recv operator n m now"
  with assms(4) have "handle_atomic_withdraw F P s c R self own recv operator n m now = Ok r" by simp
  then obtain s2 es2 shares where
    refresh: "refresh_fees_before_value_transfer F P s c now = Ok (s2, es2)"
    and q: "convert_to_withdraw_shares_ceil_bounded P s2 c n (total_shares s2)
      AtomicWithdrawBurnExceedsTotalShares = Ok shares"
    and x: "exits s2 es2 own recv operator shares n r"
    by (rule handle_atomic_withdraw_Ok)
  have "s2 = s1" using exit_refresh_deposit_refresh [OF refresh] assms(2) by simp
  with x assms(5) primitive_types_spec.withdraw_shares_ge [OF assms(1) q] show ?thesis
    by (intro primitive_types_spec.exit_price [OF assms(1)]) auto
next
  assume "a = AtomicRedeem own recv operator n m now"
  with assms(4) have "handle_atomic_redeem F P s c R self own recv operator n m now = Ok r" by simp
  then obtain s2 es2 amount where
    refresh: "refresh_fees_before_value_transfer F P s c now = Ok (s2, es2)"
    and q: "convert_to_redeem_assets_bounded P s2 c n (idle_assets s2)
      AtomicWithdrawExceedsIdleAssets = Ok amount"
    and x: "exits s2 es2 own recv operator n amount r"
    by (rule handle_atomic_redeem_Ok)
  have "s2 = s1" using exit_refresh_deposit_refresh [OF refresh] assms(2) by simp
  with x assms(5) primitive_types_spec.redeem_assets_le [OF assms(1) q] show ?thesis
    by (intro primitive_types_spec.exit_price [OF assms(1)]) auto
qed

theorem share_price_never_falls_witness:
  "assets_of demo_vault demo_config * supply_of (demo_vault\<lparr>total_shares := 600, idle_assets := 600,
       total_assets := 600\<rparr>) demo_config
     \<le> assets_of (demo_vault\<lparr>total_shares := 600, idle_assets := 600, total_assets := 600\<rparr>) demo_config *
       supply_of demo_vault demo_config"
proof -
  from share_price_never_falls [OF words.primitive_types_spec_axioms
      demo_refresh(2) [of all_features word_types demo_vault 6], of
      "AtomicRedeem 2 2 2 400 0 6" 2 2 400 0 2 None 9] demo_redeem
  show ?thesis
    by (simp add: totals_fit_def demo_vault_def demo_config_def vault_new_def)
qed

text \<open>
  C8. Fees take no more than they are due. In one accrual the management shares own at most the annual
  rate, pro rata to the time since the anchor, of the total assets; and the performance shares own at
  most the performance rate of the gain over the anchor. Ownership is measured by share count against
  the supply after the mint; rates are fractions of \<open>SCALE\<close>.
\<close>

theorem fee_accrual_bounded:
  assumes "primitive_types_spec P" and "compute_fee_accrual P assets shares anchor spec now = Ok out"
  shows "unat (management_shares out) * unat assets * (unat SCALE * unat YEAR_NS)
      \<le> unat assets * unat (fee_wad (management spec)) * (unat now - unat (anchor_timestamp_ns anchor)) *
        (unat shares + unat (management_shares out)) \<and>
    unat (performance_shares out) * unat assets * unat SCALE
      \<le> (unat assets - unat (anchor_total_assets anchor)) * unat (fee_wad (performance spec)) *
        unat (new_total_shares out) \<and>
    unat (new_total_shares out) =
      unat shares + unat (management_shares out) + unat (performance_shares out)"
  using primitive_types_spec.fee_accrual_claims [OF assms] compute_fee_accrual_Ok(1) [OF assms(2)]
  by simp

theorem fee_accrual_bounded_witness:
  "\<exists>out. compute_fee_accrual word_types 1100 1000
       \<lparr>anchor_total_assets = 1000, anchor_timestamp_ns = 0\<rparr>
       \<lparr>performance = \<lparr>fee_wad = 100000000000000000, fee_recipient = 7\<rparr>,
         management = \<lparr>fee_wad = 0, fee_recipient = 8\<rparr>, max_total_assets_growth_rate = None\<rparr> 10 = Ok out \<and>
     performance_shares out = 9 \<and> unat (new_total_shares out) = 1009"
proof -
  let ?spec = "\<lparr>performance = \<lparr>fee_wad = 100000000000000000, fee_recipient = 7\<rparr>,
    management = \<lparr>fee_wad = 0, fee_recipient = 8\<rparr>, max_total_assets_growth_rate = None\<rparr>"
  obtain out where out: "compute_fee_accrual word_types 1100 1000
      \<lparr>anchor_total_assets = 1000, anchor_timestamp_ns = 0\<rparr> ?spec 10 = Ok out"
    and p: "performance_shares out = 9" "management_shares out = 0"
    using demo_fee
    by (simp add: compute_fee_accrual_def has_active_slot_fees_def has_rate_def
      total_assets_for_fee_accrual_def compute_management_fee_shares_def saturating_sub_def
      max_value_def as_u128_trunc_def checked_add_def number_from_def)
  with fee_accrual_bounded [OF words.primitive_types_spec_axioms out] show ?thesis by auto
qed

text \<open>
  C9. The growth cap limits what counts as profit. With a cap configured, the assets taken as the basis
  of a fee never exceed the current assets, and what they exceed the anchor by is at most the capped
  annual rate of the anchor, pro rata to the elapsed time; without elapsed time nothing counts.
\<close>

theorem growth_cap_limits_profit:
  assumes "primitive_types_spec P" and "anchor < cur" and "t0 \<le> now"
  shows "total_assets_for_fee_accrual P cur anchor t0 now (Some rate) \<le> cur \<and>
    (unat (total_assets_for_fee_accrual P cur anchor t0 now (Some rate)) - unat anchor) *
      (unat SCALE * unat YEAR_NS) \<le> unat anchor * unat rate * (unat now - unat t0)"
  using primitive_types_spec.accrual_growth_le [OF assms(1) refl assms(2,3)]
  by (simp add: accrual_le_current)

theorem growth_cap_limits_profit_witness:
  "total_assets_for_fee_accrual word_types 1100 1000 5 5 (Some wad_one) = 1000"
proof -
  have "total_assets_for_fee_accrual word_types 1100 1000 5 5 (Some wad_one) \<le> 1100 \<and>
      (unat (total_assets_for_fee_accrual word_types 1100 1000 5 5 (Some wad_one)) - 1000) *
        (unat SCALE * unat YEAR_NS) \<le> 0"
    using growth_cap_limits_profit [OF words.primitive_types_spec_axioms, of 1000 1100 5 5 wad_one]
    by simp
  then have "unat (total_assets_for_fee_accrual word_types 1100 1000 5 5 (Some wad_one)) \<le> 1000"
    by simp
  then show ?thesis
    using accrual_ge_anchor [of 1000 1100 word_types 5 5 "Some wad_one"]
    by (simp add: word_le_nat_alt word_eq_nat [where ?'a = 128] min_def)
qed

section \<open>The withdrawal queue\<close>

text \<open>
  C10. A request escrows its shares at a price that does not favour it. A withdrawal request that
  returns appends one entry to the queue, with the next id, that carries the shares and an expected
  amount within the caller's and the configured minimum; the expected amount is at most the floor of
  the shares' part of the effective assets and at most the total assets; the shares move to the escrow
  address and the assets of the vault do not change.
\<close>

theorem request_withdraw_quotes:
  assumes "primitive_types_spec P" and "vault_inv s"
    and "handle_request_withdraw F P s c R self own recv shares min_out now = Ok r"
    and "deposit_refresh F P s c now = Ok (s1, es)"
  shows "\<exists>i expected.
    queue_list (withdraw_queue (kr_state r)) = queue_list (withdraw_queue s) @
      [(i, \<lparr>owner = own, receiver = recv, escrow_shares = shares, expected_assets = expected,
        requested_at_ns = now\<rparr>)] \<and>
    i = next_pending_withdrawal_id (withdraw_queue s) \<and>
    queue_len (withdraw_queue (kr_state r)) \<le> unat (max_pending_withdrawals c) \<and>
    min_out \<le> expected \<and> min_withdrawal_assets c \<le> expected \<and> expected \<le> total_assets s \<and>
    unat expected \<le> unat shares * assets_of s1 c div supply_of s1 c \<and>
    TransferShares own self shares \<in> set (kr_effects r) \<and>
    total_assets (kr_state r) = total_assets s \<and> idle_assets (kr_state r) = idle_assets s"
proof -
  obtain s2 es2 expected i q w where
    refresh: "refresh_fees_before_value_transfer F P s c now = Ok (s2, es2)"
    and quote: "convert_to_redeem_assets_bounded P s2 c shares (total_assets s2)
      RequestWithdrawExpectedAssetsExceedTotalAssets = Ok expected"
    and w: "w = \<lparr>owner = own, receiver = recv, escrow_shares = shares, expected_assets = expected,
       requested_at_ns = now\<rparr>"
    and enq: "enqueue_withdrawal (withdraw_queue s2) w (max_pending_withdrawals c) = Ok (i, q)"
    and min: "min_out \<le> expected" "min_withdrawal_assets c \<le> expected"
    and r: "kr_state r = s2\<lparr>withdraw_queue := q\<rparr>"
      "kr_effects r = es2 @ [TransferShares own self shares,
        EmitEvent (WithdrawalRequested i own recv shares expected)]"
    using assms(3) by (rule handle_request_withdraw_Ok)
  have s2: "s2 = s1" using exit_refresh_deposit_refresh [OF refresh] assms(4) by simp
  note same = same_but_fees_fields [OF exit_refresh_Ok(1) [OF refresh]]
  have wf: "queue_wf (withdraw_queue s2)" using vault_inv_queue [OF assms(2)] same by simp
  note q = enqueue_withdrawal_wf [OF wf enq] enqueue_withdrawal_len [OF wf enq]
  have "unat expected * supply_of s1 c \<le> unat shares * assets_of s1 c"
    using primitive_types_spec.redeem_assets_le [OF assms(1) quote] by (simp add: s2)
  then have "unat expected \<le> unat shares * assets_of s1 c div supply_of s1 c"
    by (simp add: less_eq_div_iff_mult_less_eq)
  moreover have "expected \<le> total_assets s"
    using quote same by (simp add: convert_to_redeem_assets_bounded_def bounded_u128_Ok word_le_nat_alt)
  ultimately show ?thesis
    using q min same by (intro exI [of _ i] exI [of _ expected]) (simp add: r w)
qed

theorem request_withdraw_quotes_witness:
  "handle_request_withdraw all_features word_types demo_vault demo_config None 9 2 3 400 1 6 =
     Ok \<lparr>kr_state = demo_vault\<lparr>withdraw_queue := demo_queue\<rparr>,
       kr_effects = [TransferShares 2 9 400, EmitEvent (WithdrawalRequested 0 2 3 400 400)]\<rparr> \<and>
   queue_len demo_queue \<le> unat (max_pending_withdrawals demo_config)"
  using request_withdraw_quotes [OF words.primitive_types_spec_axioms kernel_run_inv [OF demo_run]
    demo_request demo_refresh(2)] demo_request by auto

text \<open>
  C5. Executing the queue serves it in order. On a vault that is idle and not paused, the loop skips
  exactly the longest prefix of requests that are restricted or expect nothing, returning the escrow of
  each to its owner in full, and then looks at the first other request only: it starts a withdrawal for
  it when its cooldown has passed and the idle assets cover it, and otherwise reports why it did not,
  as an error when nothing was skipped either.
\<close>

theorem execute_withdraw_in_order:
  assumes "vault_inv s" and "op_state s = Idle" and "\<not> paused c"
  shows "\<exists>q. queue_wf q \<and>
    queue_list q = dropWhile (skips R self) (queue_list (withdraw_queue s)) \<and>
    handle_execute_withdraw s c R self now = execute_spec s c R self now q \<and>
    released self (skipped_prefix R self s) =
      sum_escrow (map snd (takeWhile (skips R self) (queue_list (withdraw_queue s))))"
proof -
  obtain q where "queue_wf q"
    "queue_list q = dropWhile (skips R self) (queue_list (withdraw_queue s))"
    "handle_execute_withdraw s c R self now = execute_spec s c R self now q"
    by (rule handle_execute_withdraw_wf [OF vault_inv_queue [OF assms(1)] assms(2,3)])
  then show ?thesis by (intro exI [of _ q]) (simp add: skipped_prefix_def skip_effects_sums)
qed

theorem execute_withdraw_in_order_witness:
  "\<exists>q. queue_wf q \<and> queue_list q = [] \<and>
     handle_execute_withdraw demo_vault demo_config None 9 50 = execute_spec demo_vault demo_config None 9 50 q"
  using execute_withdraw_in_order [OF kernel_run_inv [OF demo_run], of demo_config None 9 50]
  by (auto simp: demo_vault_def demo_config_def vault_new_def queue_wf_new(2))

lemma sync_total_assets_succeeds:
  "unat (idle_assets s) + unat (external_assets s) < 2 ^ 128 \<Longrightarrow>
    \<exists>s'. sync_total_assets s = (Ok s' :: (_, 'e) result)"
  using sync_total_assets_not_Panic [of s, where ?'a = 'e]
  by (cases "sync_total_assets s :: (_, 'e) result") auto

lemma dequeue_not_Err: "dequeue q \<noteq> Err e"
  by (auto simp: dequeue_def Let_def and_then_eq_Err split: if_splits prod.splits option.splits)

lemma payout_coupled_head:
  assumes "vault_inv s" and "op_state s = Payout p"
  shows "\<exists>w xs. queue_list (withdraw_queue s) = (payout_request_id p, w) # xs \<and>
      owner w = payout_owner p \<and> receiver w = payout_receiver p \<and>
      escrow_shares w = payout_escrow_shares p \<and> payout_amount p \<le> expected_assets w"
    and "head_is (withdraw_queue s) (payout_request_id p) (payout_owner p) (payout_receiver p)
      (payout_escrow_shares p)"
  using assms
  by (auto simp: vault_inv_def vault_wf_def head_is_def queue_head_list
    split: option.splits list.splits)

text \<open>A payout in progress can be settled as failed always, and as successful when it is covered.\<close>

lemma settle_payout_succeeds:
  assumes inv: "vault_inv s" and p: "op_state s = Payout p"
    and burn: "settled_burn p outcome \<le> total_shares s"
    and amount: "settled_amount p outcome \<le> idle_assets s"
  shows "\<exists>r. handle_settle_payout s self (payout_op_id p) outcome = Ok r"
proof -
  have v: "validate_queue_head (withdraw_queue s) (payout_request_id p) (payout_owner p)
      (payout_receiver p) (payout_escrow_shares p) = Ok ()"
    using payout_coupled_head(2) [OF inv p] by (simp add: validate_queue_head_Ok)
  have "payout_burn_shares p \<le> payout_escrow_shares p"
    using inv p by (simp add: vault_inv_def)
  then obtain ps where ps: "plan_payout_settlement p outcome = Ok ps"
    "ps_burn_shares ps = settled_burn p outcome" "ps_success ps \<longleftrightarrow> outcome = Success"
    by (cases outcome) (auto simp: plan_payout_settlement_Ok settled_burn_def)
  have small: "unat (idle_assets s - n) + unat (external_assets s) < 2 ^ 128" if "n \<le> idle_assets s" for n
    using vault_inv_balanced [OF inv] u128_bound [of "total_assets s"] that
    by (simp add: assets_balanced_def unat_sub)
  have sync: "\<exists>s''. sync_total_assets (s'\<lparr>idle_assets := idle_assets s - payout_amount p\<rparr>) =
      (Ok s'' :: (_, KernelError) result)"
    if "external_assets s' = external_assets s" "payout_amount p \<le> idle_assets s" for s'
    using small [OF that(2)] that(1) by (intro sync_total_assets_succeeds) simp
  have "\<exists>s' es'. apply_payout_settlement (s\<lparr>op_state := Idle\<rparr>) p ps self [] = Ok (s', es')"
  proof (cases outcome)
    case Success
    with burn amount sync [of "s\<lparr>op_state := Idle\<rparr>"]
      sync [of "s\<lparr>op_state := Idle, total_shares := total_shares s - ps_burn_shares ps\<rparr>"] ps
    show ?thesis
      by (auto simp: apply_payout_settlement_def Let_def checked_sub_def settled_amount_def)
  next
    case Failure
    with ps show ?thesis by (auto simp: apply_payout_settlement_def Let_def settled_burn_def)
  qed
  then obtain s' es' where s': "apply_payout_settlement (s\<lparr>op_state := Idle\<rparr>) p ps self [] = Ok (s', es')"
    by blast
  moreover obtain popped q where "dequeue (withdraw_queue s') = (Ok (popped, q) :: (_, KernelError) result)"
    using dequeue_not_Panic [OF vault_inv_queue [OF inv], where ?'e = KernelError]
      apply_payout_settlement_Ok(4) [OF s'] by auto
  ultimately show ?thesis
    using ps v by (simp add: handle_settle_payout_def p Let_def)
qed

text \<open>
  C6. A payout can always be brought to an end. In every reachable state with a payout in progress,
  settling it as failed succeeds: the vault is idle again, the request leaves the queue, its whole
  escrow goes back and neither assets nor supply change. Settling it as successful succeeds exactly
  when the idle assets cover the amount and the supply covers the burn, and then removes exactly these.
\<close>

theorem payout_settles:
  assumes "kernel_run F P self vault_new es s" and "op_state s = Payout p"
  shows "(\<exists>r. handle_settle_payout s self (payout_op_id p) Failure = Ok r \<and>
      op_state (kr_state r) = Idle \<and>
      length (queue_list (withdraw_queue s)) = length (queue_list (withdraw_queue (kr_state r))) + 1 \<and>
      released self (kr_effects r) = unat (payout_escrow_shares p) \<and>
      total_assets (kr_state r) = total_assets s \<and> total_shares (kr_state r) = total_shares s) \<and>
    ((\<exists>r. handle_settle_payout s self (payout_op_id p) Success = Ok r) \<longleftrightarrow>
      payout_amount p \<le> idle_assets s \<and> payout_burn_shares p \<le> total_shares s) \<and>
    (\<forall>r. handle_settle_payout s self (payout_op_id p) Success = Ok r \<longrightarrow>
      unat (total_assets s) = unat (total_assets (kr_state r)) + unat (payout_amount p) \<and>
      unat (total_shares s) = unat (total_shares (kr_state r)) + unat (payout_burn_shares p) \<and>
      released self (kr_effects r) = unat (payout_escrow_shares p))"
proof -
  have inv: "vault_inv s" using assms(1) by (rule kernel_run_inv)
  note head = payout_coupled_head(1) [OF inv assms(2)]
  have rel: "released self (kr_effects r) = unat (payout_escrow_shares p)"
    if settled: "handle_settle_payout s self (payout_op_id p) outcome = Ok r" for outcome r
  proof -
    obtain p' where p': "op_state s = Payout p'"
      and eff: "kr_effects r =
        (if 0 < settled_burn p' outcome then [BurnShares self (settled_burn p' outcome)] else []) @
        push_refund_shares [] self (payout_owner p') (payout_escrow_shares p' - settled_burn p' outcome) @
        [EmitEvent (PayoutCompleted (payout_op_id p) (outcome = Success) (settled_burn p' outcome)
          (payout_escrow_shares p' - settled_burn p' outcome) (settled_amount p' outcome))]"
      using settled by (rule handle_settle_payout_Ok) blast
    have "settled_burn p outcome \<le> payout_escrow_shares p"
      using inv assms(2) by (cases outcome) (simp_all add: vault_inv_def settled_burn_def)
    then show ?thesis
      using p' assms(2) by (simp add: eff effect_sums unat_sub word_le_nat_alt)
  qed
  obtain r where r: "handle_settle_payout s self (payout_op_id p) Failure = Ok r"
    using settle_payout_succeeds [OF inv assms(2), of Failure]
    by (auto simp: settled_burn_def settled_amount_def)
  have fail: "op_state (kr_state r) = Idle \<and> total_assets (kr_state r) = total_assets s \<and>
      unat (total_shares s) = unat (total_shares (kr_state r)) \<and>
      length (queue_list (withdraw_queue s)) = length (queue_list (withdraw_queue (kr_state r))) + 1"
  proof -
    obtain popped where "op_state (kr_state r) = Idle" "total_assets (kr_state r) = total_assets s"
      "unat (total_shares s) = unat (total_shares (kr_state r))"
      and deq: "dequeue (withdraw_queue s) =
        (Ok (popped, withdraw_queue (kr_state r)) :: (_, KernelError) result)"
      using r by (rule handle_settle_payout_Ok) (auto simp: settled_burn_def)
    moreover have "length (queue_list (withdraw_queue s)) =
        length (queue_list (withdraw_queue (kr_state r))) + 1"
      using head dequeue_head [OF vault_inv_queue [OF inv], where ?'a = KernelError] deq by fastforce
    ultimately show ?thesis by blast
  qed
  have ok: "unat (total_assets s) = unat (total_assets (kr_state r')) + unat (payout_amount p) \<and>
      unat (total_shares s) = unat (total_shares (kr_state r')) + unat (payout_burn_shares p) \<and>
      payout_amount p \<le> idle_assets s \<and> payout_burn_shares p \<le> total_shares s"
    if "handle_settle_payout s self (payout_op_id p) Success = Ok r'" for r'
    using that by (rule handle_settle_payout_Ok)
      (use assms(2) vault_inv_balanced [OF inv] in
        \<open>auto simp: settled_burn_def settled_amount_def assets_balanced_def word_le_nat_alt\<close>)
  have "(\<exists>r. handle_settle_payout s self (payout_op_id p) Success = Ok r) \<longleftrightarrow>
      payout_amount p \<le> idle_assets s \<and> payout_burn_shares p \<le> total_shares s"
    using ok settle_payout_succeeds [OF inv assms(2), of Success]
    by (auto simp: settled_burn_def settled_amount_def)
  then show ?thesis
    using r fail ok rel by (auto simp: word_eq_nat [where ?'a = 128] intro!: exI [of _ r])
qed

theorem payout_settles_witness:
  "\<exists>r. handle_settle_payout demo_paying 9 0 Failure = Ok r \<and>
     released 9 (kr_effects r) = 400 \<and> total_assets (kr_state r) = 1000"
proof -
  obtain es where run: "kernel_run all_features word_types 9 vault_new es demo_paying"
    using demo_paying_run by blast
  have "op_state demo_paying = Payout demo_payout" by (simp add: demo_paying_def)
  from payout_settles [OF run this] show ?thesis
    by (auto simp: demo_payout_def demo_paying_def demo_waiting_def demo_vault_def)
qed

text \<open>
  C4. A ready request is paid exactly as quoted. When the request at the head of the queue is due and
  covered by the idle assets, executing the queue, planning the payout from idle assets, settling the
  withdrawal with that plan and reporting the transfer as done all succeed in turn. The plan pays the
  receiver of the request the expected amount; the vault ends idle with the request gone, its assets
  reduced by the amount, and the whole escrow burned.
\<close>

theorem ready_withdrawal_is_paid:
  assumes inv: "vault_inv s" and idle: "op_state s = Idle" and np: "\<not> paused c"
    and list: "queue_list (withdraw_queue s) = e # xs" and e: "\<not> skips R self e"
    and due: "is_past_cooldown (requested_at_ns (snd e)) now (withdrawal_cooldown_ns c)"
    and covered: "expected_assets (snd e) \<le> idle_assets s" "escrow_shares (snd e) \<le> total_shares s"
    and id: "next_op_id s \<noteq> max_value"
  shows "\<exists>r plan t r'.
    handle_execute_withdraw s c R self now = Ok r \<and>
    plan_idle_payout P (kr_state r) m = Ok plan \<and>
    withdrawal_settled (op_state (kr_state r)) (ip_op_id plan) (ip_assets_out plan)
      (ip_burn_shares plan) = Ok t \<and>
    handle_settle_payout ((kr_state r)\<lparr>op_state := tr_state t\<rparr>) self (ip_op_id plan) Success = Ok r' \<and>
    ip_assets_out plan = expected_assets (snd e) \<and> ip_receiver plan = receiver (snd e) \<and>
    op_state (kr_state r') = Idle \<and> queue_list (withdraw_queue (kr_state r')) = xs \<and>
    unat (total_assets s) = unat (total_assets (kr_state r')) + unat (expected_assets (snd e)) \<and>
    unat (total_shares s) = unat (total_shares (kr_state r')) + unat (escrow_shares (snd e)) \<and>
    burned_total (kr_effects r') = unat (escrow_shares (snd e))"
proof -
  define w where "w = withdrawing_of (request_of (next_op_id s) e)"
  obtain n where n: "checked_add (next_op_id s) 1 = Some n"
    using id unat_le_max [of "next_op_id s"]
    by (cases "checked_add (next_op_id s) 1")
      (auto simp: checked_add_eq_None unat_max_value word_eq_nat [where ?'a = 64])
  have nz: "escrow_shares (snd e) \<noteq> 0" "expected_assets (snd e) \<noteq> 0"
    using inv list e
    by (auto simp: vault_inv_def skips_def pending_withdrawal_skip_reason_def split: if_splits)
  obtain q where q: "queue_wf q" "queue_list q = e # xs"
    and exec: "handle_execute_withdraw s c R self now = execute_spec s c R self now q"
    by (rule handle_execute_withdraw_wf [OF vault_inv_queue [OF inv] idle np, of R self now])
      (simp add: list e)
  let ?s1 = "s\<lparr>withdraw_queue := q, next_op_id := n, op_state := Withdrawing w\<rparr>"
  obtain es where r: "handle_execute_withdraw s c R self now = Ok \<lparr>kr_state = ?s1, kr_effects = es\<rparr>"
    using list e due covered nz n
    by (auto simp: exec execute_spec_def Let_def word_guard start_withdrawal_def is_idle_op_def w_def
      request_of_def allocate_op_id_def)
  have inv1: "vault_inv ?s1"
    using handle_execute_withdraw_inv [OF inv r] by simp
  have head: "queue_head q = Some e" using q by (simp add: queue_head_list)
  define plan where "plan = \<lparr>ip_op_id = next_op_id s, ip_request_id = fst e, ip_owner = owner (snd e),
    ip_receiver = receiver (snd e), ip_assets_out = expected_assets (snd e),
    ip_burn_shares = escrow_shares (snd e)\<rparr>"
  have plan: "plan_idle_payout P ?s1 m = Ok plan"
    using covered nz
    by (cases e) (simp add: plan_idle_payout_def head w_def withdrawing_of_def request_of_def plan_def
      has_actionable_withdrawal_liquidity_def compute_idle_settlement_def burn_all_def)
  define p where "p = payout_of (wd_advance w (expected_assets (snd e))) (escrow_shares (snd e))"
  have pf: "payout_op_id p = next_op_id s" "payout_amount p = expected_assets (snd e)"
    "payout_burn_shares p = escrow_shares (snd e)" "payout_escrow_shares p = escrow_shares (snd e)"
    by (simp_all add: p_def payout_of_def w_def withdrawing_of_def request_of_def wd_advance_def)
  define t where "t = \<lparr>tr_state = Payout p, tr_effects = [EmitEvent (WithdrawalCollected
    (next_op_id s) (escrow_shares (snd e)) (wd_collected (wd_advance w (expected_assets (snd e)))))]\<rparr>"
  have settled: "withdrawal_settled (op_state ?s1) (ip_op_id plan) (ip_assets_out plan)
      (ip_burn_shares plan) = Ok t"
    unfolding withdrawal_settled_Ok
    by (simp add: plan_def t_def p_def w_def withdrawing_of_def request_of_def)
  let ?s2 = "?s1\<lparr>op_state := Payout p\<rparr>"
  have inv2: "vault_inv ?s2" using callback_inv(4) [OF inv1 settled] by (simp add: t_def)
  obtain r' where r': "handle_settle_payout ?s2 self (next_op_id s) Success = Ok r'"
    using settle_payout_succeeds [OF inv2, of p Success self] covered
    by (auto simp: settled_burn_def settled_amount_def pf)
  have final: "op_state (kr_state r') = Idle \<and> queue_list (withdraw_queue (kr_state r')) = xs \<and>
    unat (total_assets s) = unat (total_assets (kr_state r')) + unat (expected_assets (snd e)) \<and>
    unat (total_shares s) = unat (total_shares (kr_state r')) + unat (escrow_shares (snd e)) \<and>
    burned_total (kr_effects r') = unat (escrow_shares (snd e))"
    using r'
  proof (rule handle_settle_payout_Ok)
    fix p' popped
    assume p': "op_state ?s2 = Payout p'"
      and deq: "dequeue (withdraw_queue ?s2) =
        (Ok (popped, withdraw_queue (kr_state r')) :: (_, KernelError) result)"
      and sh: "unat (total_shares ?s2) = unat (total_shares (kr_state r')) + unat (settled_burn p' Success)"
      and id': "unat (idle_assets ?s2) = unat (idle_assets (kr_state r')) + unat (settled_amount p' Success)"
      and ext: "external_assets (kr_state r') = external_assets ?s2"
      and tot: "Success = Success \<Longrightarrow> unat (total_assets (kr_state r')) =
        unat (idle_assets (kr_state r')) + unat (external_assets (kr_state r'))"
      and op: "op_state (kr_state r') = Idle"
      and eff: "kr_effects r' =
        (if 0 < settled_burn p' Success then [BurnShares self (settled_burn p' Success)] else []) @
        push_refund_shares [] self (payout_owner p') (payout_escrow_shares p' - settled_burn p' Success) @
        [EmitEvent (PayoutCompleted (next_op_id s) (Success = Success) (settled_burn p' Success)
          (payout_escrow_shares p' - settled_burn p' Success) (settled_amount p' Success))]"
    have "p' = p" using p' by simp
    moreover have "queue_list (withdraw_queue (kr_state r')) = xs"
      using dequeue_wf(2) [OF q(1), of popped "withdraw_queue (kr_state r')", where ?'e = KernelError]
        dequeue_head [OF q(1), where ?'a = KernelError] q(2) deq by (cases e) fastforce
    moreover have "0 < escrow_shares (snd e)" using nz(1) by (simp add: word_gt_0)
    ultimately show ?thesis
      using sh id' ext tot op vault_inv_balanced [OF inv]
      by (simp add: eff effect_sums settled_burn_def settled_amount_def pf assets_balanced_def)
  qed
  have "handle_settle_payout (?s1\<lparr>op_state := tr_state t\<rparr>) self (ip_op_id plan) Success = Ok r'"
    using r' by (simp add: t_def plan_def)
  with r plan settled final show ?thesis
    by (intro exI [of _ "\<lparr>kr_state = ?s1, kr_effects = es\<rparr>"] exI [of _ plan] exI [of _ t] exI [of _ r'])
      (simp add: plan_def)
qed

theorem ready_withdrawal_is_paid_witness:
  "\<exists>r plan t r'. handle_execute_withdraw demo_waiting demo_config None 9 50 = Ok r \<and>
     plan_idle_payout word_types (kr_state r) 1 = Ok plan \<and> ip_assets_out plan = 400 \<and>
     withdrawal_settled (op_state (kr_state r)) (ip_op_id plan) (ip_assets_out plan)
       (ip_burn_shares plan) = Ok t \<and>
     handle_settle_payout ((kr_state r)\<lparr>op_state := tr_state t\<rparr>) 9 (ip_op_id plan) Success = Ok r' \<and>
     unat (total_assets (kr_state r')) = 600"
proof -
  have "vault_inv (kr_state \<lparr>kr_state = demo_waiting, kr_effects =
      [TransferShares 2 9 400, EmitEvent (WithdrawalRequested 0 2 3 400 400)]\<rparr>)"
    using kernel_run_inv [OF demo_run] demo_request unfolding demo_waiting_def [symmetric]
    by (rule handle_request_withdraw_inv)
  then have inv: "vault_inv demo_waiting" by simp
  have list: "queue_list (withdraw_queue demo_waiting) = [(0, \<lparr>owner = 2, receiver = 3,
      escrow_shares = 400, expected_assets = 400, requested_at_ns = 6\<rparr>)]"
    by (simp add: demo_waiting_def demo_queue_def queue_list_def pw_iter_def)
  from ready_withdrawal_is_paid [OF inv _ _ list, of demo_config None 9 50 word_types 1]
  show ?thesis
    by (force simp: demo_waiting_def demo_vault_def vault_new_def demo_config_def skips_def
      pending_withdrawal_skip_reason_def restricted_withdraw_actor_def is_past_cooldown_def
      saturating_add_def checked_add_def max_value_def)
qed

section \<open>Resets and refusals\<close>

text \<open>
  C11. The emergency reset ends every operation, but books payouts twice. In every reachable state that
  is not idle and in which the operation could return its assets without overflow, the reset succeeds
  and leaves the vault idle with the escrow of the operation returned and the supply unchanged. It adds
  what the operation holds to the idle assets: for a payout that is the amount of the payout, although
  the idle assets still include it, so that the total assets grow by it, where settling the same payout
  as failed leaves them unchanged.
\<close>

theorem emergency_reset_ends_operation:
  assumes "kernel_run F P self vault_new es s" and "op_state s \<noteq> Idle" and "no_overflow s"
  shows "\<exists>r. handle_emergency_reset s self = Ok r \<and> op_state (kr_state r) = Idle \<and>
    check_invariant (kr_state r) \<and> total_shares (kr_state r) = total_shares s \<and>
    released self (kr_effects r) =
      (case escrow_of (op_state s) of None \<Rightarrow> 0 | Some (own, n) \<Rightarrow> unat n) \<and>
    unat (total_assets (kr_state r)) = unat (total_assets s) + unat (reset_restored (op_state s)) \<and>
    (\<forall>p. op_state s = Payout p \<longrightarrow>
      unat (total_assets (kr_state r)) = unat (total_assets s) + unat (payout_amount p) \<and>
      (\<forall>r'. handle_settle_payout s self (payout_op_id p) Failure = Ok r' \<longrightarrow>
        total_assets (kr_state r') = total_assets s))"
proof -
  have inv: "vault_inv s" using assms(1) by (rule kernel_run_inv)
  have "handle_emergency_reset s self \<noteq> Err e" for e
    using assms(2) by (cases "op_state s")
      (auto simp: handle_emergency_reset_def plan_emergency_reset_def Let_def and_then_eq_Err
        dequeue_not_Err)
  then obtain r where r: "handle_emergency_reset s self = Ok r"
    using recovery_not_Panic(3) [OF inv assms(3)] by (cases "handle_emergency_reset s self") auto
  note reset = handle_emergency_reset_Ok [OF r]
  have bal: "assets_balanced (kr_state r)" "vault_inv (kr_state r)"
    using handle_emergency_reset_inv [OF inv r] by (simp_all add: vault_inv_balanced)
  have total: "unat (total_assets (kr_state r)) = unat (total_assets s) + unat (reset_restored (op_state s))"
    using bal(1) vault_inv_balanced [OF inv] reset(3,4) by (simp add: assets_balanced_def)
  have "total_assets (kr_state r') = total_assets s"
    if settled: "handle_settle_payout s self i Failure = Ok r'" for i r'
    using settled by (rule handle_settle_payout_Ok) blast
  with r reset(2,5) bal total show ?thesis
    by (intro exI [of _ r]) (auto simp: reset(8) effect_sums vault_inv_def vault_wf_check_invariant
      split: option.splits)
qed

theorem emergency_reset_ends_operation_witness:
  "\<exists>r. handle_emergency_reset demo_paying 9 = Ok r \<and> total_assets demo_paying = 1000 \<and>
     unat (total_assets (kr_state r)) = 1400"
proof -
  obtain es where run: "kernel_run all_features word_types 9 vault_new es demo_paying"
    using demo_paying_run by blast
  have "op_state demo_paying \<noteq> Idle" "no_overflow demo_paying"
    by (simp_all add: demo_paying_def no_overflow_def demo_waiting_def demo_vault_def demo_payout_def
      vault_new_def max_value_def)
  from emergency_reset_ends_operation [OF run this] show ?thesis
    by (auto simp: demo_paying_def demo_payout_def demo_waiting_def demo_vault_def)
qed

text \<open>
  C12. A paused vault moves no value. While the configuration is paused, deposits, atomic withdrawals
  and redemptions, and withdrawal requests under a valid configuration are refused as paused whatever
  the state; executing the queue is refused as paused when the vault is idle. In a state that is not
  idle, the same actions are refused with an error even when the vault is not paused.
\<close>

theorem paused_or_busy_refuses:
  assumes "paused c \<or> op_state s \<noteq> Idle"
    and "a \<in> {Deposit own recv n m now, AtomicWithdraw own recv operator n m now,
      AtomicRedeem own recv operator n m now, RequestWithdraw own recv n m now, ExecuteWithdraw now}"
  shows "(\<exists>e. apply_action F P s c R self a = Err e) \<and>
    (paused c \<and> is_max_pending_valid c \<and> (a = ExecuteWithdraw now \<longrightarrow> op_state s = Idle) \<longrightarrow>
      apply_action F P s c R self a = Err (Restricted Paused))"
proof -
  have guard: "require_idle_with_nonzero_amount s i k \<noteq> Ok ()" if "op_state s \<noteq> Idle" for i k
    using that by (simp add: require_idle_with_nonzero_amount_Ok)
  have p: "enforce_restrictions c R self x = Err (Restricted Paused)" if "paused c" for x
    using that by (simp add: enforce_restrictions_def)
  show ?thesis
  proof (cases "paused c")
    case True
    with assms(2) show ?thesis
      by (auto simp: handle_deposit_def handle_atomic_withdraw_def handle_atomic_redeem_def
        handle_request_withdraw_def handle_execute_withdraw_def enforce_withdrawal_actors_def p
        is_globally_paused_def is_idle_op_def)
  next
    case False
    with assms(1) have busy: "op_state s \<noteq> Idle" by simp
    have "apply_action F P s c R self a \<noteq> Ok r" for r
      using assms(2) busy
      by (auto simp: handle_deposit_def handle_atomic_withdraw_def handle_atomic_redeem_def
        handle_request_withdraw_def handle_execute_withdraw_def guard is_idle_def is_idle_op_def)
    moreover have "apply_action F P s c R self a \<noteq> Panic"
      using assms(2) busy
      by (auto simp: value_handlers_not_Panic handle_execute_withdraw_def is_idle_op_def)
    ultimately show ?thesis
      using False by (cases "apply_action F P s c R self a") auto
  qed
qed

theorem paused_or_busy_refuses_witness:
  "apply_action all_features word_types demo_vault (demo_config\<lparr>paused := True\<rparr>) None 9
     (Deposit 1 2 100 0 6) = Err (Restricted Paused)"
  using paused_or_busy_refuses [of "demo_config\<lparr>paused := True\<rparr>" demo_vault "Deposit 1 2 100 0 6"
    1 2 100 0 6 0 all_features word_types None 9]
  by (simp add: is_max_pending_valid_def demo_config_def MAX_PENDING_def)

end
