(* ===== verification/Curator_Map.thy ===== *)
theory Curator_Map
  imports Rust_Prelude
begin

text \<open>
  The ordered map of the curator policy (\<^verbatim>\<open>OrderedMap\<close> of
  \<^verbatim>\<open>src/contract/vault/curator-primitives/src/policy/state/mod.rs\<close>) and the duplicate check of
  \<^verbatim>\<open>policy/target_set/mod.rs\<close>.

  \<^item> The map is a vector of pairs searched from the front. \<open>om_insert\<close> and \<open>om_remove\<close> return the old
    value and the new vector, as the methods do; \<open>om_put\<close> and \<open>om_delete\<close> are the same calls with the
    old value dropped.
  \<^item> The locale \<open>keyed_map\<close> is what the lease registry and the policy state rely on: lookups after an
    insertion, a removal, a retention and an update of the values, and that every operation keeps the
    keys distinct. The vector provides it (interpretation \<open>om\<close>).
\<close>

section \<open>Ordered maps\<close>

type_synonym ('k, 'v) OrderedMap = "('k \<times> 'v) list"

definition om_new :: "('k, 'v) OrderedMap" where
  "om_new = []"

fun om_insert :: "'k \<Rightarrow> 'v \<Rightarrow> ('k, 'v) OrderedMap \<Rightarrow> 'v option \<times> ('k, 'v) OrderedMap" where
  "om_insert k v [] = (None, [(k, v)])"
| "om_insert k v ((k', v') # m) =
     (if k' = k then (Some v', (k', v) # m)
      else let (old, m') = om_insert k v m in (old, (k', v') # m'))"

definition om_put :: "'k \<Rightarrow> 'v \<Rightarrow> ('k, 'v) OrderedMap \<Rightarrow> ('k, 'v) OrderedMap" where
  "om_put k v m = snd (om_insert k v m)"

definition om_get :: "('k, 'v) OrderedMap \<Rightarrow> 'k \<Rightarrow> 'v option" where
  "om_get m k = map_option snd (find (\<lambda>(candidate, _). candidate = k) m)"

definition om_contains_key :: "('k, 'v) OrderedMap \<Rightarrow> 'k \<Rightarrow> bool" where
  "om_contains_key m k \<longleftrightarrow> list_ex (\<lambda>(candidate, _). candidate = k) m"

definition om_retain :: "('k \<Rightarrow> 'v \<Rightarrow> bool) \<Rightarrow> ('k, 'v) OrderedMap \<Rightarrow> ('k, 'v) OrderedMap" where
  "om_retain f m = filter (\<lambda>(k, v). f k v) m"

fun om_remove :: "'k \<Rightarrow> ('k, 'v) OrderedMap \<Rightarrow> 'v option \<times> ('k, 'v) OrderedMap" where
  "om_remove k [] = (None, [])"
| "om_remove k ((k', v') # m) =
     (if k' = k then (Some v', m)
      else let (old, m') = om_remove k m in (old, (k', v') # m'))"

definition om_delete :: "'k \<Rightarrow> ('k, 'v) OrderedMap \<Rightarrow> ('k, 'v) OrderedMap" where
  "om_delete k m = snd (om_remove k m)"

text \<open>\<^verbatim>\<open>get_mut\<close> followed by an update of the value, and \<^verbatim>\<open>iter_mut\<close> with one for every value.\<close>

fun om_modify :: "'k \<Rightarrow> ('v \<Rightarrow> 'v) \<Rightarrow> ('k, 'v) OrderedMap \<Rightarrow> ('k, 'v) OrderedMap" where
  "om_modify k f [] = []"
| "om_modify k f ((k', v') # m) = (if k' = k then (k', f v') # m else (k', v') # om_modify k f m)"

definition om_modify_all :: "('k \<Rightarrow> 'v \<Rightarrow> 'v) \<Rightarrow> ('k, 'v) OrderedMap \<Rightarrow> ('k, 'v) OrderedMap" where
  "om_modify_all f m = map (\<lambda>(k, v). (k, f k v)) m"

definition om_keys :: "('k, 'v) OrderedMap \<Rightarrow> 'k list" where
  "om_keys m = map fst m"

definition om_values :: "('k, 'v) OrderedMap \<Rightarrow> 'v list" where
  "om_values m = map snd m"

definition om_from_iter :: "('k \<times> 'v) list \<Rightarrow> ('k, 'v) OrderedMap" where
  "om_from_iter entries = fold (\<lambda>(k, v) m. om_put k v m) entries om_new"

section \<open>Duplicates\<close>

fun find_first_duplicate :: "'a list \<Rightarrow> 'a option" where
  "find_first_duplicate [] = None"
| "find_first_duplicate (x # xs) = (if x \<in> set xs then Some x else find_first_duplicate xs)"

definition has_unique_items :: "'a list \<Rightarrow> bool" where
  "has_unique_items items \<longleftrightarrow> find_first_duplicate items = None"

lemma find_first_duplicate_None [simp]: "find_first_duplicate xs = None \<longleftrightarrow> distinct xs"
  by (induction xs) auto

lemma find_first_duplicate_not_distinct: "find_first_duplicate xs = Some x \<Longrightarrow> \<not> distinct xs"
  by (metis find_first_duplicate_None option.discI)

lemma has_unique_items_distinct: "has_unique_items xs \<longleftrightarrow> distinct xs"
  by (simp add: has_unique_items_def)

lemma find_first_duplicate_Some:
  "find_first_duplicate xs = Some x \<Longrightarrow> \<exists>as bs. xs = as @ x # bs \<and> x \<in> set bs"
proof (induction xs)
  case (Cons y ys)
  then show ?case by (cases "y \<in> set ys") (fastforce intro: exI [of _ "y # _"])+
qed simp

section \<open>The interface\<close>

locale keyed_map =
  fixes ok :: "'m \<Rightarrow> bool"
    and get :: "'m \<Rightarrow> 'k \<Rightarrow> 'v option"
    and new :: "'m"
    and put :: "'k \<Rightarrow> 'v \<Rightarrow> 'm \<Rightarrow> 'm"
    and delete :: "'k \<Rightarrow> 'm \<Rightarrow> 'm"
    and retain :: "('k \<Rightarrow> 'v \<Rightarrow> bool) \<Rightarrow> 'm \<Rightarrow> 'm"
    and modify :: "'k \<Rightarrow> ('v \<Rightarrow> 'v) \<Rightarrow> 'm \<Rightarrow> 'm"
  assumes ok_new: "ok new"
    and ok_put: "ok m \<Longrightarrow> ok (put k v m)"
    and ok_delete: "ok m \<Longrightarrow> ok (delete k m)"
    and ok_retain: "ok m \<Longrightarrow> ok (retain f m)"
    and ok_modify: "ok m \<Longrightarrow> ok (modify k g m)"
    and get_new: "get new k = None"
    and get_put: "get (put k v m) k' = (if k' = k then Some v else get m k')"
    and get_delete: "ok m \<Longrightarrow> get (delete k m) k' = (if k' = k then None else get m k')"
    and get_retain: "ok m \<Longrightarrow> get (retain f m) k =
      (case get m k of Some v \<Rightarrow> if f k v then Some v else None | None \<Rightarrow> None)"
    and get_modify: "get (modify k g m) k' = (if k' = k then map_option g (get m k) else get m k')"
begin

lemma get_retain_Some: "ok m \<Longrightarrow> get (retain f m) k = Some v \<longleftrightarrow> get m k = Some v \<and> f k v"
  by (auto simp: get_retain split: option.splits if_splits)

lemma get_retain_sub: "ok m \<Longrightarrow> get (retain f m) \<subseteq>\<^sub>m get m"
  by (simp add: map_le_def get_retain_Some dom_def) (metis get_retain_Some)

lemma put_delete: "ok m \<Longrightarrow> get (put k v (delete k m)) = get (put k v m)"
  by (simp add: fun_eq_iff get_put get_delete)

lemma ok_puts: "ok m \<Longrightarrow> ok (fold (\<lambda>(k, v). put k v) xs m)"
  by (induction xs arbitrary: m) (auto intro: ok_put)

lemma get_puts: "get (fold (\<lambda>(k, v). put k v) xs m) k =
    (case map_of (rev xs) k of Some v \<Rightarrow> Some v | None \<Rightarrow> get m k)"
  by (induction xs arbitrary: m) (auto simp: get_put map_add_def split: option.splits)

end

section \<open>The vector provides it\<close>

definition om_ok :: "('k, 'v) OrderedMap \<Rightarrow> bool" where
  "om_ok m \<longleftrightarrow> distinct (om_keys m)"

lemma om_get_simps [simp]:
  "om_get [] k = None"
  "om_get ((k', v) # m) k = (if k' = k then Some v else om_get m k)"
  by (simp_all add: om_get_def)

lemma om_get_map_of: "om_get m = map_of m"
  by (rule ext, induct_tac m) auto

lemma om_put_simps [simp]:
  "om_put k v [] = [(k, v)]"
  "om_put k v ((k', v') # m) = (if k' = k then (k', v) # m else (k', v') # om_put k v m)"
  by (simp_all add: om_put_def split: prod.splits)

lemma om_delete_simps [simp]:
  "om_delete k [] = []"
  "om_delete k ((k', v') # m) = (if k' = k then m else (k', v') # om_delete k m)"
  by (simp_all add: om_delete_def split: prod.splits)

lemma fst_om_insert [simp]: "fst (om_insert k v m) = om_get m k"
  by (induction m) (auto split: prod.splits)

lemma fst_om_remove [simp]: "fst (om_remove k m) = om_get m k"
  by (induction m) (auto split: prod.splits)

lemma om_contains_key_get: "om_contains_key m k \<longleftrightarrow> om_get m k \<noteq> None"
  by (induction m) (auto simp: om_contains_key_def)

lemma om_contains_key_keys: "om_contains_key m k \<longleftrightarrow> k \<in> set (om_keys m)"
  by (induction m) (auto simp: om_contains_key_def om_keys_def)

lemma om_get_None: "om_get m k = None \<longleftrightarrow> k \<notin> set (om_keys m)"
  by (simp add: om_get_map_of map_of_eq_None_iff om_keys_def)

lemma om_get_in: "om_get m k = Some v \<Longrightarrow> (k, v) \<in> set m"
  by (simp add: om_get_map_of map_of_SomeD)

lemma om_ok_get: "om_ok m \<Longrightarrow> (k, v) \<in> set m \<longleftrightarrow> om_get m k = Some v"
  by (simp add: om_ok_def om_keys_def om_get_map_of)

lemma om_ok_simps [simp]:
  "om_ok []" "om_ok ((k, v) # m) \<longleftrightarrow> k \<notin> set (om_keys m) \<and> om_ok m"
  by (simp_all add: om_ok_def om_keys_def)

lemma om_keys_simps [simp]:
  "om_keys [] = []" "om_keys ((k, v) # m) = k # om_keys m"
  by (simp_all add: om_keys_def)

lemma om_values_simps [simp]:
  "om_values [] = []" "om_values ((k, v) # m) = v # om_values m"
  by (simp_all add: om_values_def)

lemma om_keys_put:
  "om_keys (om_put k v m) = (if k \<in> set (om_keys m) then om_keys m else om_keys m @ [k])"
  by (induction m) auto

lemma set_om_keys_delete: "om_ok m \<Longrightarrow> set (om_keys (om_delete k m)) = set (om_keys m) - {k}"
  by (induction m) (auto split: if_splits)

lemma om_keys_modify [simp]: "om_keys (om_modify k f m) = om_keys m"
  by (induction m) auto

lemma om_keys_modify_all [simp]: "om_keys (om_modify_all f m) = om_keys m"
  by (induction m) (auto simp: om_modify_all_def)

lemma om_get_modify_all: "om_get (om_modify_all f m) k = map_option (f k) (om_get m k)"
  by (induction m) (auto simp: om_modify_all_def)

lemma set_om_keys_retain: "set (om_keys (om_retain f m)) \<subseteq> set (om_keys m)"
  by (auto simp: om_retain_def om_keys_def)

lemma om_ok_retain: "om_ok m \<Longrightarrow> om_ok (om_retain f m)"
  by (auto simp: om_ok_def om_keys_def om_retain_def distinct_map_filter)

lemma om_get_retain_Some:
  "om_ok m \<Longrightarrow> om_get (om_retain f m) k = Some v \<longleftrightarrow> om_get m k = Some v \<and> f k v"
  by (simp flip: om_ok_get add: om_ok_retain) (simp add: om_retain_def)

lemma om_get_retain:
  assumes "om_ok m"
  shows "om_get (om_retain f m) k =
    (case om_get m k of Some v \<Rightarrow> if f k v then Some v else None | None \<Rightarrow> None)"
proof -
  have "om_get (om_retain f m) k = Some w \<longleftrightarrow>
      (case om_get m k of Some v \<Rightarrow> if f k v then Some v else None | None \<Rightarrow> None) = Some w" for w
    using om_get_retain_Some [OF assms, of f k w] by (auto split: option.splits)
  then show ?thesis by (metis not_Some_eq)
qed

interpretation om: keyed_map om_ok om_get om_new om_put om_delete om_retain om_modify
proof
  fix m :: "('a, 'b) OrderedMap" and k k' v f g
  show "om_ok (om_new :: ('a, 'b) OrderedMap)" "om_get (om_new :: ('a, 'b) OrderedMap) k = None"
    by (simp_all add: om_new_def)
  show "om_get (om_put k v m) k' = (if k' = k then Some v else om_get m k')"
    by (induction m) auto
  show "om_get (om_modify k g m) k' = (if k' = k then map_option g (om_get m k) else om_get m k')"
    by (induction m) auto
  show "om_ok m \<Longrightarrow> om_ok (om_put k v m)"
    by (simp add: om_ok_def om_keys_put)
  show "om_ok m \<Longrightarrow> om_ok (om_modify k g m)"
    by (simp add: om_ok_def)
  show "om_ok m \<Longrightarrow> om_ok (om_delete k m)"
    by (induction m) (auto simp: set_om_keys_delete split: if_splits)
  show "om_ok m \<Longrightarrow> om_ok (om_retain f m)"
    by (rule om_ok_retain)
  show "om_ok m \<Longrightarrow> om_get (om_delete k m) k' = (if k' = k then None else om_get m k')"
    by (induction m) (auto simp: om_get_None split: if_splits)
  show "om_ok m \<Longrightarrow> om_get (om_retain f m) k =
      (case om_get m k of Some v \<Rightarrow> if f k v then Some v else None | None \<Rightarrow> None)"
    by (rule om_get_retain)
qed

lemma om_from_iter_ok: "om_ok (om_from_iter xs)"
  unfolding om_from_iter_def by (rule om.ok_puts [OF om.ok_new])

lemma om_from_iter_get: "om_get (om_from_iter xs) k = map_of (rev xs) k"
  unfolding om_from_iter_def by (simp add: om.get_puts om.get_new split: option.splits)

end
