(* ===== verification/Curator_Lease.thy ===== *)
theory Curator_Lease
  imports Kernel_Types Curator_Map
begin

text \<open>
  Time-based policy of the curator (under \<^verbatim>\<open>src/contract/vault/curator-primitives/src/\<close>): cooldowns
  (\<^verbatim>\<open>policy/cooldown/mod.rs\<close>), fenced market leases (\<^verbatim>\<open>policy/market_lock/mod.rs\<close> and
  \<^verbatim>\<open>policy/lock_filter/mod.rs\<close>), refresh plans (\<^verbatim>\<open>policy/refresh_plan/mod.rs\<close>) and the checked
  integer conversions (\<^verbatim>\<open>utils/mod.rs\<close>).

  \<^item> \<^verbatim>\<open>NonZeroU64\<close> is a \<open>u64\<close>; that it is not zero is the constructor's contract and appears in
    \<open>cooldown_ok\<close>.
  \<^item> The methods of the registry take \<open>&self\<close> and return the next registry, as here; the overflow of
    the fencing token is the panic of the source's \<^verbatim>\<open>expect\<close>.
  \<^item> \<open>lease_step\<close> is one successful operation on the registry together with the list of tokens issued
    so far, newest first. The invariant says that a stored lease carries the newest token of its
    target, whatever the order and the clock of the operations.
\<close>

section \<open>Integer conversions\<close>

type_synonym i128 = "128 word"

definition seconds_to_nanoseconds :: "u64 \<Rightarrow> u64 option" where
  "seconds_to_nanoseconds seconds = checked_mul seconds 1000000000"

definition u128_to_i128_checked :: "u128 \<Rightarrow> i128 option" where
  "u128_to_i128_checked v = (if unat v < 2 ^ 127 then Some v else None)"

definition nonnegative_i128_to_u128 :: "i128 \<Rightarrow> u128 option" where
  "nonnegative_i128_to_u128 v = (if 0 \<le> sint v then Some v else None)"

section \<open>Cooldowns\<close>

record Cooldown =
  cd_last_event_ns :: "u64 option"
  cd_interval_ns :: "u64 option"

datatype CooldownError = CooldownActive u64 u64

definition cooldown_new :: "u64 \<Rightarrow> Cooldown" where
  "cooldown_new interval = \<lparr>cd_last_event_ns = None, cd_interval_ns = Some interval\<rparr>"

definition cooldown_unlimited :: Cooldown where
  "cooldown_unlimited = \<lparr>cd_last_event_ns = None, cd_interval_ns = None\<rparr>"

definition cooldown_is_unlimited :: "Cooldown \<Rightarrow> bool" where
  "cooldown_is_unlimited c \<longleftrightarrow> cd_interval_ns c = None"

definition cooldown_gate :: "Cooldown \<Rightarrow> TimeGate" where
  "cooldown_gate c =
     (if cooldown_is_unlimited c then ready_now
      else case (cd_last_event_ns c, cd_interval_ns c) of
        (Some last_event, Some interval) \<Rightarrow> schedule_from last_event interval
      | _ \<Rightarrow> ready_now)"

definition cooldown_is_ready :: "Cooldown \<Rightarrow> u64 \<Rightarrow> bool" where
  "cooldown_is_ready c current_ns = is_ready (cooldown_gate c) current_ns"

definition cooldown_ready_at :: "Cooldown \<Rightarrow> u64 option" where
  "cooldown_ready_at c = ready_at_ns (cooldown_gate c)"

definition cooldown_recorded_at :: "Cooldown \<Rightarrow> u64 \<Rightarrow> Cooldown" where
  "cooldown_recorded_at c timestamp_ns =
     \<lparr>cd_last_event_ns = Some timestamp_ns, cd_interval_ns = cd_interval_ns c\<rparr>"

definition cooldown_with_last_event_ns :: "Cooldown \<Rightarrow> u64 option \<Rightarrow> Cooldown" where
  "cooldown_with_last_event_ns c last_event =
     \<lparr>cd_last_event_ns = last_event, cd_interval_ns = cd_interval_ns c\<rparr>"

definition cooldown_try_acquire :: "Cooldown \<Rightarrow> u64 \<Rightarrow> (Cooldown, CooldownError) result" where
  "cooldown_try_acquire c current_ns =
     (case cooldown_ready_at c of
        Some ready_at \<Rightarrow>
          if current_ns < ready_at then Err (CooldownActive ready_at (ready_at - current_ns))
          else Ok (cooldown_recorded_at c current_ns)
      | None \<Rightarrow> Ok (cooldown_recorded_at c current_ns))"

definition cooldown_check :: "Cooldown \<Rightarrow> u64 \<Rightarrow> (unit, CooldownError) result" where
  "cooldown_check c current_ns = and_then (cooldown_try_acquire c current_ns) (\<lambda>_. Ok ())"

definition cooldown_remaining :: "Cooldown \<Rightarrow> u64 \<Rightarrow> u64" where
  "cooldown_remaining c current_ns = remaining (cooldown_gate c) current_ns"

section \<open>Market leases\<close>

type_synonym LeaseOwner = u64
type_synonym FencingToken = u64
type_synonym LeaseDurationNs = u64

record MarketLease =
  lease_target_id :: TargetId
  lease_owner :: LeaseOwner
  lease_op_id :: "u64 option"
  lease_acquired_at :: TimestampNs
  lease_expires_at :: TimestampNs
  lease_fencing_token :: FencingToken

definition lease_is_expired :: "MarketLease \<Rightarrow> TimestampNs \<Rightarrow> bool" where
  "lease_is_expired lease now \<longleftrightarrow> lease_expires_at lease \<le> now"

definition lease_remaining :: "MarketLease \<Rightarrow> TimestampNs \<Rightarrow> LeaseDurationNs" where
  "lease_remaining lease now = saturating_sub (lease_expires_at lease) now"

datatype AcquireLeaseError = ZeroTtl | ExpiryOverflow | AlreadyLeased MarketLease

datatype ReleaseLeaseError =
    LeaseNotFound TargetId
  | OwnerMismatch TargetId LeaseOwner LeaseOwner
  | TokenMismatch TargetId FencingToken FencingToken

datatype FencingError =
    TokenNotCurrent TargetId FencingToken FencingToken
  | TokenNotFound TargetId

record MarketLeaseRegistry =
  leases_by_target :: "(TargetId, MarketLease) OrderedMap"
  next_fencing_token :: u64

definition registry_new :: MarketLeaseRegistry where
  "registry_new = \<lparr>leases_by_target = om_new, next_fencing_token = 0\<rparr>"

definition registry_is_empty :: "MarketLeaseRegistry \<Rightarrow> bool" where
  "registry_is_empty r \<longleftrightarrow> leases_by_target r = []"

definition registry_from_parts ::
    "(TargetId, MarketLease) OrderedMap \<Rightarrow> u64 \<Rightarrow> MarketLeaseRegistry" where
  "registry_from_parts leases next_token =
     (let max_lease_token = fold max (map lease_fencing_token (om_values leases)) 0
      in \<lparr>leases_by_target = leases, next_fencing_token = max next_token max_lease_token\<rparr>)"

definition active_len :: "MarketLeaseRegistry \<Rightarrow> TimestampNs \<Rightarrow> nat" where
  "active_len r now =
     length (filter (\<lambda>lease. \<not> lease_is_expired lease now) (om_values (leases_by_target r)))"

definition lease_get :: "MarketLeaseRegistry \<Rightarrow> TargetId \<Rightarrow> MarketLease option" where
  "lease_get r target = om_get (leases_by_target r) target"

definition get_active :: "MarketLeaseRegistry \<Rightarrow> TargetId \<Rightarrow> TimestampNs \<Rightarrow> MarketLease option" where
  "get_active r target now =
     (case lease_get r target of
        Some lease \<Rightarrow> if lease_is_expired lease now then None else Some lease
      | None \<Rightarrow> None)"

definition is_leased :: "MarketLeaseRegistry \<Rightarrow> TargetId \<Rightarrow> TimestampNs \<Rightarrow> bool" where
  "is_leased r target now \<longleftrightarrow> get_active r target now \<noteq> None"

definition is_leased_by_owner ::
    "MarketLeaseRegistry \<Rightarrow> TargetId \<Rightarrow> LeaseOwner \<Rightarrow> TimestampNs \<Rightarrow> bool" where
  "is_leased_by_owner r target owner_id now =
     (case get_active r target now of Some lease \<Rightarrow> lease_owner lease = owner_id | None \<Rightarrow> False)"

definition leased_targets :: "MarketLeaseRegistry \<Rightarrow> TimestampNs \<Rightarrow> TargetId list" where
  "leased_targets r now =
     map fst (filter (\<lambda>(_, lease). \<not> lease_is_expired lease now) (leases_by_target r))"

definition find_leased_targets ::
    "MarketLeaseRegistry \<Rightarrow> TargetId list \<Rightarrow> TimestampNs \<Rightarrow> TargetId list" where
  "find_leased_targets r targets now = filter (\<lambda>target. is_leased r target now) targets"

definition is_unleased :: "MarketLeaseRegistry \<Rightarrow> TargetId \<Rightarrow> TimestampNs \<Rightarrow> bool" where
  "is_unleased r target now \<longleftrightarrow> \<not> is_leased r target now"

definition excluding_leased_targets ::
    "MarketLeaseRegistry \<Rightarrow> TargetId list \<Rightarrow> TimestampNs \<Rightarrow> TargetId list" where
  "excluding_leased_targets r targets now = filter (\<lambda>target. is_unleased r target now) targets"

definition cleanup_expired :: "MarketLeaseRegistry \<Rightarrow> TimestampNs \<Rightarrow> MarketLeaseRegistry" where
  "cleanup_expired r now =
     r\<lparr>leases_by_target := om_retain (\<lambda>_ lease. \<not> lease_is_expired lease now) (leases_by_target r)\<rparr>"

definition registry_clear :: "MarketLeaseRegistry \<Rightarrow> MarketLeaseRegistry" where
  "registry_clear r = r\<lparr>leases_by_target := om_new\<rparr>"

definition try_acquire ::
    "MarketLeaseRegistry \<Rightarrow> TargetId \<Rightarrow> LeaseOwner \<Rightarrow> u64 option \<Rightarrow> TimestampNs \<Rightarrow> LeaseDurationNs
      \<Rightarrow> (MarketLeaseRegistry \<times> MarketLease, AcquireLeaseError) result" where
  "try_acquire r target owner_id op now ttl =
     (if ttl = 0 then Err ZeroTtl
      else
        and_then (ok_or (checked_add now ttl) ExpiryOverflow) (\<lambda>expires.
        let cleaned = cleanup_expired r now in
        and_then
          (case get_active cleaned target now of
             Some existing \<Rightarrow>
               if lease_owner existing \<noteq> owner_id then Err (AlreadyLeased existing) else Ok ()
           | None \<Rightarrow> Ok ()) (\<lambda>_.
        and_then (unwrap_abort (checked_add (next_fencing_token cleaned) 1)) (\<lambda>token.
        let lease = \<lparr>lease_target_id = target, lease_owner = owner_id, lease_op_id = op,
              lease_acquired_at = now, lease_expires_at = expires, lease_fencing_token = token\<rparr>
        in Ok (cleaned\<lparr>next_fencing_token := token,
                 leases_by_target := om_put target lease (leases_by_target cleaned)\<rparr>, lease)))))"

definition registry_remove :: "MarketLeaseRegistry \<Rightarrow> TargetId \<Rightarrow> MarketLeaseRegistry" where
  "registry_remove r target = r\<lparr>leases_by_target := om_delete target (leases_by_target r)\<rparr>"

definition release_if_owned ::
    "MarketLeaseRegistry \<Rightarrow> TargetId \<Rightarrow> LeaseOwner
      \<Rightarrow> (MarketLeaseRegistry, ReleaseLeaseError) result" where
  "release_if_owned r target owner_id =
     (case lease_get r target of
        None \<Rightarrow> Err (LeaseNotFound target)
      | Some existing \<Rightarrow>
          if lease_owner existing \<noteq> owner_id
          then Err (OwnerMismatch target (lease_owner existing) owner_id)
          else Ok (registry_remove r target))"

definition release_if_owned_with_token ::
    "MarketLeaseRegistry \<Rightarrow> TargetId \<Rightarrow> LeaseOwner \<Rightarrow> FencingToken
      \<Rightarrow> (MarketLeaseRegistry, ReleaseLeaseError) result" where
  "release_if_owned_with_token r target owner_id token =
     (case lease_get r target of
        None \<Rightarrow> Err (LeaseNotFound target)
      | Some existing \<Rightarrow>
          if lease_owner existing \<noteq> owner_id
          then Err (OwnerMismatch target (lease_owner existing) owner_id)
          else if lease_fencing_token existing \<noteq> token
          then Err (TokenMismatch target (lease_fencing_token existing) token)
          else Ok (registry_remove r target))"

definition force_release :: "MarketLeaseRegistry \<Rightarrow> TargetId \<Rightarrow> MarketLeaseRegistry" where
  "force_release r target = registry_remove r target"

definition force_release_by_op :: "MarketLeaseRegistry \<Rightarrow> u64 \<Rightarrow> MarketLeaseRegistry" where
  "force_release_by_op r op =
     r\<lparr>leases_by_target := om_retain (\<lambda>_ lease. lease_op_id lease \<noteq> Some op) (leases_by_target r)\<rparr>"

definition assert_token_current ::
    "MarketLeaseRegistry \<Rightarrow> TargetId \<Rightarrow> FencingToken \<Rightarrow> TimestampNs \<Rightarrow> (unit, FencingError) result" where
  "assert_token_current r target token now =
     (case get_active r target now of
        None \<Rightarrow> Err (TokenNotFound target)
      | Some current \<Rightarrow>
          if lease_fencing_token current \<noteq> token
          then Err (TokenNotCurrent target token (lease_fencing_token current))
          else Ok ())"

section \<open>Refresh plans\<close>

type_synonym RefreshPlan = "TargetId list"
type_synonym RefreshThrottle = Cooldown

record RefreshTargetStatus =
  status_target_id :: TargetId
  status_last_refresh_at :: "TimestampNs option"

record RefreshTiming =
  timing_cooldown :: DurationNs
  timing_last_refresh_at :: "TimestampNs option"

record RefreshExecutionPlan =
  rep_plan :: RefreshPlan
  rep_throttle :: RefreshThrottle

datatype RefreshPlanError =
    EmptyPlan
  | OnCooldown TimestampNs DurationNs
  | DuplicateTarget TargetId
  | TargetNotFound TargetId
  | FutureRefreshTimestamp TargetId TimestampNs TimestampNs

definition refresh_plan_new :: "TargetId list \<Rightarrow> (RefreshPlan, RefreshPlanError) result" where
  "refresh_plan_new targets =
     (if targets = [] then Err EmptyPlan
      else case find_first_duplicate targets of
        Some dup \<Rightarrow> Err (DuplicateTarget dup)
      | None \<Rightarrow> Ok targets)"

definition throttle_new :: "DurationNs \<Rightarrow> TimestampNs option \<Rightarrow> RefreshThrottle" where
  "throttle_new cooldown last_refresh_at =
     cooldown_with_last_event_ns
       (if cooldown = 0 then cooldown_unlimited else cooldown_new cooldown) last_refresh_at"

fun on_cooldown :: "CooldownError \<Rightarrow> RefreshPlanError" where
  "on_cooldown (CooldownActive ready_at left) = OnCooldown ready_at left"

definition throttle_check :: "RefreshThrottle \<Rightarrow> TimestampNs \<Rightarrow> (unit, RefreshPlanError) result" where
  "throttle_check throttle current_time = map_err on_cooldown (cooldown_check throttle current_time)"

definition throttle_try_acquire ::
    "RefreshThrottle \<Rightarrow> TimestampNs \<Rightarrow> (RefreshThrottle, RefreshPlanError) result" where
  "throttle_try_acquire throttle current_time =
     map_err on_cooldown (cooldown_try_acquire throttle current_time)"

definition record_completion :: "RefreshThrottle \<Rightarrow> TimestampNs \<Rightarrow> RefreshThrottle" where
  "record_completion throttle completed_at = cooldown_recorded_at throttle completed_at"

definition cooldown_duration :: "RefreshThrottle \<Rightarrow> DurationNs" where
  "cooldown_duration throttle = (case cd_interval_ns throttle of None \<Rightarrow> 0 | Some i \<Rightarrow> i)"

fun all_enabled :: "TargetId list \<Rightarrow> TargetId list \<Rightarrow> (unit, RefreshPlanError) result" where
  "all_enabled enabled [] = Ok ()"
| "all_enabled enabled (target # targets) =
     (if target \<notin> set enabled then Err (TargetNotFound target) else all_enabled enabled targets)"

definition build_targeted_refresh_plan ::
    "TargetId list \<Rightarrow> TargetId list \<Rightarrow> (RefreshPlan, RefreshPlanError) result" where
  "build_targeted_refresh_plan targets enabled =
     and_then (refresh_plan_new targets) (\<lambda>plan.
     and_then (all_enabled enabled plan) (\<lambda>_. Ok plan))"

definition refresh_execution_plan ::
    "TargetId list \<Rightarrow> RefreshTiming \<Rightarrow> (RefreshExecutionPlan, RefreshPlanError) result" where
  "refresh_execution_plan targets timing =
     and_then (refresh_plan_new targets) (\<lambda>plan.
     Ok \<lparr>rep_plan = plan,
         rep_throttle = throttle_new (timing_cooldown timing) (timing_last_refresh_at timing)\<rparr>)"

fun filter_stale_loop ::
    "DurationNs \<Rightarrow> TimestampNs \<Rightarrow> TargetId list \<Rightarrow> RefreshTargetStatus list
      \<Rightarrow> (TargetId list, RefreshPlanError) result" where
  "filter_stale_loop max_age current_time stale [] = Ok stale"
| "filter_stale_loop max_age current_time stale (target # targets) =
     (case status_last_refresh_at target of
        None \<Rightarrow>
          filter_stale_loop max_age current_time (stale @ [status_target_id target]) targets
      | Some last_refresh \<Rightarrow>
          if current_time < last_refresh
          then Err (FutureRefreshTimestamp (status_target_id target) last_refresh current_time)
          else if max_age < saturating_sub current_time last_refresh
          then filter_stale_loop max_age current_time (stale @ [status_target_id target]) targets
          else filter_stale_loop max_age current_time stale targets)"

definition filter_stale_targets ::
    "RefreshTargetStatus list \<Rightarrow> DurationNs \<Rightarrow> TimestampNs
      \<Rightarrow> (TargetId list, RefreshPlanError) result" where
  "filter_stale_targets all_targets max_age current_time =
     filter_stale_loop max_age current_time [] all_targets"

definition build_stale_refresh_plan ::
    "RefreshTargetStatus list \<Rightarrow> DurationNs \<Rightarrow> TimestampNs \<Rightarrow> TargetId list
      \<Rightarrow> (RefreshPlan option, RefreshPlanError) result" where
  "build_stale_refresh_plan all_targets max_age current_time enabled =
     and_then (filter_stale_targets all_targets max_age current_time) (\<lambda>stale.
     if stale = [] then Ok None
     else and_then (build_targeted_refresh_plan stale enabled) (\<lambda>plan. Ok (Some plan)))"

definition build_refresh_plan_from_targets ::
    "TargetId list \<Rightarrow> DurationNs \<Rightarrow> TimestampNs option
      \<Rightarrow> (RefreshPlan \<times> RefreshThrottle, RefreshPlanError) result" where
  "build_refresh_plan_from_targets targets cooldown last_refresh_at =
     and_then (refresh_execution_plan targets
         \<lparr>timing_cooldown = cooldown, timing_last_refresh_at = last_refresh_at\<rparr>) (\<lambda>plan.
     Ok (rep_plan plan, rep_throttle plan))"

section \<open>Cooldown lemmas\<close>

definition cooldown_ok :: "Cooldown \<Rightarrow> bool" where
  "cooldown_ok c \<longleftrightarrow> cd_interval_ns c \<noteq> Some 0"

lemma cooldown_ok_simps [simp]:
  "cooldown_ok cooldown_unlimited" "cooldown_ok (cooldown_new i) \<longleftrightarrow> i \<noteq> 0"
  "cooldown_ok (cooldown_recorded_at c t) \<longleftrightarrow> cooldown_ok c" "cooldown_ok (throttle_new d l)"
  by (auto simp: cooldown_ok_def cooldown_unlimited_def cooldown_new_def cooldown_recorded_at_def
    throttle_new_def cooldown_with_last_event_ns_def)

lemma cooldown_ready_iff:
  "cooldown_is_ready c t \<longleftrightarrow>
     (case (cd_last_event_ns c, cd_interval_ns c) of
        (Some e, Some i) \<Rightarrow> min (unat e + unat i) (2 ^ 64 - 1) \<le> unat t
      | _ \<Rightarrow> True)"
  by (auto simp: cooldown_is_ready_def cooldown_gate_def cooldown_is_unlimited_def
    is_ready_schedule_from split: option.splits) (simp_all add: ready_now_def is_ready_def)

lemma cooldown_try_acquire_eq:
  "cooldown_try_acquire c t =
     (if cooldown_is_ready c t then Ok (cooldown_recorded_at c t)
      else Err (CooldownActive (the (cooldown_ready_at c)) (cooldown_remaining c t)))"
  by (auto simp: cooldown_try_acquire_def cooldown_is_ready_def cooldown_ready_at_def
    cooldown_remaining_def is_ready_def remaining_def saturating_sub_def not_less
    split: option.splits)

lemma cooldown_check_eq: "cooldown_check c t = Ok () \<longleftrightarrow> cooldown_is_ready c t"
  by (simp add: cooldown_check_def cooldown_try_acquire_eq)

text \<open>A run of acquisitions, each on the cooldown the one before returned.\<close>

fun acquire_all :: "Cooldown \<Rightarrow> u64 list \<Rightarrow> (Cooldown, CooldownError) result" where
  "acquire_all c [] = Ok c"
| "acquire_all c (t # ts) = and_then (cooldown_try_acquire c t) (\<lambda>c'. acquire_all c' ts)"

lemma acquire_all_spaced:
  assumes "acquire_all c ts = Ok c'" "cd_interval_ns c = Some i"
  shows "successively (\<lambda>t t'. min (unat t + unat i) (2 ^ 64 - 1) \<le> unat t') ts"
  using assms
proof (induction c ts rule: acquire_all.induct)
  case (2 c t ts)
  then show ?case
    by (cases ts) (auto simp: cooldown_try_acquire_eq cooldown_ready_iff cooldown_recorded_at_def
      split: if_splits option.splits)
qed simp

section \<open>Lease lemmas\<close>

lemma get_active_Some:
  "get_active r t now = Some l \<longleftrightarrow>
     om_get (leases_by_target r) t = Some l \<and> now < lease_expires_at l"
  by (auto simp: get_active_def lease_get_def lease_is_expired_def not_le split: option.splits)

lemma assert_token_current_Ok:
  "assert_token_current r t token now = Ok () \<longleftrightarrow>
     (\<exists>l. get_active r t now = Some l \<and> lease_fencing_token l = token)"
  by (auto simp: assert_token_current_def split: option.splits)

text \<open>What a granted lease is, and when one is granted.\<close>

lemma try_acquire_Ok:
  assumes "try_acquire r t w op now ttl = Ok (r', l)"
  shows "l = \<lparr>lease_target_id = t, lease_owner = w, lease_op_id = op, lease_acquired_at = now,
      lease_expires_at = now + ttl, lease_fencing_token = next_fencing_token r + 1\<rparr>"
    and "unat (now + ttl) = unat now + unat ttl" and "0 < unat ttl"
    and "unat (next_fencing_token r + 1) = unat (next_fencing_token r) + 1"
    and "r' = \<lparr>leases_by_target = om_put t l (om_retain (\<lambda>_ l. \<not> lease_is_expired l now)
      (leases_by_target r)), next_fencing_token = next_fencing_token r + 1\<rparr>"
    and "get_active (cleanup_expired r now) t now = Some e \<Longrightarrow> lease_owner e = w"
  using assms
  by (auto simp: try_acquire_def Let_def cleanup_expired_def checked_add_def unat_word_ariths
    unat_gt_0 split: if_splits option.splits)

lemma get_active_cleanup:
  "om_ok (leases_by_target r) \<Longrightarrow> get_active (cleanup_expired r now) t now = get_active r t now"
  by (auto simp: get_active_def lease_get_def cleanup_expired_def om.get_retain
    split: option.splits)

text \<open>One successful operation on the registry, with the tokens issued so far.\<close>

type_synonym lease_history = "MarketLeaseRegistry \<times> (TargetId \<times> FencingToken) list"

inductive lease_step :: "lease_history \<Rightarrow> lease_history \<Rightarrow> bool" where
  acquired: "try_acquire r t w op now ttl = Ok (r', l) \<Longrightarrow>
    lease_step (r, issued) (r', (t, lease_fencing_token l) # issued)"
| released: "release_if_owned r t w = Ok r' \<Longrightarrow> lease_step (r, issued) (r', issued)"
| released_with_token: "release_if_owned_with_token r t w token = Ok r' \<Longrightarrow>
    lease_step (r, issued) (r', issued)"
| forced: "lease_step (r, issued) (force_release r t, issued)"
| forced_by_op: "lease_step (r, issued) (force_release_by_op r op, issued)"
| cleaned: "lease_step (r, issued) (cleanup_expired r now, issued)"
| cleared: "lease_step (r, issued) (registry_clear r, issued)"

definition lease_initial :: "lease_history \<Rightarrow> bool" where
  "lease_initial h \<longleftrightarrow> h = (registry_new, [])"

fun lease_inv :: "lease_history \<Rightarrow> bool" where
  "lease_inv (r, issued) \<longleftrightarrow>
     om_ok (leases_by_target r) \<and>
     (\<forall>t l. om_get (leases_by_target r) t = Some l \<longrightarrow>
        lease_target_id l = t \<and> map_of issued t = Some (lease_fencing_token l)) \<and>
     sorted_wrt (\<lambda>newer older. snd older < snd newer) issued \<and>
     (\<forall>(t, token) \<in> set issued. token \<le> next_fencing_token r)"

text \<open>An operation that only drops leases keeps the invariant.\<close>

lemma lease_inv_shrink:
  assumes "lease_inv (r, issued)" "next_fencing_token r' = next_fencing_token r"
    and "om_ok (leases_by_target r')" "om_get (leases_by_target r') \<subseteq>\<^sub>m om_get (leases_by_target r)"
  shows "lease_inv (r', issued)"
  using assms by (auto simp: map_le_def dom_def) 

lemma lease_inv_ok: "lease_inv (r, issued) \<Longrightarrow> om_ok (leases_by_target r)"
  by simp

lemma lease_inv_remove: "lease_inv (r, issued) \<Longrightarrow> lease_inv (registry_remove r t, issued)"
  by (rule lease_inv_shrink [of r])
    (auto simp: registry_remove_def om.ok_delete map_le_def om.get_delete split: if_splits)

lemma lease_inv_acquire:
  assumes inv: "lease_inv (r, issued)" and acq: "try_acquire r t w op now ttl = Ok (r', l)"
  shows "lease_inv (r', (t, lease_fencing_token l) # issued)"
proof -
  note ok = try_acquire_Ok [OF acq]
  have fresh: "token < next_fencing_token r + 1" if "(u, token) \<in> set issued" for u token
    using inv that ok(4) by (fastforce simp: word_nat)
  show ?thesis
    using inv fresh ok(1,4,5)
    by (auto simp: om.ok_put om.ok_retain om.get_put om.get_retain_Some word_nat
      split: if_splits)
qed

interpretation leases: state_machine lease_initial lease_step lease_inv
proof
  show "lease_initial h \<Longrightarrow> lease_inv h" for h
    by (simp add: lease_initial_def registry_new_def om.ok_new om.get_new)
  show "lease_inv h'" if inv: "lease_inv h" and step: "lease_step h h'" for h h'
    using step inv
  proof (induction rule: lease_step.induct)
    case acquired
    then show ?case by (intro lease_inv_acquire)
  next
    case (released r t w r' issued)
    then have "r' = registry_remove r t"
      by (simp add: release_if_owned_def split: option.splits if_splits)
    with released.prems show ?case by (simp only: lease_inv_remove)
  next
    case (released_with_token r t w token r' issued)
    then have "r' = registry_remove r t"
      by (simp add: release_if_owned_with_token_def split: option.splits if_splits)
    with released_with_token.prems show ?case by (simp only: lease_inv_remove)
  next
    case forced
    then show ?case by (simp only: lease_inv_remove force_release_def)
  next
    case (forced_by_op r issued op)
    then show ?case
      by (auto intro!: lease_inv_shrink [of r] om.ok_retain om.get_retain_sub
        simp: force_release_by_op_def simp del: lease_inv.simps dest: lease_inv_ok)
  next
    case (cleaned r issued now)
    then show ?case
      by (auto intro!: lease_inv_shrink [of r] om.ok_retain om.get_retain_sub
        simp: cleanup_expired_def simp del: lease_inv.simps dest: lease_inv_ok)
  next
    case (cleared r issued)
    then show ?case
      by (auto intro!: lease_inv_shrink [of r] om.ok_new
        simp: registry_clear_def map_le_def om.get_new simp del: lease_inv.simps)
  qed
qed

section \<open>Refresh plan lemmas\<close>

definition is_stale :: "DurationNs \<Rightarrow> TimestampNs \<Rightarrow> RefreshTargetStatus \<Rightarrow> bool" where
  "is_stale max_age current_time status =
     (case status_last_refresh_at status of
        None \<Rightarrow> True
      | Some t \<Rightarrow> unat t + unat max_age < unat current_time)"

definition is_future :: "TimestampNs \<Rightarrow> RefreshTargetStatus \<Rightarrow> bool" where
  "is_future current_time status =
     (case status_last_refresh_at status of None \<Rightarrow> False | Some t \<Rightarrow> current_time < t)"

lemma filter_stale_loop_eq:
  "filter_stale_loop max_age now acc targets =
     (case find (is_future now) targets of
        Some s \<Rightarrow> Err (FutureRefreshTimestamp (status_target_id s) (the (status_last_refresh_at s)) now)
      | None \<Rightarrow> Ok (acc @ map status_target_id (filter (is_stale max_age now) targets)))"
  by (induction targets arbitrary: acc)
    (auto simp: is_future_def is_stale_def word_nat split: option.splits)

lemma filter_stale_targets_eq:
  "filter_stale_targets targets max_age now =
     (case find (is_future now) targets of
        Some s \<Rightarrow> Err (FutureRefreshTimestamp (status_target_id s) (the (status_last_refresh_at s)) now)
      | None \<Rightarrow> Ok (map status_target_id (filter (is_stale max_age now) targets)))"
  by (simp add: filter_stale_targets_def filter_stale_loop_eq split: option.splits)

lemma refresh_plan_new_Ok: "refresh_plan_new ts = Ok p \<longleftrightarrow> p = ts \<and> ts \<noteq> [] \<and> distinct ts"
  by (auto simp: refresh_plan_new_def dest: find_first_duplicate_not_distinct
    split: option.splits)

lemma all_enabled_Ok: "all_enabled enabled ts = Ok () \<longleftrightarrow> set ts \<subseteq> set enabled"
  by (induction ts) auto

lemma build_stale_refresh_plan_Ok:
  "build_stale_refresh_plan targets max_age now enabled = Ok (Some p) \<longleftrightarrow>
     (\<forall>s \<in> set targets. \<not> is_future now s) \<and>
     p = map status_target_id (filter (is_stale max_age now) targets) \<and>
     p \<noteq> [] \<and> distinct p \<and> set p \<subseteq> set enabled"
  by (auto simp: build_stale_refresh_plan_def filter_stale_targets_eq build_targeted_refresh_plan_def
    refresh_plan_new_Ok all_enabled_Ok find_None_iff find_Some_iff split: option.splits if_splits)

section \<open>Properties\<close>

text \<open>
  C21. Fencing. After any sequence of successful registry operations from the empty registry, in any
  order and with any clock, the fencing tokens issued are strictly increasing, and only the newest
  token issued for a target can pass \<^verbatim>\<open>assert_token_current\<close>: a superseded holder is always refused.
  A lease is granted over an active one only to the owner of that lease, the granted token is accepted
  until it expires, and the leases of other targets are not affected.
\<close>

theorem lease_fencing:
  assumes "lease_step\<^sup>*\<^sup>* (registry_new, []) (r, issued)"
  shows "sorted_wrt (\<lambda>newer older. snd older < snd newer) issued \<and>
    (\<forall>t token now. assert_token_current r t token now = Ok () \<longrightarrow> map_of issued t = Some token) \<and>
    (\<forall>t w op now ttl r' l. try_acquire r t w op now ttl = Ok (r', l) \<longrightarrow>
      (\<forall>e. get_active r t now = Some e \<longrightarrow> lease_owner e = w) \<and>
      (\<forall>now'. now' < now + ttl \<longrightarrow>
        assert_token_current r' t (lease_fencing_token l) now' = Ok ()) \<and>
      (\<forall>t' now'. t' \<noteq> t \<and> now \<le> now' \<longrightarrow> get_active r' t' now' = get_active r t' now'))"
proof -
  have inv: "lease_inv (r, issued)"
    using leases.reachable_inv [OF _ assms] by (simp only: lease_initial_def)
  have "(\<forall>e. get_active r t now = Some e \<longrightarrow> lease_owner e = w) \<and>
      (\<forall>now'. now' < now + ttl \<longrightarrow>
        assert_token_current r' t (lease_fencing_token l) now' = Ok ()) \<and>
      (\<forall>t' now'. t' \<noteq> t \<and> now \<le> now' \<longrightarrow> get_active r' t' now' = get_active r t' now')"
    if acq: "try_acquire r t w op now ttl = Ok (r', l)" for t w op now ttl r' l
  proof -
    note ok = try_acquire_Ok [OF acq]
    have "get_active r' t' now' = get_active r t' now'" if "t' \<noteq> t" "now \<le> now'" for t' now'
      using that lease_inv_ok [OF inv]
      by (auto simp: ok(5) get_active_def lease_get_def om.get_put om.get_retain lease_is_expired_def
        split: option.splits)
    moreover have "get_active r' t now' = Some l" if "now' < now + ttl" for now'
      using that by (simp add: ok(1,5) get_active_Some om.get_put)
    ultimately show ?thesis
      using ok(6) get_active_cleanup [OF lease_inv_ok [OF inv]] by (auto simp: assert_token_current_Ok)
  qed
  then show ?thesis
    using inv by (auto simp: assert_token_current_Ok get_active_Some)
qed

definition demo_registry :: MarketLeaseRegistry where
  "demo_registry = \<lparr>leases_by_target =
     [(7, \<lparr>lease_target_id = 7, lease_owner = 2, lease_op_id = None, lease_acquired_at = 20,
        lease_expires_at = 25, lease_fencing_token = 2\<rparr>)], next_fencing_token = 2\<rparr>"

lemma demo_registry_reached: "lease_step\<^sup>*\<^sup>* (registry_new, []) (demo_registry, [(7, 2), (7, 1)])"
proof -
  let ?l = "\<lparr>lease_target_id = 7, lease_owner = 1, lease_op_id = None, lease_acquired_at = 10,
    lease_expires_at = 15, lease_fencing_token = 1\<rparr>"
  let ?r = "\<lparr>leases_by_target = [(7, ?l)], next_fencing_token = 1\<rparr>"
  note evals = try_acquire_def registry_new_def checked_add_def cleanup_expired_def om_retain_def
    om_new_def get_active_def lease_get_def lease_is_expired_def demo_registry_def Let_def
  have "try_acquire registry_new 7 1 None 10 5 = Ok (?r, ?l)"
    by (simp add: evals)
  moreover have "try_acquire ?r 7 2 None 20 5 = Ok (demo_registry,
      \<lparr>lease_target_id = 7, lease_owner = 2, lease_op_id = None, lease_acquired_at = 20,
        lease_expires_at = 25, lease_fencing_token = 2\<rparr>)"
    by (simp add: evals)
  ultimately have "lease_step (registry_new, []) (?r, [(7, 1)])"
      "lease_step (?r, [(7, 1)]) (demo_registry, [(7, 2), (7, 1)])"
    using lease_step.acquired by fastforce+
  then show ?thesis by (rule converse_rtranclp_into_rtranclp [OF _ r_into_rtranclp])
qed

theorem lease_fencing_witness:
  "lease_step\<^sup>*\<^sup>* (registry_new, []) (demo_registry, [(7, 2), (7, 1)]) \<and>
   assert_token_current demo_registry 7 2 22 = Ok () \<and>
   assert_token_current demo_registry 7 1 22 = Err (TokenNotCurrent 7 1 2) \<and>
   map_of [(7 :: TargetId, 2 :: FencingToken), (7, 1)] 7 = Some 2"
proof -
  have "assert_token_current demo_registry 7 2 22 = Ok ()"
    by (simp add: assert_token_current_def get_active_def lease_get_def demo_registry_def
      lease_is_expired_def)
  moreover have "assert_token_current demo_registry 7 1 22 = Err (TokenNotCurrent 7 1 2)"
    by (simp add: assert_token_current_def get_active_def lease_get_def demo_registry_def
      lease_is_expired_def)
  ultimately show ?thesis
    using lease_fencing [OF demo_registry_reached] demo_registry_reached by blast
qed

text \<open>
  C27. Rate limiting. When a cooldown with a finite interval is acquired repeatedly, each acquisition
  on the state the one before left, any two consecutive acquisitions are at least the interval apart
  (up to the saturation of the 64-bit clock); a refused acquisition reports exactly the missing time.
\<close>

theorem cooldown_spacing:
  assumes "cd_interval_ns c = Some i"
  shows "(\<forall>ts c'. acquire_all c ts = Ok c' \<longrightarrow>
      successively (\<lambda>t t'. min (unat t + unat i) (2 ^ 64 - 1) \<le> unat t') ts) \<and>
    (\<forall>t ready left. cooldown_try_acquire c t = Err (CooldownActive ready left) \<longrightarrow>
      unat ready = unat t + unat left \<and> left \<noteq> 0 \<and> cooldown_is_ready c ready)"
proof -
  have "unat ready = unat t + unat left \<and> left \<noteq> 0 \<and> cooldown_is_ready c ready"
    if "cooldown_try_acquire c t = Err (CooldownActive ready left)" for t ready left
    using that
    by (auto simp: cooldown_try_acquire_def cooldown_ready_at_def cooldown_is_ready_def is_ready_def
      unat_sub word_less_nat_alt word_le_nat_alt word_eq_nat [where ?'a = 64]
      split: option.splits if_splits)
  then show ?thesis using acquire_all_spaced [OF _ assms] by blast
qed

theorem cooldown_spacing_witness:
  "acquire_all (cooldown_new 5) [10, 15, 23] = Ok \<lparr>cd_last_event_ns = Some 23, cd_interval_ns = Some 5\<rparr> \<and>
   successively (\<lambda>t t'. min (unat (t :: u64) + unat (5 :: u64)) (2 ^ 64 - 1) \<le> unat t') [10, 15, 23]"
proof -
  have "acquire_all (cooldown_new 5) [10, 15, 23] =
      Ok \<lparr>cd_last_event_ns = Some 23, cd_interval_ns = Some 5\<rparr>"
    by (simp add: cooldown_try_acquire_eq cooldown_ready_iff cooldown_new_def cooldown_recorded_at_def)
  moreover have interval: "cd_interval_ns (cooldown_new 5) = Some 5" by (simp add: cooldown_new_def)
  ultimately show ?thesis using cooldown_spacing [OF interval] by blast
qed

end
