(* ===== verification/Curator_Supply.thy ===== *)
theory Curator_Supply
  imports Curator_Lease "HOL-Library.Multiset"
begin

text \<open>
  The supply queue of pending allocation requests
  (\<^verbatim>\<open>src/contract/vault/curator-primitives/src/policy/supply_queue/mod.rs\<close>).

  \<^item> The queue holds one bucket per priority, a cached length and an optional bound. A method that takes
    \<open>&mut self\<close> returns its result and the queue it leaves: an error may leave a changed queue.
  \<^item> Indexing a missing bucket is the panic of the slice index; \<open>sq_ok\<close> is the invariant of a queue made
    by \<open>sq_new\<close>.
  \<^item> The locale \<open>stable_priority_queue\<close> is the contract: items leave by descending priority and, within
    one priority, in the order they came. Filling a queue is then a stable sort.
\<close>

type_synonym u8 = "8 word"

section \<open>Entries and the queue\<close>

record SupplyQueueEntry =
  sq_target_id :: TargetId
  sq_amount :: u128
  sq_priority :: u8

record SupplyQueue =
  sq_buckets :: "SupplyQueueEntry list list"
  sq_len :: u32
  sq_max_length :: "u32 option"

datatype SupplyQueueError =
    QueueFull u32
  | QueueTooLong u32 u32
  | ZeroSupplyAmount
  | PriorityBucketMismatch u8 u8
  | LengthMismatch u32 u32
  | LengthOverflow
  | SupplyAmountOverflow
  | QueueEmpty

definition sq_entry_new_with_priority ::
    "TargetId \<Rightarrow> u128 \<Rightarrow> u8 \<Rightarrow> (SupplyQueueEntry, SupplyQueueError) result" where
  "sq_entry_new_with_priority target amount priority =
     (if amount = 0 then Err ZeroSupplyAmount
      else Ok \<lparr>sq_target_id = target, sq_amount = amount, sq_priority = priority\<rparr>)"

definition sq_entry_new :: "TargetId \<Rightarrow> u128 \<Rightarrow> (SupplyQueueEntry, SupplyQueueError) result" where
  "sq_entry_new target amount = sq_entry_new_with_priority target amount 0"

definition sq_entry_validate :: "SupplyQueueEntry \<Rightarrow> (unit, SupplyQueueError) result" where
  "sq_entry_validate entry = (if sq_amount entry = 0 then Err ZeroSupplyAmount else Ok ())"

definition sq_new :: "u32 option \<Rightarrow> SupplyQueue" where
  "sq_new bound = \<lparr>sq_buckets = replicate 256 [], sq_len = 0, sq_max_length = bound\<rparr>"

text \<open>The length check of \<^verbatim>\<open>validate\<close>, a fold that stops at the first overflow.\<close>

fun sq_actual_len ::
    "u32 \<Rightarrow> SupplyQueueEntry list list \<Rightarrow> (u32, SupplyQueueError) result" where
  "sq_actual_len acc [] = Ok acc"
| "sq_actual_len acc (bucket # bs) =
     (if length bucket < 2 ^ 32
      then and_then (ok_or (checked_add acc (of_nat (length bucket))) LengthOverflow)
        (\<lambda>acc'. sq_actual_len acc' bs)
      else Err LengthOverflow)"

fun sq_validate_bucket :: "u8 \<Rightarrow> SupplyQueueEntry list \<Rightarrow> (unit, SupplyQueueError) result" where
  "sq_validate_bucket expected [] = Ok ()"
| "sq_validate_bucket expected (entry # es) =
     and_then (sq_entry_validate entry) (\<lambda>_.
     if sq_priority entry \<noteq> expected then Err (PriorityBucketMismatch expected (sq_priority entry))
     else sq_validate_bucket expected es)"

fun sq_validate_buckets ::
    "nat \<Rightarrow> SupplyQueueEntry list list \<Rightarrow> (unit, SupplyQueueError) result" where
  "sq_validate_buckets priority [] = Ok ()"
| "sq_validate_buckets priority (bucket # bs) =
     (if priority < 2 ^ 8
      then and_then (sq_validate_bucket (of_nat priority) bucket) (\<lambda>_.
        sq_validate_buckets (Suc priority) bs)
      else Err LengthOverflow)"

definition sq_validate :: "SupplyQueue \<Rightarrow> (unit, SupplyQueueError) result" where
  "sq_validate q =
     and_then (sq_actual_len 0 (sq_buckets q)) (\<lambda>actual.
     if sq_len q \<noteq> actual then Err (LengthMismatch (sq_len q) actual)
     else
       and_then
         (case sq_max_length q of
            Some bound \<Rightarrow> if bound < sq_len q then Err (QueueTooLong (sq_len q) bound) else Ok ()
          | None \<Rightarrow> Ok ()) (\<lambda>_.
       sq_validate_buckets 0 (sq_buckets q)))"

definition sq_is_empty :: "SupplyQueue \<Rightarrow> bool" where
  "sq_is_empty q \<longleftrightarrow> sq_len q = 0"

definition sq_is_full :: "SupplyQueue \<Rightarrow> bool" where
  "sq_is_full q = (case sq_max_length q of Some bound \<Rightarrow> bound \<le> sq_len q | None \<Rightarrow> False)"

definition sq_entries :: "SupplyQueue \<Rightarrow> SupplyQueueEntry list" where
  "sq_entries q = concat (rev (sq_buckets q))"

definition sq_bound :: "SupplyQueue \<Rightarrow> u32 option" where
  "sq_bound q = (case sq_max_length q of Some n \<Rightarrow> if n = 0 then None else Some n | None \<Rightarrow> None)"

definition push_validated_entry ::
    "SupplyQueue \<Rightarrow> SupplyQueueEntry \<Rightarrow> (unit option, SupplyQueueError) result \<times> SupplyQueue" where
  "push_validated_entry q entry =
     (let i = unat (sq_priority entry) in
      if i < length (sq_buckets q) then
        let q' = q\<lparr>sq_buckets := (sq_buckets q)[i := sq_buckets q ! i @ [entry]]\<rparr> in
        (case checked_add (sq_len q) 1 of
           Some n \<Rightarrow> (Ok (Some ()), q'\<lparr>sq_len := n\<rparr>)
         | None \<Rightarrow> (Ok None, q'))
      else (Panic, q))"

definition sq_enqueue ::
    "SupplyQueue \<Rightarrow> SupplyQueueEntry \<Rightarrow> (unit, SupplyQueueError) result \<times> SupplyQueue" where
  "sq_enqueue q entry =
     (case sq_entry_validate entry of
        Ok _ \<Rightarrow>
          if sq_is_full q
          then (case sq_max_length q of
              None \<Rightarrow> (Panic, q)
            | Some bound \<Rightarrow> (Err (QueueFull bound), q))
          else
            let (pushed, q') = push_validated_entry q entry
            in (and_then pushed (\<lambda>r. ok_or r LengthOverflow), q')
      | Err e \<Rightarrow> (Err e, q)
      | Panic \<Rightarrow> (Panic, q))"

fun sq_enqueue_all ::
    "SupplyQueue \<Rightarrow> SupplyQueueEntry list \<Rightarrow> (SupplyQueue, SupplyQueueError) result" where
  "sq_enqueue_all q [] = Ok q"
| "sq_enqueue_all q (entry # es) =
     (let (r, q') = sq_enqueue q entry in and_then r (\<lambda>_. sq_enqueue_all q' es))"

definition sq_try_from_entries ::
    "SupplyQueueEntry list \<Rightarrow> u32 option \<Rightarrow> (SupplyQueue, SupplyQueueError) result" where
  "sq_try_from_entries es bound = sq_enqueue_all (sq_new bound) es"

text \<open>The scan of the buckets from the highest priority down.\<close>

fun pop_first_nonempty ::
    "SupplyQueueEntry list list \<Rightarrow> (SupplyQueueEntry \<times> SupplyQueueEntry list list) option" where
  "pop_first_nonempty [] = None"
| "pop_first_nonempty (bucket # bs) =
     (case pop_first_nonempty bs of
        Some (entry, bs') \<Rightarrow> Some (entry, bucket # bs')
      | None \<Rightarrow> (case bucket of [] \<Rightarrow> None | entry # rest \<Rightarrow> Some (entry, rest # bs)))"

definition sq_dequeue ::
    "SupplyQueue \<Rightarrow> (SupplyQueueEntry, SupplyQueueError) result \<times> SupplyQueue" where
  "sq_dequeue q =
     (case pop_first_nonempty (sq_buckets q) of
        Some (entry, bs) \<Rightarrow>
          (Ok entry, q\<lparr>sq_buckets := bs, sq_len := saturating_sub (sq_len q) 1\<rparr>)
      | None \<Rightarrow> (Err QueueEmpty, q))"

definition sq_peek :: "SupplyQueue \<Rightarrow> SupplyQueueEntry option" where
  "sq_peek q = map_option fst (pop_first_nonempty (sq_buckets q))"

fun checked_total_amount :: "u128 \<Rightarrow> u128 list \<Rightarrow> (u128, SupplyQueueError) result" where
  "checked_total_amount acc [] = Ok acc"
| "checked_total_amount acc (amount # amounts) =
     and_then (ok_or (checked_add acc amount) SupplyAmountOverflow) (\<lambda>acc'.
     checked_total_amount acc' amounts)"

definition sq_total :: "SupplyQueue \<Rightarrow> (u128, SupplyQueueError) result" where
  "sq_total q = checked_total_amount 0 (map sq_amount (sq_entries q))"

text \<open>Adds an amount to the first pair of the target, or appends a pair.\<close>

fun add_to_target ::
    "TargetId \<Rightarrow> u128 \<Rightarrow> (TargetId \<times> u128) list \<Rightarrow> ((TargetId \<times> u128) list, SupplyQueueError) result" where
  "add_to_target target amount [] =
     and_then (ok_or (checked_add 0 amount) SupplyAmountOverflow) (\<lambda>sum. Ok [(target, sum)])"
| "add_to_target target amount ((t, subtotal) # totals) =
     (if t = target
      then and_then (ok_or (checked_add subtotal amount) SupplyAmountOverflow) (\<lambda>sum.
        Ok ((t, sum) # totals))
      else and_then (add_to_target target amount totals) (\<lambda>rest. Ok ((t, subtotal) # rest)))"

fun totals_loop ::
    "(TargetId \<times> u128) list \<Rightarrow> SupplyQueueEntry list
      \<Rightarrow> ((TargetId \<times> u128) list, SupplyQueueError) result" where
  "totals_loop totals [] = Ok totals"
| "totals_loop totals (entry # es) =
     and_then (add_to_target (sq_target_id entry) (sq_amount entry) totals) (\<lambda>totals'.
     totals_loop totals' es)"

definition totals_by_target ::
    "SupplyQueue \<Rightarrow> ((TargetId \<times> u128) list, SupplyQueueError) result" where
  "totals_by_target q = totals_loop [] (sq_entries q)"

text \<open>\<^verbatim>\<open>removed\<close> of \<^verbatim>\<open>remove_target\<close>, bucket by bucket.\<close>

definition removed_count :: "TargetId \<Rightarrow> SupplyQueueEntry list list \<Rightarrow> u32" where
  "removed_count target bs =
     fold (\<lambda>bucket removed.
       let diff = length bucket - length (filter (\<lambda>e. sq_target_id e \<noteq> target) bucket)
       in saturating_add removed (if diff < 2 ^ 32 then of_nat diff else max_value)) bs 0"

definition sq_remove_target :: "SupplyQueue \<Rightarrow> TargetId \<Rightarrow> SupplyQueue" where
  "sq_remove_target q target =
     q\<lparr>sq_buckets := map (filter (\<lambda>e. sq_target_id e \<noteq> target)) (sq_buckets q),
       sq_len := saturating_sub (sq_len q) (removed_count target (sq_buckets q))\<rparr>"

text \<open>The copy made by \<^verbatim>\<open>excluding_leased\<close>; a failed push is only a debug assertion.\<close>

fun push_unleased ::
    "MarketLeaseRegistry \<Rightarrow> TimestampNs \<Rightarrow> SupplyQueue \<Rightarrow> SupplyQueueEntry list
      \<Rightarrow> (SupplyQueue, SupplyQueueError) result" where
  "push_unleased leases now filtered [] = Ok filtered"
| "push_unleased leases now filtered (entry # es) =
     (if is_unleased leases (sq_target_id entry) now
      then (let (r, filtered') = push_validated_entry filtered entry
        in and_then r (\<lambda>_. push_unleased leases now filtered' es))
      else push_unleased leases now filtered es)"

definition sq_excluding_leased ::
    "SupplyQueue \<Rightarrow> MarketLeaseRegistry \<Rightarrow> TimestampNs \<Rightarrow> (SupplyQueue, SupplyQueueError) result" where
  "sq_excluding_leased q leases now = push_unleased leases now (sq_new (sq_bound q)) (sq_entries q)"

definition sq_drain :: "SupplyQueue \<Rightarrow> SupplyQueueEntry list \<times> SupplyQueue" where
  "sq_drain q =
     (sq_entries q, q\<lparr>sq_buckets := map (\<lambda>_. []) (sq_buckets q), sq_len := 0\<rparr>)"

fun plan_loop ::
    "(TargetId, u128) OrderedMap \<Rightarrow> (TargetId \<times> u128) list \<Rightarrow> SupplyQueueEntry list
      \<Rightarrow> (TargetId \<times> u128) list" where
  "plan_loop totals plan [] = plan"
| "plan_loop totals plan (entry # es) =
     (case om_remove (sq_target_id entry) totals of
        (Some amount, totals') \<Rightarrow> plan_loop totals' (plan @ [(sq_target_id entry, amount)]) es
      | (None, _) \<Rightarrow> plan_loop totals plan es)"

definition to_allocation_plan ::
    "SupplyQueue \<Rightarrow> ((TargetId \<times> u128) list, SupplyQueueError) result" where
  "to_allocation_plan q =
     and_then (totals_by_target q) (\<lambda>totals. Ok (plan_loop totals [] (sq_entries q)))"

definition to_allocation_plan_excluding_leased ::
    "SupplyQueue \<Rightarrow> MarketLeaseRegistry \<Rightarrow> TimestampNs
      \<Rightarrow> ((TargetId \<times> u128) list, SupplyQueueError) result" where
  "to_allocation_plan_excluding_leased q leases now =
     and_then (sq_excluding_leased q leases now) to_allocation_plan"

definition total_for_target :: "SupplyQueue \<Rightarrow> TargetId \<Rightarrow> (u128, SupplyQueueError) result" where
  "total_for_target q target =
     checked_total_amount 0 (map sq_amount (filter (\<lambda>e. sq_target_id e = target) (sq_entries q)))"

definition sq_has_target :: "SupplyQueue \<Rightarrow> TargetId \<Rightarrow> bool" where
  "sq_has_target q target \<longleftrightarrow> list_ex (\<lambda>e. sq_target_id e = target) (sq_entries q)"

section \<open>The contract of a stable priority queue\<close>

text \<open>An item goes behind those of a smaller or equal key.\<close>

definition insert_stable :: "('e \<Rightarrow> 'k::linorder) \<Rightarrow> 'e \<Rightarrow> 'e list \<Rightarrow> 'e list" where
  "insert_stable key e xs =
     takeWhile (\<lambda>x. key x \<le> key e) xs @ e # dropWhile (\<lambda>x. key x \<le> key e) xs"

lemma insert_stable_simps:
  "insert_stable key e [] = [e]"
  "insert_stable key e (x # xs) =
     (if key x \<le> key e then x # insert_stable key e xs else e # x # xs)"
  by (simp_all add: insert_stable_def)

lemma mset_insert_stable: "mset (insert_stable key e xs) = add_mset e (mset xs)"
  by (induction xs) (auto simp: insert_stable_simps)

lemma set_insert_stable: "set (insert_stable key e xs) = insert e (set xs)"
  by (metis mset_insert_stable set_mset_add_mset_insert set_mset_mset)

lemma sorted_insert_stable: "sorted (map key xs) \<Longrightarrow> sorted (map key (insert_stable key e xs))"
  by (induction xs) (auto simp: insert_stable_simps set_insert_stable)

lemma filter_insert_stable:
  "sorted (map key xs) \<Longrightarrow> filter (\<lambda>x. key x = k) (insert_stable key e xs) =
     filter (\<lambda>x. key x = k) xs @ (if key e = k then [e] else [])"
proof (induction xs)
  case (Cons x xs)
  have "filter (\<lambda>y. key y = key e) xs = []" if "\<not> key x \<le> key e"
    using Cons.prems that by (auto simp: filter_empty_conv)
  with Cons show ?case by (auto simp: insert_stable_simps)
qed (simp add: insert_stable_simps)

lemma fold_insert_stable:
  "sorted (map key xs) \<Longrightarrow> sorted (map key (fold (insert_stable key) es xs))"
  "mset (fold (insert_stable key) es xs) = mset xs + mset es"
  by (induction es arbitrary: xs) (auto simp: mset_insert_stable intro: sorted_insert_stable)

lemma filter_fold_insert_stable:
  "sorted (map key xs) \<Longrightarrow> filter (\<lambda>x. key x = k) (fold (insert_stable key) es xs) =
     filter (\<lambda>x. key x = k) (xs @ es)"
  by (induction es arbitrary: xs) (auto simp: filter_insert_stable sorted_insert_stable)

lemma fold_insert_stable_sort: "fold (insert_stable key) es [] = sort_key key es"
proof (rule properties_for_sort_key [symmetric])
  show "filter (\<lambda>x. key k = key x) (fold (insert_stable key) es []) =
      filter (\<lambda>x. key k = key x) es" for k
    using filter_fold_insert_stable [of key "[]" "key k" es] by (simp add: eq_commute)
qed (simp_all add: fold_insert_stable)

locale stable_priority_queue =
  fixes ok :: "'q \<Rightarrow> bool"
    and items :: "'q \<Rightarrow> 'e list"
    and key :: "'e \<Rightarrow> 'k::linorder"
    and enq :: "'q \<Rightarrow> 'e \<Rightarrow> 'q option"
    and deq :: "'q \<Rightarrow> ('e \<times> 'q) option"
  assumes items_sorted: "ok q \<Longrightarrow> sorted (map key (items q))"
    and enq_ok: "ok q \<Longrightarrow> enq q e = Some q' \<Longrightarrow> ok q'"
    and enq_items: "ok q \<Longrightarrow> enq q e = Some q' \<Longrightarrow> items q' = insert_stable key e (items q)"
    and deq_None: "ok q \<Longrightarrow> deq q = None \<longleftrightarrow> items q = []"
    and deq_ok: "ok q \<Longrightarrow> deq q = Some (e, q') \<Longrightarrow> ok q'"
    and deq_items: "ok q \<Longrightarrow> deq q = Some (e, q') \<Longrightarrow> items q = e # items q'"
begin

fun enqs :: "'q \<Rightarrow> 'e list \<Rightarrow> 'q option" where
  "enqs q [] = Some q"
| "enqs q (e # es) = Option.bind (enq q e) (\<lambda>q'. enqs q' es)"

fun deqs :: "nat \<Rightarrow> 'q \<Rightarrow> 'e list" where
  "deqs 0 q = []"
| "deqs (Suc n) q = (case deq q of None \<Rightarrow> [] | Some (e, q') \<Rightarrow> e # deqs n q')"

lemma enqs_items:
  "ok q \<Longrightarrow> enqs q es = Some q' \<Longrightarrow> ok q' \<and> items q' = fold (insert_stable key) es (items q)"
proof (induction es arbitrary: q)
  case (Cons e es)
  then obtain q1 where "enq q e = Some q1" "enqs q1 es = Some q'"
    by (auto simp: bind_eq_Some_conv)
  moreover have "ok q1" using Cons.prems(1) calculation(1) by (rule enq_ok)
  ultimately show ?case using Cons.IH enq_items [OF Cons.prems(1)] by simp
qed simp

lemma deqs_items: "ok q \<Longrightarrow> deqs n q = take n (items q)"
proof (induction n arbitrary: q)
  case (Suc n)
  show ?case
  proof (cases "deq q")
    case None
    then show ?thesis using deq_None [OF Suc.prems] by simp
  next
    case (Some r)
    then obtain e q' where "deq q = Some (e, q')" by (cases r) simp
    then show ?thesis using Suc.IH deq_ok [OF Suc.prems] deq_items [OF Suc.prems] by simp
  qed
qed simp

lemma filled_then_emptied:
  assumes "ok q" "items q = []" "enqs q es = Some q'" "length es \<le> n"
  shows "deqs n q' = sort_key key es"
  using enqs_items [OF assms(1,3)] assms(2,4)
  by (simp add: fold_insert_stable_sort deqs_items)

end

section \<open>The buckets implement it\<close>

text \<open>Items of higher priority come first.\<close>

definition sq_key :: "SupplyQueueEntry \<Rightarrow> nat" where
  "sq_key e = 255 - unat (sq_priority e)"

fun buckets_ok :: "nat \<Rightarrow> SupplyQueueEntry list list \<Rightarrow> bool" where
  "buckets_ok n [] \<longleftrightarrow> True"
| "buckets_ok n (b # bs) \<longleftrightarrow>
     (\<forall>e \<in> set b. unat (sq_priority e) = n \<and> sq_amount e \<noteq> 0) \<and> buckets_ok (Suc n) bs"

definition sq_ok :: "SupplyQueue \<Rightarrow> bool" where
  "sq_ok q \<longleftrightarrow> length (sq_buckets q) = 256 \<and> buckets_ok 0 (sq_buckets q) \<and>
     unat (sq_len q) = length (sq_entries q) \<and>
     (case sq_max_length q of Some bound \<Rightarrow> sq_len q \<le> bound | None \<Rightarrow> True)"

lemma priority_le_255: "unat (p :: u8) \<le> 255"
  using unsigned_less [of p, where ?'a = nat] by simp

lemma sq_key_le: "sq_key e \<le> sq_key e' \<longleftrightarrow> sq_priority e' \<le> sq_priority e"
  using priority_le_255 [of "sq_priority e"] priority_le_255 [of "sq_priority e'"]
  by (auto simp: sq_key_def word_nat)

lemma buckets_ok_member:
  "buckets_ok n bs \<Longrightarrow> e \<in> set (concat bs) \<Longrightarrow> n \<le> unat (sq_priority e) \<and> sq_amount e \<noteq> 0"
  by (induction n bs rule: buckets_ok.induct) fastforce+

lemma set_concat_rev [simp]: "set (concat (rev bs)) = set (concat bs)"
  by simp

lemma sorted_entries: "buckets_ok n bs \<Longrightarrow> sorted (map sq_key (concat (rev bs)))"
proof (induction n bs rule: buckets_ok.induct)
  case (2 n b bs)
  have "sq_key x \<le> sq_key y" if "x \<in> set (concat bs)" "y \<in> set b" for x y
    using 2(2) that buckets_ok_member [of "Suc n" bs x] by (auto simp: sq_key_def)
  moreover have "sorted (map sq_key b)"
    using 2(2) by (auto simp: sq_key_def sorted_wrt_map intro: sorted_wrt_mono_rel [of _ "\<lambda>_ _. True"])
  ultimately show ?case using 2 by (auto simp: sorted_append)
qed simp

lemma insert_stable_append:
  "\<forall>x \<in> set xs. key x \<le> key e \<Longrightarrow> insert_stable key e (xs @ ys) = xs @ insert_stable key e ys"
  "\<forall>y \<in> set ys. \<not> key y \<le> key e \<Longrightarrow> insert_stable key e (xs @ ys) = insert_stable key e xs @ ys"
  by (induction xs) (auto simp: insert_stable_simps neq_Nil_conv intro: list.exhaust [of ys])

lemma push_entries:
  assumes "buckets_ok n bs" "n + i = unat (sq_priority e)" "i < length bs"
  shows "concat (rev (bs[i := bs ! i @ [e]])) = insert_stable sq_key e (concat (rev bs))"
  using assms
proof (induction n bs arbitrary: i rule: buckets_ok.induct)
  case (2 n b bs)
  show ?case
  proof (cases i)
    case 0
    have "\<forall>x \<in> set (concat (rev bs) @ b). sq_key x \<le> sq_key e"
      using 2 0 buckets_ok_member [of "Suc n" bs] by (force simp: sq_key_def)
    then show ?thesis
      using 0 insert_stable_append(1) [of "concat (rev bs) @ b" sq_key e "[]"]
      by (simp add: insert_stable_simps)
  next
    case (Suc j)
    have "\<forall>y \<in> set b. \<not> sq_key y \<le> sq_key e"
      using 2 Suc priority_le_255 [of "sq_priority e"] by (auto simp: sq_key_def)
    then show ?thesis using 2 Suc by (simp add: insert_stable_append(2))
  qed
qed simp

lemma buckets_ok_push:
  "buckets_ok n bs \<Longrightarrow> n + i = unat (sq_priority e) \<Longrightarrow> i < length bs \<Longrightarrow> sq_amount e \<noteq> 0 \<Longrightarrow>
    buckets_ok n (bs[i := bs ! i @ [e]])"
proof (induction n bs arbitrary: i rule: buckets_ok.induct)
  case (2 n b bs)
  then show ?case by (cases i) auto
qed simp

lemma pop_first_nonempty_None: "pop_first_nonempty bs = None \<longleftrightarrow> concat (rev bs) = []"
  by (induction bs) (auto split: option.splits list.splits)

lemma pop_first_nonempty_Some:
  "pop_first_nonempty bs = Some (e, bs') \<Longrightarrow>
    concat (rev bs) = e # concat (rev bs') \<and> length bs' = length bs \<and>
    (buckets_ok n bs \<longrightarrow> buckets_ok n bs')"
proof (induction bs arbitrary: bs' n)
  case (Cons b bs)
  show ?case
  proof (cases "pop_first_nonempty bs")
    case None
    then have "concat (rev bs) = []" by (simp only: pop_first_nonempty_None)
    then show ?thesis using Cons.prems None by (auto simp del: concat_eq_Nil_conv split: list.splits)
  next
    case (Some r)
    with Cons.prems obtain bs1 where "pop_first_nonempty bs = Some (e, bs1)" "bs' = b # bs1"
      by (auto split: prod.splits)
    with Cons.IH [of bs1 "Suc n"] show ?thesis by auto
  qed
qed simp

text \<open>What an enqueue does on every branch, on a well-formed queue.\<close>

lemma push_validated_entry_ok:
  assumes "sq_ok q" "sq_amount e \<noteq> 0"
  shows "push_validated_entry q e =
    (let q' = q\<lparr>sq_buckets := (sq_buckets q)[unat (sq_priority e) :=
          sq_buckets q ! unat (sq_priority e) @ [e]]\<rparr>
     in if unat (sq_len q) + 1 < 2 ^ 32 then (Ok (Some ()), q'\<lparr>sq_len := sq_len q + 1\<rparr>)
        else (Ok None, q'))"
  using assms priority_le_255 [of "sq_priority e"]
  by (auto simp: push_validated_entry_def sq_ok_def Let_def checked_add_def)

lemma sq_ok_pushed:
  assumes ok: "sq_ok q" and amount: "sq_amount e \<noteq> 0"
    and push: "push_validated_entry q e = (Ok (Some ()), q')"
  shows "sq_entries q' = insert_stable sq_key e (sq_entries q)"
    and "unat (sq_len q') = unat (sq_len q) + 1" and "sq_max_length q' = sq_max_length q"
    and "(\<And>b. sq_max_length q = Some b \<Longrightarrow> sq_len q < b) \<Longrightarrow> sq_ok q'"
proof -
  have p: "unat (sq_priority e) < length (sq_buckets q)" "buckets_ok 0 (sq_buckets q)"
    using ok priority_le_255 [of "sq_priority e"] by (auto simp: sq_ok_def)
  have q': "unat (sq_len q) + 1 < 2 ^ 32"
      "q' = q\<lparr>sq_buckets := (sq_buckets q)[unat (sq_priority e) :=
          sq_buckets q ! unat (sq_priority e) @ [e]], sq_len := sq_len q + 1\<rparr>"
    using push by (auto simp: push_validated_entry_ok [OF ok amount] Let_def split: if_splits)
  show entries: "sq_entries q' = insert_stable sq_key e (sq_entries q)"
    using push_entries [of 0 "sq_buckets q" "unat (sq_priority e)" e] p
    by (simp add: q'(2) sq_entries_def)
  show len: "unat (sq_len q') = unat (sq_len q) + 1"
    using q'(1) by (simp add: q'(2) unat_word_ariths)
  show "sq_max_length q' = sq_max_length q" by (simp add: q'(2))
  have "length (sq_entries q') = length (sq_entries q) + 1"
    using mset_insert_stable [of sq_key e "sq_entries q"] entries by (metis size_add_mset size_mset Suc_eq_plus1)
  then show "sq_ok q'" if "\<And>b. sq_max_length q = Some b \<Longrightarrow> sq_len q < b"
    using ok p amount len buckets_ok_push [of 0 "sq_buckets q" "unat (sq_priority e)" e] that
    by (auto simp: sq_ok_def q'(2) word_nat split: option.splits)
qed

definition sq_enq :: "SupplyQueue \<Rightarrow> SupplyQueueEntry \<Rightarrow> SupplyQueue option" where
  "sq_enq q e = (case sq_enqueue q e of (Ok _, q') \<Rightarrow> Some q' | _ \<Rightarrow> None)"

definition sq_deq :: "SupplyQueue \<Rightarrow> (SupplyQueueEntry \<times> SupplyQueue) option" where
  "sq_deq q = (case sq_dequeue q of (Ok e, q') \<Rightarrow> Some (e, q') | _ \<Rightarrow> None)"

lemma sq_enq_Some:
  "sq_enq q e = Some q' \<longleftrightarrow> sq_amount e \<noteq> 0 \<and> \<not> sq_is_full q \<and>
     push_validated_entry q e = (Ok (Some ()), q')"
  by (auto simp: sq_enq_def sq_enqueue_def sq_entry_validate_def
    split: prod.splits option.splits result.splits if_splits)

lemma sq_deq_Some:
  "sq_deq q = Some (e, q') \<longleftrightarrow> (\<exists>bs. pop_first_nonempty (sq_buckets q) = Some (e, bs) \<and>
     q' = q\<lparr>sq_buckets := bs, sq_len := saturating_sub (sq_len q) 1\<rparr>)"
  by (auto simp: sq_deq_def sq_dequeue_def split: option.splits)

interpretation spq: stable_priority_queue sq_ok sq_entries sq_key sq_enq sq_deq
proof
  fix q q' e
  show "sq_ok q \<Longrightarrow> sorted (map sq_key (sq_entries q))"
    unfolding sq_ok_def sq_entries_def by (rule sorted_entries [of 0]) simp
  show "sq_ok q'" if "sq_ok q" "sq_enq q e = Some q'"
    using that sq_ok_pushed(4) [of q e q']
    by (auto simp: sq_enq_Some sq_is_full_def not_le split: option.splits)
  show "sq_entries q' = insert_stable sq_key e (sq_entries q)" if "sq_ok q" "sq_enq q e = Some q'"
    using that sq_ok_pushed(1) by (auto simp: sq_enq_Some)
  show "sq_deq q = None \<longleftrightarrow> sq_entries q = []"
    unfolding sq_entries_def pop_first_nonempty_None [symmetric]
    by (simp add: sq_deq_def sq_dequeue_def split: option.splits)
  show items: "sq_entries q = e # sq_entries q'" if "sq_deq q = Some (e, q')"
    using that pop_first_nonempty_Some by (fastforce simp: sq_deq_Some sq_entries_def)
  show "sq_ok q'" if "sq_ok q" "sq_deq q = Some (e, q')"
    using that items [OF that(2)] pop_first_nonempty_Some [of "sq_buckets q" e _ 0]
    by (auto simp: sq_deq_Some sq_ok_def word_nat split: option.splits)
qed

lemmas sq_entries_sorted = spq.items_sorted

lemma buckets_ok_empty: "buckets_ok n (replicate k [])"
  by (induction k arbitrary: n) auto

lemma sq_ok_new: "sq_ok (sq_new bound)"
  by (auto simp: sq_ok_def sq_new_def sq_entries_def buckets_ok_empty split: option.splits)

lemma sq_entries_new [simp]: "sq_entries (sq_new bound) = []"
  by (simp add: sq_entries_def sq_new_def)

lemma sq_enqueue_all_enqs: "sq_enqueue_all q es = Ok q' \<longleftrightarrow> spq.enqs q es = Some q'"
proof (induction es arbitrary: q)
  case (Cons e es)
  obtain r q1 where "sq_enqueue q e = (r, q1)" by (cases "sq_enqueue q e")
  then have "sq_enq q e = (case r of Ok _ \<Rightarrow> Some q1 | _ \<Rightarrow> None)" by (simp add: sq_enq_def)
  then show ?case using \<open>sq_enqueue q e = (r, q1)\<close> by (cases r) (simp_all add: Cons.IH)
qed simp

lemma length_concat_rev:
  "length (concat (rev bs)) = length (concat bs)"
  "length (filter P (concat (rev bs))) = length (filter P (concat bs))"
  by (induction bs) simp_all

text \<open>\<^verbatim>\<open>validate\<close> accepts exactly the well-formed queues, among those with all buckets.\<close>

lemma sq_actual_len_Ok:
  "sq_actual_len acc bs = Ok n \<longleftrightarrow> unat n = unat acc + length (concat bs)"
proof (induction bs arbitrary: acc)
  case (Cons b bs)
  have bound: "unat n < 2 ^ 32" using unsigned_less [of n, where ?'a = nat] by simp
  show ?case
  proof (cases "length b < 2 ^ 32 \<and> unat acc + length b < 2 ^ 32")
    case True
    then show ?thesis
      by (simp add: Cons checked_add_def unat_of_nat unat_word_ariths add.assoc)
  next
    case False
    then show ?thesis using bound by (auto simp: checked_add_def unat_of_nat)
  qed
qed (auto simp: word_eq_nat [where ?'a = 32])

lemma sq_validate_bucket_Ok:
  "sq_validate_bucket p b = Ok () \<longleftrightarrow> (\<forall>e \<in> set b. sq_priority e = p \<and> sq_amount e \<noteq> 0)"
  by (induction b) (auto simp: sq_entry_validate_def)

lemma sq_validate_buckets_Ok:
  "n + length bs \<le> 256 \<Longrightarrow> sq_validate_buckets n bs = Ok () \<longleftrightarrow> buckets_ok n bs"
proof (induction n bs rule: buckets_ok.induct)
  case (2 n b bs)
  then show ?case
    by (auto simp: sq_validate_bucket_Ok unat_of_nat word_eq_nat [where ?'a = 8])
qed simp

lemma sq_validate_Ok:
  "length (sq_buckets q) = 256 \<Longrightarrow> sq_validate q = Ok () \<longleftrightarrow> sq_ok q"
  by (auto simp: sq_validate_def sq_ok_def sq_actual_len_Ok sq_validate_buckets_Ok sq_entries_def
    length_concat_rev word_guard not_less split: option.splits)

text \<open>Removing a target, and the copy without leased targets.\<close>

lemma concat_rev_map_filter: "concat (rev (map (filter P) bs)) = filter P (concat (rev bs))"
  by (simp add: filter_concat rev_map)

lemma buckets_ok_filter: "buckets_ok n bs \<Longrightarrow> buckets_ok n (map (filter P) bs)"
  by (induction n bs rule: buckets_ok.induct) auto

lemma removed_count_sum:
  assumes "length (concat bs) < 2 ^ 32"
  shows "unat (removed_count t bs) = length (filter (\<lambda>e. sq_target_id e = t) (concat bs))"
proof -
  have "unat (fold (\<lambda>bucket removed. let diff = length bucket -
        length (filter (\<lambda>e. sq_target_id e \<noteq> t) bucket)
      in saturating_add removed (if diff < 2 ^ 32 then of_nat diff else max_value)) bs acc) =
      unat acc + length (filter (\<lambda>e. sq_target_id e = t) (concat bs))"
    if "unat acc + length (concat bs) < 2 ^ 32" for acc :: u32
    using that
  proof (induction bs arbitrary: acc)
    case (Cons b bs)
    let ?d = "length (filter (\<lambda>e. sq_target_id e = t) b)"
    have d: "length b - length (filter (\<lambda>e. sq_target_id e \<noteq> t) b) = ?d"
      using sum_length_filter_compl [of "\<lambda>e. sq_target_id e = t" b] by simp
    have le: "?d \<le> length b" by simp
    have "unat acc + (length b + length (concat bs)) < 4294967296" using Cons.prems by simp
    then have "?d < 4294967296" "unat acc + ?d < 4294967296" using le by linarith+
    then have "unat (saturating_add acc (of_nat ?d)) = unat acc + ?d"
      by (simp add: unat_saturating_add unat_of_nat)
    moreover have "unat acc + ?d + length (concat bs) < 4294967296"
      using \<open>unat acc + (length b + length (concat bs)) < 4294967296\<close> le by linarith
    ultimately show ?case
      using Cons.IH [of "saturating_add acc (of_nat ?d)"] \<open>?d < 4294967296\<close>
      by (simp add: d Let_def)
  qed simp
  from this [of 0] show ?thesis using assms by (simp add: removed_count_def)
qed

lemma length_filter_other:
  "length (filter (\<lambda>e. f e \<noteq> t) xs) = length xs - length (filter (\<lambda>e. f e = t) xs)"
  using sum_length_filter_compl [of "\<lambda>e. f e = t" xs] by simp

lemma sq_remove_target_ok:
  assumes "sq_ok q"
  shows "sq_entries (sq_remove_target q t) = filter (\<lambda>e. sq_target_id e \<noteq> t) (sq_entries q)"
    and "sq_ok (sq_remove_target q t)"
proof -
  show entries: "sq_entries (sq_remove_target q t) =
      filter (\<lambda>e. sq_target_id e \<noteq> t) (sq_entries q)"
    by (simp add: sq_remove_target_def sq_entries_def concat_rev_map_filter)
  have len: "length (sq_entries q) = unat (sq_len q)" using assms by (simp add: sq_ok_def)
  have eq: "length (concat (sq_buckets q)) = length (sq_entries q)"
      "length (filter P (concat (sq_buckets q))) = length (filter P (sq_entries q))" for P
    by (simp_all add: sq_entries_def length_concat_rev)
  have "unat (removed_count t (sq_buckets q)) =
      length (filter (\<lambda>e. sq_target_id e = t) (sq_entries q))"
    using removed_count_sum [of "sq_buckets q" t] len u32_bound [of "sq_len q"] by (simp add: eq)
  then have "unat (sq_len (sq_remove_target q t)) = length (sq_entries (sq_remove_target q t))"
    unfolding entries by (simp add: sq_remove_target_def word_nat len length_filter_other)
  then show "sq_ok (sq_remove_target q t)"
    using assms by (auto simp: sq_ok_def buckets_ok_filter word_nat sq_remove_target_def
      split: option.splits)
qed

lemma sq_entries_amount: "sq_ok q \<Longrightarrow> e \<in> set (sq_entries q) \<Longrightarrow> sq_amount e \<noteq> 0"
  using buckets_ok_member [of 0 "sq_buckets q" e] by (simp add: sq_ok_def sq_entries_def)

lemma push_unleased_ok:
  assumes "sq_ok q" "\<forall>e \<in> set es. sq_amount e \<noteq> 0"
    and "unat (sq_len q) + length es < 2 ^ 32"
    and "\<And>b. sq_max_length q = Some b \<Longrightarrow> unat (sq_len q) + length es \<le> unat b"
  shows "\<exists>q'. push_unleased leases now q es = Ok q' \<and> sq_ok q' \<and>
    sq_max_length q' = sq_max_length q \<and>
    sq_entries q' = fold (insert_stable sq_key)
      (filter (\<lambda>e. is_unleased leases (sq_target_id e) now) es) (sq_entries q)"
  using assms
proof (induction es arbitrary: q)
  case (Cons e es)
  show ?case
  proof (cases "is_unleased leases (sq_target_id e) now")
    case True
    obtain q1 where push: "push_validated_entry q e = (Ok (Some ()), q1)"
      using push_validated_entry_ok [of q e] Cons.prems by (auto simp: Let_def)
    note pushed = sq_ok_pushed [OF Cons.prems(1) _ push]
    have "sq_ok q1" using pushed(4) Cons.prems by (force simp: word_nat)
    then show ?thesis
      using Cons.IH [of q1] pushed(1,2,3) Cons.prems True push by simp
  next
    case False
    moreover have "unat (sq_len q) + length es \<le> unat b" if "sq_max_length q = Some b" for b
      using Cons.prems(4) that by fastforce
    ultimately show ?thesis using Cons.IH [of q] Cons.prems by simp
  qed
qed simp

lemma sort_key_sorted: "sorted (map key xs) \<Longrightarrow> fold (insert_stable key) xs [] = xs"
  by (simp add: fold_insert_stable_sort sort_key_id_if_sorted)

lemma sq_excluding_leased_ok:
  assumes "sq_ok q"
  shows "\<exists>q'. sq_excluding_leased q leases now = Ok q' \<and> sq_ok q' \<and>
    sq_entries q' = filter (\<lambda>e. is_unleased leases (sq_target_id e) now) (sq_entries q)"
proof -
  let ?q = "sq_new (sq_bound q)"
  have len: "unat (sq_len ?q) + length (sq_entries q) = unat (sq_len q)"
    using assms by (simp add: sq_ok_def sq_new_def)
  have "unat (sq_len q) \<le> unat b" if "sq_max_length ?q = Some b" for b
    using that assms
    by (auto simp: sq_ok_def sq_new_def sq_bound_def word_nat split: option.splits if_splits)
  then have "\<exists>q'. push_unleased leases now ?q (sq_entries q) = Ok q' \<and> sq_ok q' \<and>
      sq_max_length q' = sq_max_length ?q \<and>
      sq_entries q' = fold (insert_stable sq_key)
        (filter (\<lambda>e. is_unleased leases (sq_target_id e) now) (sq_entries q)) (sq_entries ?q)"
    using sq_entries_amount [OF assms] u32_bound [of "sq_len q"]
    by (intro push_unleased_ok sq_ok_new) (simp_all add: len)
  moreover have "sorted (map sq_key (filter P (sq_entries q)))" for P
    using sq_entries_sorted [OF assms] by (rule sorted_filter)
  ultimately show ?thesis
    by (simp add: sq_excluding_leased_def sort_key_sorted) blast
qed

section \<open>Filling and emptying the queue\<close>

text \<open>The entries that a number of dequeues returns.\<close>

fun sq_dequeues :: "nat \<Rightarrow> SupplyQueue \<Rightarrow> SupplyQueueEntry list" where
  "sq_dequeues 0 q = []"
| "sq_dequeues (Suc n) q =
     (case sq_dequeue q of (Ok e, q') \<Rightarrow> e # sq_dequeues n q' | _ \<Rightarrow> [])"

lemma sq_dequeues_deqs: "sq_dequeues n q = spq.deqs n q"
proof (induction n arbitrary: q)
  case (Suc n)
  obtain r q1 where deq: "sq_dequeue q = (r, q1)" by (cases "sq_dequeue q")
  then have "sq_deq q = (case r of Ok e \<Rightarrow> Some (e, q1) | _ \<Rightarrow> None)" by (simp add: sq_deq_def)
  then show ?case using deq by (cases r) (simp_all add: Suc.IH)
qed simp

lemma sq_enqueue_succeeds:
  assumes "sq_ok q" "sq_amount e \<noteq> 0" "\<not> sq_is_full q" "unat (sq_len q) + 1 < 2 ^ 32"
  shows "\<exists>q'. sq_enq q e = Some q' \<and> unat (sq_len q') = unat (sq_len q) + 1 \<and>
    sq_max_length q' = sq_max_length q"
proof -
  obtain q' where push: "push_validated_entry q e = (Ok (Some ()), q')"
    using push_validated_entry_ok [OF assms(1,2)] assms(4) by (auto simp: Let_def)
  then show ?thesis
    using sq_ok_pushed(2,3) [OF assms(1,2) push] assms(2,3) by (auto simp: sq_enq_Some)
qed

lemma enqs_succeed:
  assumes "sq_ok q" "\<forall>e \<in> set es. sq_amount e \<noteq> 0" "unat (sq_len q) + length es < 2 ^ 32"
    and "\<And>b. sq_max_length q = Some b \<Longrightarrow> unat (sq_len q) + length es \<le> unat b"
  shows "\<exists>q'. spq.enqs q es = Some q'"
  using assms
proof (induction es arbitrary: q)
  case (Cons e es)
  have "\<not> sq_is_full q"
    using Cons.prems(4) by (auto simp: sq_is_full_def word_nat split: option.splits)
  then obtain q1 where q1: "sq_enq q e = Some q1" "unat (sq_len q1) = unat (sq_len q) + 1"
      "sq_max_length q1 = sq_max_length q"
    using sq_enqueue_succeeds [of q e] Cons.prems by auto
  then have "\<exists>q'. spq.enqs q1 es = Some q'"
    using Cons.prems spq.enq_ok [OF Cons.prems(1) q1(1)] by (intro Cons.IH) auto
  then show ?case using q1(1) by simp
qed simp

text \<open>
  C24. Filling a supply queue with valid entries, at most as many as its bound, always succeeds and
  leaves a queue that \<^verbatim>\<open>validate\<close> accepts. Its entries, what \<^verbatim>\<open>drain\<close> returns and what repeated
  calls of \<^verbatim>\<open>dequeue\<close> return are the stable sort of the given entries by descending priority: higher
  priorities first, and first come first served within a priority.
\<close>

theorem supply_queue_sorts:
  assumes "\<forall>e \<in> set es. sq_amount e \<noteq> 0" "length es < 2 ^ 32"
    and "\<forall>b. bound = Some b \<longrightarrow> length es \<le> unat b"
  shows "\<exists>q. sq_try_from_entries es bound = Ok q \<and> sq_validate q = Ok () \<and>
    sq_entries q = sort_key sq_key es \<and> fst (sq_drain q) = sort_key sq_key es \<and>
    sq_dequeues (length es) q = sort_key sq_key es \<and>
    fst (sq_dequeue (snd (sq_drain q))) = Err QueueEmpty"
proof -
  have ok: "sq_ok (sq_new bound)" by (rule sq_ok_new)
  obtain q where q: "spq.enqs (sq_new bound) es = Some q"
    using enqs_succeed [OF ok, of es] assms by (auto simp: sq_new_def)
  have "sq_ok q" "sq_entries q = sort_key sq_key es"
    using spq.enqs_items [OF ok q] by (simp_all add: fold_insert_stable_sort)
  moreover have "sq_dequeues (length es) q = sort_key sq_key es"
    unfolding sq_dequeues_deqs by (rule spq.filled_then_emptied [OF ok _ q]) simp_all
  moreover have "pop_first_nonempty (map (\<lambda>_. []) bs) = None" for bs :: "SupplyQueueEntry list list"
    by (simp add: pop_first_nonempty_None)
  ultimately show ?thesis
    using q sq_validate_Ok [of q]
    by (auto simp: sq_try_from_entries_def sq_enqueue_all_enqs sq_drain_def sq_ok_def sq_dequeue_def)
qed

definition demo_entries :: "SupplyQueueEntry list" where
  "demo_entries =
     [\<lparr>sq_target_id = 1, sq_amount = 10, sq_priority = 0\<rparr>,
      \<lparr>sq_target_id = 2, sq_amount = 20, sq_priority = 9\<rparr>,
      \<lparr>sq_target_id = 1, sq_amount = 5, sq_priority = 9\<rparr>]"

theorem supply_queue_sorts_witness:
  "\<exists>q. sq_try_from_entries demo_entries (Some 3) = Ok q \<and> sq_validate q = Ok () \<and>
    map sq_target_id (sq_dequeues (length demo_entries) q) = [2, 1, 1] \<and>
    map sq_amount (sq_entries q) = [20, 5, 10]"
  using supply_queue_sorts [of demo_entries "Some 3"]
  by (auto simp: demo_entries_def sq_key_def simp del: sq_dequeues.simps)

section \<open>Allocation plans\<close>

text \<open>Items in the order of their first occurrence, and the sum of a target's amounts.\<close>

fun firsts :: "'a list \<Rightarrow> 'a list" where
  "firsts [] = []"
| "firsts (x # xs) = x # filter (\<lambda>y. y \<noteq> x) (firsts xs)"

definition target_sum :: "SupplyQueueEntry list \<Rightarrow> TargetId \<Rightarrow> nat" where
  "target_sum es t = (\<Sum>e \<leftarrow> filter (\<lambda>e. sq_target_id e = t) es. unat (sq_amount e))"

lemma target_sum_simps [simp]:
  "target_sum [] t = 0"
  "target_sum (e # es) t = (if sq_target_id e = t then unat (sq_amount e) else 0) + target_sum es t"
  by (simp_all add: target_sum_def)

lemma set_firsts [simp]: "set (firsts xs) = set xs"
  by (induction xs) auto

lemma distinct_firsts [simp]: "distinct (firsts xs)"
  by (induction xs) auto

definition om_get_or0 :: "(TargetId, u128) OrderedMap \<Rightarrow> TargetId \<Rightarrow> u128" where
  "om_get_or0 m t = (case om_get m t of Some v \<Rightarrow> v | None \<Rightarrow> 0)"

lemma add_to_target_put:
  "add_to_target t a m =
     and_then (ok_or (checked_add (om_get_or0 m t) a) SupplyAmountOverflow) (\<lambda>v. Ok (om_put t v m))"
  by (induction m) (auto simp: om_get_or0_def and_then_assoc)

lemma totals_loop_Ok:
  "totals_loop m es = Ok m' \<Longrightarrow>
    (\<forall>t. unat (om_get_or0 m' t) = unat (om_get_or0 m t) + target_sum es t) \<and>
    om_keys m' = om_keys m @ filter (\<lambda>t. t \<notin> set (om_keys m)) (firsts (map sq_target_id es))"
proof (induction es arbitrary: m)
  case (Cons e es)
  then obtain v where v: "unat v = unat (om_get_or0 m (sq_target_id e)) + unat (sq_amount e)"
      and loop: "totals_loop (om_put (sq_target_id e) v m) es = Ok m'"
    by (auto simp: add_to_target_put word_nat)
  show ?case
    using Cons.IH [OF loop] v
    by (auto simp: om_get_or0_def om.get_put om_keys_put intro!: filter_cong)
qed simp

lemma totals_loop_cases:
  "(\<exists>m'. totals_loop m es = Ok m') \<or> totals_loop m es = Err SupplyAmountOverflow"
proof (induction es arbitrary: m)
  case (Cons e es)
  then show ?case
    by (cases "checked_add (om_get_or0 m (sq_target_id e)) (sq_amount e)")
      (simp_all add: add_to_target_put)
qed simp

lemma totals_loop_fits:
  assumes "\<And>t. unat (om_get_or0 m t) + target_sum es t < 2 ^ 128"
  shows "\<exists>m'. totals_loop m es = Ok m'"
  using assms
proof (induction es arbitrary: m)
  case (Cons e es)
  let ?t = "sq_target_id e"
  have "unat (om_get_or0 m ?t) + unat (sq_amount e) < 2 ^ 128"
    using Cons.prems [of ?t] by simp
  then obtain v where v: "checked_add (om_get_or0 m ?t) (sq_amount e) = Some v"
    by (simp add: checked_add_def)
  then have "unat (om_get_or0 (om_put ?t v m) t) + target_sum es t < 2 ^ 128" for t
    using Cons.prems [of t]
    by (simp add: om_get_or0_def om.get_put checked_add_eq_Some split: if_splits)
  then show ?case using Cons.IH [of "om_put ?t v m"] v by (simp add: add_to_target_put)
qed simp

text \<open>The plan lists the totals in the order in which they were collected.\<close>

lemma plan_loop_totals:
  assumes "om_ok m" "om_keys m = filter (\<lambda>t. t \<notin> S) (firsts (map sq_target_id es))"
  shows "plan_loop m plan es = plan @ m"
  using assms
proof (induction es arbitrary: m plan S)
  case (Cons e es)
  let ?t = "sq_target_id e"
  show ?case
  proof (cases "?t \<in> S")
    case True
    then have keys: "om_keys m = filter (\<lambda>t. t \<notin> S) (firsts (map sq_target_id es))"
      using Cons.prems(2) by (auto intro!: filter_cong)
    have "om_get m ?t = None" using True keys by (simp add: om_get_None)
    then obtain m1 where "om_remove ?t m = (None, m1)" by (metis fst_om_remove prod.collapse)
    then show ?thesis using Cons.IH [OF Cons.prems(1) keys] by simp
  next
    case False
    then have "om_keys m = ?t # filter (\<lambda>t. t \<notin> insert ?t S) (firsts (map sq_target_id es))"
      using Cons.prems(2) by (auto intro!: filter_cong)
    then obtain v m' where m: "m = (?t, v) # m'" and
        keys: "om_keys m' = filter (\<lambda>t. t \<notin> insert ?t S) (firsts (map sq_target_id es))"
      by (cases m) auto
    then show ?thesis using Cons.IH [OF _ keys] Cons.prems(1) by simp
  qed
qed (simp add: om_keys_def)

lemma totals_by_target_Ok:
  assumes "totals_by_target q = Ok m"
  shows "om_ok m" and "om_keys m = firsts (map sq_target_id (sq_entries q))"
    and "(t, a) \<in> set m \<Longrightarrow> unat a = target_sum (sq_entries q) t"
proof -
  have loop: "totals_loop [] (sq_entries q) = Ok m"
    using assms by (simp add: totals_by_target_def)
  show keys: "om_keys m = firsts (map sq_target_id (sq_entries q))"
    using totals_loop_Ok [OF loop] by simp
  then show ok: "om_ok m" by (simp add: om_ok_def)
  show "unat a = target_sum (sq_entries q) t" if "(t, a) \<in> set m"
    using conjunct1 [OF totals_loop_Ok [OF loop], rule_format, of t] that
    by (simp add: om_ok_get [OF ok] om_get_or0_def)
qed

text \<open>
  C25. The allocation plan of a supply queue names every queued target exactly once, in the order in
  which the queue serves them, with the exact sum of the target's queued amounts. It is the list
  that \<^verbatim>\<open>totals_by_target\<close> computes, and it fails, with an amount overflow, exactly when some
  target's sum does not fit into 128 bits.
\<close>

theorem allocation_plan_exact:
  "to_allocation_plan q = totals_by_target q \<and>
   (if \<exists>t. 2 ^ 128 \<le> target_sum (sq_entries q) t
    then to_allocation_plan q = Err SupplyAmountOverflow
    else \<exists>plan. to_allocation_plan q = Ok plan \<and>
      map fst plan = firsts (map sq_target_id (sq_entries q)) \<and>
      map (\<lambda>(t, a). unat a) plan = map (target_sum (sq_entries q)) (map fst plan))"
proof -
  have same: "to_allocation_plan q = totals_by_target q"
  proof (cases "totals_by_target q")
    case (Ok m)
    then show ?thesis
      using plan_loop_totals [of m "{}" "sq_entries q" "[]"] totals_by_target_Ok(1,2) [OF Ok]
      by (simp add: to_allocation_plan_def)
  qed (simp_all add: to_allocation_plan_def)
  show ?thesis
  proof (cases "totals_by_target q")
    case (Ok m)
    have "target_sum (sq_entries q) t < 2 ^ 128" for t
      using totals_loop_Ok [of "[]" "sq_entries q" m] Ok
        unsigned_less [of "om_get_or0 m t", where ?'a = nat]
      by (simp add: totals_by_target_def om_get_or0_def)
    then have fits: "\<not> (\<exists>t. 2 ^ 128 \<le> target_sum (sq_entries q) t)" by (simp add: not_le)
    have "map (\<lambda>(t, a). unat a) m = map (target_sum (sq_entries q)) (map fst m)"
      using totals_by_target_Ok(3) [OF Ok] by auto
    then show ?thesis
      using same fits Ok totals_by_target_Ok(2) [OF Ok] by (simp add: om_keys_def)
  next
    case (Err e)
    then have "\<not> (\<forall>t. target_sum (sq_entries q) t < 2 ^ 128)"
      using totals_loop_fits [of "[]" "sq_entries q"]
      by (auto simp: totals_by_target_def om_get_or0_def)
    then have "\<exists>t. 2 ^ 128 \<le> target_sum (sq_entries q) t" by (simp add: not_less)
    then show ?thesis
      using Err same totals_loop_cases [of "[]" "sq_entries q"] by (auto simp: totals_by_target_def)
  next
    case Panic
    then show ?thesis using totals_loop_cases [of "[]" "sq_entries q"] by (simp add: totals_by_target_def)
  qed
qed

end
