(* ===== verification/Curator_Route.thy ===== *)
theory Curator_Route
  imports Curator_Supply "HOL-Library.Product_Lexorder"
begin

text \<open>
  Withdrawal routes (\<^verbatim>\<open>src/contract/vault/curator-primitives/src/policy/withdraw_route/mod.rs\<close>).

  \<^item> \<^verbatim>\<open>sort_by\<close> of the standard library is a stable sort; the comparators of the source are given by a
    key: descending amount, then ascending target.
  \<^item> The lemmas give the builders in closed form: the capped total is the total cut off at the target,
    and a route is the sorted list of the positive capacities whenever these cover the target and no
    target occurs twice.
\<close>

section \<open>Routes\<close>

record WithdrawRouteEntry =
  wr_target_id :: TargetId
  wr_max_amount :: u128
  wr_available_liquidity :: "u128 option"

record WithdrawPlanEntry =
  wp_target_id :: TargetId
  wp_max_amount :: u128

record WithdrawRoute =
  wr_entries :: "WithdrawRouteEntry list"
  wr_target_amount :: u128

datatype WithdrawRouteError =
    ZeroTargetAmount
  | EmptyRoute
  | InsufficientRouteTotal u128 u128
  | RouteDuplicateTarget TargetId
  | ZeroMaxAmount TargetId
  | LiquidityLessThanMaxAmount TargetId u128 u128
  | RouteAmountOverflow
  | LockedTargetsExcluded WithdrawRouteError

definition route_entry_new ::
    "TargetId \<Rightarrow> u128 \<Rightarrow> (WithdrawRouteEntry, WithdrawRouteError) result" where
  "route_entry_new target max_amount =
     (if max_amount = 0 then Err (ZeroMaxAmount target)
      else Ok \<lparr>wr_target_id = target, wr_max_amount = max_amount, wr_available_liquidity = None\<rparr>)"

definition with_liquidity ::
    "WithdrawRouteEntry \<Rightarrow> u128 \<Rightarrow> (WithdrawRouteEntry, WithdrawRouteError) result" where
  "with_liquidity entry available =
     (if available < wr_max_amount entry
      then Err (LiquidityLessThanMaxAmount (wr_target_id entry) (wr_max_amount entry) available)
      else Ok (entry\<lparr>wr_available_liquidity := Some available\<rparr>))"

definition capped_total :: "u128 list \<Rightarrow> u128 \<Rightarrow> u128" where
  "capped_total amounts target_amount =
     fold (\<lambda>amount acc. min (saturating_add acc amount) target_amount) amounts 0"

definition reaches_target :: "u128 list \<Rightarrow> u128 \<Rightarrow> bool" where
  "reaches_target amounts target_amount \<longleftrightarrow> target_amount \<le> capped_total amounts target_amount"

fun route_checked_total :: "u128 \<Rightarrow> u128 list \<Rightarrow> (u128, WithdrawRouteError) result" where
  "route_checked_total acc [] = Ok acc"
| "route_checked_total acc (amount # amounts) =
     and_then (ok_or (checked_add acc amount) RouteAmountOverflow) (\<lambda>acc'.
     route_checked_total acc' amounts)"

definition checked_total :: "WithdrawRoute \<Rightarrow> (u128, WithdrawRouteError) result" where
  "checked_total route = route_checked_total 0 (map wr_max_amount (wr_entries route))"

fun liquidity_loop ::
    "u128 option \<Rightarrow> u128 option list \<Rightarrow> (u128 option, WithdrawRouteError) result" where
  "liquidity_loop acc [] = Ok acc"
| "liquidity_loop (Some known) (Some liquidity # ls) =
     and_then (ok_or (checked_add known liquidity) RouteAmountOverflow) (\<lambda>s. liquidity_loop (Some s) ls)"
| "liquidity_loop acc (l # ls) = liquidity_loop None ls"

definition known_available_liquidity :: "WithdrawRoute \<Rightarrow> (u128 option, WithdrawRouteError) result" where
  "known_available_liquidity route =
     liquidity_loop (Some 0) (map wr_available_liquidity (wr_entries route))"

definition can_satisfy :: "WithdrawRoute \<Rightarrow> bool" where
  "can_satisfy route \<longleftrightarrow>
     reaches_target (map wr_max_amount (wr_entries route)) (wr_target_amount route)"

fun validate_route_entries :: "WithdrawRouteEntry list \<Rightarrow> (unit, WithdrawRouteError) result" where
  "validate_route_entries [] = Ok ()"
| "validate_route_entries (entry # es) =
     (if wr_max_amount entry = 0 then Err (ZeroMaxAmount (wr_target_id entry))
      else
        and_then
          (case wr_available_liquidity entry of
             Some available \<Rightarrow>
               if available < wr_max_amount entry
               then Err (LiquidityLessThanMaxAmount (wr_target_id entry) (wr_max_amount entry) available)
               else Ok ()
           | None \<Rightarrow> Ok ()) (\<lambda>_.
        validate_route_entries es))"

definition route_validate :: "WithdrawRoute \<Rightarrow> (unit, WithdrawRouteError) result" where
  "route_validate route =
     (if wr_target_amount route = 0 then Err ZeroTargetAmount
      else if wr_entries route = [] then Err EmptyRoute
      else
        and_then (validate_route_entries (wr_entries route)) (\<lambda>_.
        case find_first_duplicate (map wr_target_id (wr_entries route)) of
          Some target \<Rightarrow> Err (RouteDuplicateTarget target)
        | None \<Rightarrow>
            if \<not> can_satisfy route
            then Err (InsufficientRouteTotal
              (capped_total (map wr_max_amount (wr_entries route)) (wr_target_amount route))
              (wr_target_amount route))
            else Ok ()))"

definition route_new ::
    "WithdrawRouteEntry list \<Rightarrow> u128 \<Rightarrow> (WithdrawRoute, WithdrawRouteError) result" where
  "route_new es target_amount =
     (let route = \<lparr>wr_entries = es, wr_target_amount = target_amount\<rparr>
      in and_then (route_validate route) (\<lambda>_. Ok route))"

definition route_withdraw_plan :: "WithdrawRoute \<Rightarrow> WithdrawPlanEntry list" where
  "route_withdraw_plan route =
     map (\<lambda>e. \<lparr>wp_target_id = wr_target_id e, wp_max_amount = wr_max_amount e\<rparr>) (wr_entries route)"

definition plan_entry_pair :: "WithdrawPlanEntry \<Rightarrow> TargetId \<times> u128" where
  "plan_entry_pair e = (wp_target_id e, wp_max_amount e)"

definition to_target_amount_pairs :: "WithdrawRoute \<Rightarrow> (TargetId \<times> u128) list" where
  "to_target_amount_pairs route = map plan_entry_pair (route_withdraw_plan route)"

definition route_get_entry :: "WithdrawRoute \<Rightarrow> TargetId \<Rightarrow> WithdrawRouteEntry option" where
  "route_get_entry route target = find (\<lambda>e. wr_target_id e = target) (wr_entries route)"

definition route_has_target :: "WithdrawRoute \<Rightarrow> TargetId \<Rightarrow> bool" where
  "route_has_target route target \<longleftrightarrow> list_ex (\<lambda>e. wr_target_id e = target) (wr_entries route)"

definition route_excluding_leased ::
    "WithdrawRoute \<Rightarrow> MarketLeaseRegistry \<Rightarrow> TimestampNs \<Rightarrow> (WithdrawRoute, WithdrawRouteError) result" where
  "route_excluding_leased route leases now =
     map_err LockedTargetsExcluded
       (route_new (filter (\<lambda>e. is_unleased leases (wr_target_id e) now) (wr_entries route))
         (wr_target_amount route))"

definition withdraw_plan_excluding_leased ::
    "WithdrawRoute \<Rightarrow> MarketLeaseRegistry \<Rightarrow> TimestampNs
      \<Rightarrow> (WithdrawPlanEntry list, WithdrawRouteError) result" where
  "withdraw_plan_excluding_leased route leases now =
     and_then (route_excluding_leased route leases now) (\<lambda>r. Ok (route_withdraw_plan r))"

section \<open>Builders\<close>

text \<open>\<^verbatim>\<open>collect::<Result<_, _>>()\<close>: the first error ends the collection.\<close>

fun collect_results :: "('a, 'e) result list \<Rightarrow> ('a list, 'e) result" where
  "collect_results [] = Ok []"
| "collect_results (r # rs) =
     and_then r (\<lambda>x. and_then (collect_results rs) (\<lambda>xs. Ok (x # xs)))"

definition by_principal :: "TargetId \<times> u128 \<Rightarrow> nat \<times> nat" where
  "by_principal p = (2 ^ 128 - unat (snd p), unat (fst p))"

definition build_withdraw_route ::
    "(TargetId \<times> u128) list \<Rightarrow> u128 \<Rightarrow> (WithdrawRoute, WithdrawRouteError) result" where
  "build_withdraw_route principals target_amount =
     (if target_amount = 0 then Err ZeroTargetAmount
      else
        let total_principal = capped_total (map snd principals) target_amount in
        if total_principal < target_amount
        then Err (InsufficientRouteTotal total_principal target_amount)
        else
          let sorted_principals = sort_key by_principal (filter (\<lambda>p. 0 < snd p) principals) in
          and_then (collect_results (map (\<lambda>(t, p). route_entry_new t p) sorted_principals)) (\<lambda>es.
          if es = [] then Err EmptyRoute else route_new es target_amount))"

definition withdraw_plan_from_principals ::
    "(TargetId \<times> u128) list \<Rightarrow> u128 \<Rightarrow> (WithdrawPlanEntry list, WithdrawRouteError) result" where
  "withdraw_plan_from_principals principals target_amount =
     and_then (build_withdraw_route principals target_amount) (\<lambda>r. Ok (route_withdraw_plan r))"

definition build_withdraw_capacity_pairs_from_target_principals ::
    "(TargetId \<times> u128) list \<Rightarrow> u128 \<Rightarrow> ((TargetId \<times> u128) list, WithdrawRouteError) result" where
  "build_withdraw_capacity_pairs_from_target_principals principals target_amount =
     and_then (withdraw_plan_from_principals principals target_amount) (\<lambda>plan.
     Ok (map plan_entry_pair plan))"

definition by_effective :: "TargetId \<times> u128 \<times> u128 \<Rightarrow> nat \<times> nat" where
  "by_effective m = (case m of (t, p, l) \<Rightarrow> (2 ^ 128 - unat (min p l), unat t))"

definition build_withdraw_route_with_liquidity ::
    "(TargetId \<times> u128 \<times> u128) list \<Rightarrow> u128 \<Rightarrow> (WithdrawRoute, WithdrawRouteError) result" where
  "build_withdraw_route_with_liquidity market_data target_amount =
     (if target_amount = 0 then Err ZeroTargetAmount
      else
        let sorted_data = sort_key by_effective (filter (\<lambda>(_, p, _). 0 < p) market_data);
            capacities = filter (\<lambda>(_, m, _). 0 < m) (map (\<lambda>(t, p, l). (t, min p l, l)) sorted_data)
        in
        and_then (collect_results (map (\<lambda>(t, m, l).
            and_then (route_entry_new t m) (\<lambda>e. with_liquidity e l)) capacities)) (\<lambda>es.
        if es = [] then Err EmptyRoute
        else
          let route_total = capped_total (map wr_max_amount es) target_amount in
          if route_total < target_amount
          then Err (InsufficientRouteTotal route_total target_amount)
          else route_new es target_amount))"

section \<open>Totals\<close>

definition amount_sum :: "u128 list \<Rightarrow> nat" where
  "amount_sum xs = sum_list (map unat xs)"

lemma amount_sum_simps [simp]:
  "amount_sum [] = 0" "amount_sum (x # xs) = unat x + amount_sum xs"
  by (simp_all add: amount_sum_def)

lemma unat_min [word_nat]: "unat (min a b) = min (unat (a :: 'a::len word)) (unat b)"
  by (simp add: min_def word_le_nat_alt)

lemma capped_total_sum: "unat (capped_total xs t) = min (amount_sum xs) (unat t)"
proof -
  have "unat (fold (\<lambda>x acc. min (saturating_add acc x) t) xs acc) =
      min (unat acc + amount_sum xs) (unat t)" if "acc \<le> t" for acc
    using that
  proof (induction xs arbitrary: acc)
    case (Cons x xs)
    have "unat (min (saturating_add acc x) t) = min (unat acc + unat x) (unat t)"
      using u128_bound [of t] by (simp add: unat_min unat_saturating_add)
    then show ?case using Cons.IH [of "min (saturating_add acc x) t"] by simp
  qed (simp add: word_nat min_def)
  from this [of 0] show ?thesis by (simp add: capped_total_def)
qed

lemma reaches_target_sum: "reaches_target xs t \<longleftrightarrow> unat t \<le> amount_sum xs"
  by (auto simp: reaches_target_def word_le_nat_alt capped_total_sum)

lemma amount_sum_mset: "mset xs = mset ys \<Longrightarrow> amount_sum xs = amount_sum ys"
  unfolding amount_sum_def by (metis mset_map sum_mset_sum_list)

lemma amount_sum_positive: "amount_sum (map snd (filter (\<lambda>p. 0 < snd p) ps)) = amount_sum (map snd ps)"
  by (induction ps) (auto simp: word_gt_0)

section \<open>The builders in closed form\<close>

definition route_entries :: "(TargetId \<times> u128) list \<Rightarrow> WithdrawRouteEntry list" where
  "route_entries =
     map (\<lambda>(t, p). \<lparr>wr_target_id = t, wr_max_amount = p, wr_available_liquidity = None\<rparr>)"

lemma collect_route_entries:
  "\<forall>p \<in> set ps. 0 < snd p \<Longrightarrow>
    collect_results (map (\<lambda>(t, p). route_entry_new t p) ps) = Ok (route_entries ps)"
  by (induction ps) (auto simp: route_entries_def route_entry_new_def)

lemma validate_route_entries_Ok:
  "validate_route_entries es = Ok () \<longleftrightarrow>
     (\<forall>e \<in> set es. wr_max_amount e \<noteq> 0 \<and>
       (\<forall>l. wr_available_liquidity e = Some l \<longrightarrow> wr_max_amount e \<le> l))"
  by (induction es) (auto simp: not_less split: option.splits)

lemma route_new_Ok:
  "route_new es t = Ok r \<longleftrightarrow> r = \<lparr>wr_entries = es, wr_target_amount = t\<rparr> \<and> t \<noteq> 0 \<and>
     (\<forall>e \<in> set es. wr_max_amount e \<noteq> 0 \<and>
       (\<forall>l. wr_available_liquidity e = Some l \<longrightarrow> wr_max_amount e \<le> l)) \<and>
     distinct (map wr_target_id es) \<and> unat t \<le> amount_sum (map wr_max_amount es)"
proof -
  have "es \<noteq> []" if "unat t \<le> amount_sum (map wr_max_amount es)" "t \<noteq> 0"
    using that by (auto simp: word_eq_nat [where ?'a = 128])
  then show ?thesis
    by (auto simp: route_new_def Let_def route_validate_def validate_route_entries_Ok can_satisfy_def
      reaches_target_sum dest: find_first_duplicate_not_distinct split: option.splits)
qed

lemma route_entries_map [simp]:
  "map wr_target_id (route_entries ps) = map fst ps"
  "map wr_max_amount (route_entries ps) = map snd ps"
  "route_entries ps = [] \<longleftrightarrow> ps = []"
  by (auto simp: route_entries_def)

lemma route_entries_member:
  "e \<in> set (route_entries ps) \<Longrightarrow>
    wr_available_liquidity e = None \<and> (wr_target_id e, wr_max_amount e) \<in> set ps"
  by (auto simp: route_entries_def)

lemma amount_sum_sort: "amount_sum (map snd (sort_key f ps)) = amount_sum (map snd ps)"
  by (rule amount_sum_mset) simp

lemma build_withdraw_route_Ok:
  assumes "a \<noteq> 0" "unat a \<le> amount_sum (map snd ps)"
    and "distinct (map fst (filter (\<lambda>p. 0 < snd p) ps))"
  shows "build_withdraw_route ps a =
    Ok \<lparr>wr_entries = route_entries (sort_key by_principal (filter (\<lambda>p. 0 < snd p) ps)),
      wr_target_amount = a\<rparr>"
proof -
  let ?qs = "sort_key by_principal (filter (\<lambda>p. 0 < snd p) ps)"
  have sum: "unat a \<le> amount_sum (map snd ?qs)"
    using assms(2) by (simp add: amount_sum_sort amount_sum_positive)
  moreover have "distinct (map fst ?qs)"
    using assms(3) mset_eq_imp_distinct_iff [of "map fst ?qs" "map fst (filter (\<lambda>p. 0 < snd p) ps)"]
    by simp
  ultimately have "route_new (route_entries ?qs) a =
      Ok \<lparr>wr_entries = route_entries ?qs, wr_target_amount = a\<rparr>"
    using assms(1) by (auto simp: route_new_Ok word_gt_0 dest!: route_entries_member)
  moreover have "?qs \<noteq> []"
    using sum assms(1) by (auto simp: word_eq_nat [where ?'a = 128])
  ultimately show ?thesis
    using assms(1,2) by (simp add: build_withdraw_route_def Let_def collect_route_entries
      word_less_nat_alt capped_total_sum)
qed

lemma collect_results_member:
  "collect_results rs = Ok xs \<Longrightarrow> map Ok xs = rs"
  by (induction rs arbitrary: xs) auto

lemma build_withdraw_route_OkD:
  assumes "build_withdraw_route ps a = Ok r"
  shows "a \<noteq> 0" "unat a \<le> amount_sum (map snd ps)"
    "distinct (map fst (filter (\<lambda>p. 0 < snd p) ps))"
proof -
  let ?ps = "filter (\<lambda>p. 0 < snd p) ps"
  let ?qs = "sort_key by_principal ?ps"
  show "a \<noteq> 0" "unat a \<le> amount_sum (map snd ps)"
    using assms by (auto simp: build_withdraw_route_def Let_def word_less_nat_alt capped_total_sum
      split: if_splits)
  have "distinct (map fst ?qs)"
    using assms by (auto simp: build_withdraw_route_def Let_def collect_route_entries route_new_Ok
      split: if_splits)
  then show "distinct (map fst ?ps)"
    using mset_eq_imp_distinct_iff [of "map fst ?qs" "map fst ?ps"] by simp
qed

text \<open>The capacity of a market: its principal, cut off at its liquidity.\<close>

definition market_capacity :: "TargetId \<times> u128 \<times> u128 \<Rightarrow> TargetId \<times> u128" where
  "market_capacity m = (case m of (t, p, l) \<Rightarrow> (t, min p l))"

lemma collect_liquid_entries:
  "\<forall>(t, m, l) \<in> set cs. 0 < m \<and> m \<le> l \<Longrightarrow>
    collect_results (map (\<lambda>(t, m, l). and_then (route_entry_new t m) (\<lambda>e. with_liquidity e l)) cs) =
    Ok (map (\<lambda>(t, m, l). \<lparr>wr_target_id = t, wr_max_amount = m, wr_available_liquidity = Some l\<rparr>) cs)"
  by (induction cs) (auto simp: route_entry_new_def with_liquidity_def not_less split: prod.splits)

definition liquid_capacities :: "(TargetId \<times> u128 \<times> u128) list \<Rightarrow> (TargetId \<times> u128 \<times> u128) list" where
  "liquid_capacities md = filter (\<lambda>(_, m, _). 0 < m) (map (\<lambda>(t, p, l). (t, min p l, l))
     (sort_key by_effective (filter (\<lambda>(_, p, _). 0 < p) md)))"

lemma liquid_capacities_props:
  "\<forall>(t, m, l) \<in> set (liquid_capacities md). 0 < m \<and> m \<le> l"
  "mset (map (\<lambda>(t, m, l). (t, m)) (liquid_capacities md)) =
     mset (filter (\<lambda>p. 0 < snd p) (map market_capacity md))"
proof -
  show "\<forall>(t, m, l) \<in> set (liquid_capacities md). 0 < m \<and> m \<le> l"
    by (auto simp: liquid_capacities_def)
  have "filter (\<lambda>p. 0 < snd p) (map market_capacity md) =
      filter (\<lambda>p. 0 < snd p) (map market_capacity (filter (\<lambda>(_, p, _). 0 < p) md))"
    by (induction md) (auto simp: market_capacity_def min_def word_gt_0 split: if_splits)
  moreover have "map (\<lambda>(t, m, l). (t, m)) (liquid_capacities md) =
      filter (\<lambda>p. 0 < snd p) (map market_capacity
        (sort_key by_effective (filter (\<lambda>(_, p, _). 0 < p) md)))"
    by (auto simp: liquid_capacities_def market_capacity_def filter_map comp_def case_prod_unfold)
  moreover have "mset (filter P (map f (sort_key g xs))) = mset (filter P (map f xs))"
    for P :: "TargetId \<times> u128 \<Rightarrow> bool" and f and g :: "_ \<Rightarrow> nat \<times> nat" and xs
    by simp
  ultimately show "mset (map (\<lambda>(t, m, l). (t, m)) (liquid_capacities md)) =
      mset (filter (\<lambda>p. 0 < snd p) (map market_capacity md))"
    by (simp only:)
qed

lemma build_with_liquidity_iff:
  "(\<exists>r. build_withdraw_route_with_liquidity md a = Ok r) \<longleftrightarrow>
     a \<noteq> 0 \<and> unat a \<le> amount_sum (map snd (map market_capacity md)) \<and>
     distinct (map fst (filter (\<lambda>p. 0 < snd p) (map market_capacity md)))"
proof -
  let ?cs = "liquid_capacities md"
  let ?es = "map (\<lambda>(t, m, l). \<lparr>wr_target_id = t, wr_max_amount = m,
    wr_available_liquidity = Some l\<rparr>) ?cs"
  let ?ps = "map market_capacity md"
  note props = liquid_capacities_props [of md]
  have maps: "map wr_max_amount ?es = map snd (map (\<lambda>(t, m, l). (t, m)) ?cs)"
      "map wr_target_id ?es = map fst (map (\<lambda>(t, m, l). (t, m)) ?cs)"
    by auto
  have sum: "amount_sum (map wr_max_amount ?es) = amount_sum (map snd ?ps)"
    unfolding maps
    using amount_sum_mset [of _ "map snd (filter (\<lambda>p. 0 < snd p) ?ps)"] props(2)
    by (simp only: amount_sum_positive mset_map)
  have dist: "distinct (map wr_target_id ?es) \<longleftrightarrow> distinct (map fst (filter (\<lambda>p. 0 < snd p) ?ps))"
    unfolding maps by (rule mset_eq_imp_distinct_iff) (simp only: mset_map props(2) [unfolded mset_map])
  have build: "build_withdraw_route_with_liquidity md a =
      (if a = 0 then Err ZeroTargetAmount
       else if ?es = [] then Err EmptyRoute
       else if capped_total (map wr_max_amount ?es) a < a
       then Err (InsufficientRouteTotal (capped_total (map wr_max_amount ?es) a) a)
       else route_new ?es a)"
    unfolding build_withdraw_route_with_liquidity_def Let_def liquid_capacities_def [symmetric]
      collect_liquid_entries [OF props(1)] by simp
  have entries: "\<forall>e \<in> set ?es. wr_max_amount e \<noteq> 0 \<and>
      (\<forall>l. wr_available_liquidity e = Some l \<longrightarrow> wr_max_amount e \<le> l)"
    using props(1) by (auto simp: word_gt_0)
  have new: "(\<exists>r. route_new ?es a = Ok r) \<longleftrightarrow>
      a \<noteq> 0 \<and> distinct (map wr_target_id ?es) \<and> unat a \<le> amount_sum (map wr_max_amount ?es)"
    unfolding route_new_Ok using entries by blast
  have nonempty: "?es \<noteq> []" if "a \<noteq> 0" "unat a \<le> amount_sum (map wr_max_amount ?es)"
    using that by (auto simp: word_eq_nat [where ?'a = 128])
  show ?thesis
    using nonempty unfolding build dist [symmetric] sum [symmetric]
    by (auto simp: new word_less_nat_alt capped_total_sum simp del: map_map)
qed

lemma route_new_not_Panic: "route_new es a \<noteq> Panic"
proof -
  have "validate_route_entries es \<noteq> Panic"
    by (induction es) (auto simp: and_then_eq_Panic split: option.splits)
  then show ?thesis
    by (auto simp: route_new_def route_validate_def Let_def and_then_eq_Panic split: option.splits)
qed

text \<open>Dropping entries of a valid route leaves a valid route, as long as the rest covers the amount.\<close>

lemma route_excluding_leased_exact:
  assumes "route_new (wr_entries r) (wr_target_amount r) = Ok r"
    and kept: "kept = filter (\<lambda>e. is_unleased leases (wr_target_id e) now) (wr_entries r)"
  shows "if unat (wr_target_amount r) \<le> amount_sum (map wr_max_amount kept)
    then route_excluding_leased r leases now = Ok (r\<lparr>wr_entries := kept\<rparr>)
    else \<exists>e. route_excluding_leased r leases now = Err (LockedTargetsExcluded e)"
proof -
  have "route_new kept (wr_target_amount r) = Ok r' \<longleftrightarrow>
      r' = \<lparr>wr_entries = kept, wr_target_amount = wr_target_amount r\<rparr> \<and>
      unat (wr_target_amount r) \<le> amount_sum (map wr_max_amount kept)" for r'
    using assms by (auto simp: route_new_Ok distinct_map_filter)
  then show ?thesis
    using route_new_not_Panic [of kept "wr_target_amount r"] kept
    by (cases "route_new kept (wr_target_amount r)") (auto simp: route_excluding_leased_def)
qed

lemma build_withdraw_route_pairs:
  assumes "build_withdraw_route ps a = Ok r"
  shows "to_target_amount_pairs r = sort_key by_principal (filter (\<lambda>p. 0 < snd p) ps)"
    and "wr_target_amount r = a"
    and "route_new (wr_entries r) (wr_target_amount r) = Ok r"
proof -
  let ?qs = "sort_key by_principal (filter (\<lambda>p. 0 < snd p) ps)"
  note conds = build_withdraw_route_OkD [OF assms]
  have r: "r = \<lparr>wr_entries = route_entries ?qs, wr_target_amount = a\<rparr>"
    using build_withdraw_route_Ok [OF conds] assms by simp
  then show "to_target_amount_pairs r = ?qs" "wr_target_amount r = a"
    by (simp_all add: to_target_amount_pairs_def route_withdraw_plan_def plan_entry_pair_def
      route_entries_def comp_def case_prod_unfold)
  show "route_new (wr_entries r) (wr_target_amount r) = Ok r"
    using assms by (auto simp: build_withdraw_route_def Let_def route_new_Ok split: if_splits)
qed

lemma build_withdraw_route_iff:
  "(\<exists>r. build_withdraw_route ps a = Ok r) \<longleftrightarrow>
     a \<noteq> 0 \<and> unat a \<le> amount_sum (map snd ps) \<and> distinct (map fst (filter (\<lambda>p. 0 < snd p) ps))"
proof
  assume "\<exists>r. build_withdraw_route ps a = Ok r"
  then obtain r where "build_withdraw_route ps a = Ok r" ..
  from build_withdraw_route_OkD [OF this] show
    "a \<noteq> 0 \<and> unat a \<le> amount_sum (map snd ps) \<and> distinct (map fst (filter (\<lambda>p. 0 < snd p) ps))"
    by simp
next
  assume "a \<noteq> 0 \<and> unat a \<le> amount_sum (map snd ps) \<and>
    distinct (map fst (filter (\<lambda>p. 0 < snd p) ps))"
  then show "\<exists>r. build_withdraw_route ps a = Ok r" by (simp add: build_withdraw_route_Ok)
qed

lemma by_principal_descending: "by_principal p \<le> by_principal q \<Longrightarrow> snd q \<le> snd p"
  using u128_bound [of "snd p"] u128_bound [of "snd q"]
  by (auto simp: by_principal_def less_eq_prod_def word_le_nat_alt)

lemma sort_by_principal_descending: "sorted_wrt (\<lambda>p q. snd q \<le> snd p) (sort_key by_principal ps)"
proof -
  have "sorted (map by_principal (sort_key by_principal ps))" by simp
  then have "sorted_wrt (\<lambda>p q. by_principal p \<le> by_principal q) (sort_key by_principal ps)"
    by (simp only: sorted_wrt_map)
  then show ?thesis by (rule sorted_wrt_mono_rel [rotated]) (rule by_principal_descending)
qed

section \<open>Properties\<close>

text \<open>
  C23. Withdrawal routes. A route over the principals is built exactly when the amount is positive,
  the exact sum of the principals covers it and no target with a principal occurs twice; it then lists
  every positive principal once, largest first. With liquidity limits the same holds for the
  principals cut off at the liquidity. Dropping leased targets succeeds exactly when the other entries
  still cover the amount, and then keeps them in their order.
\<close>

theorem withdraw_route_exact:
  "((\<exists>r. build_withdraw_route ps a = Ok r) \<longleftrightarrow>
      a \<noteq> 0 \<and> unat a \<le> amount_sum (map snd ps) \<and> distinct (map fst (filter (\<lambda>p. 0 < snd p) ps))) \<and>
   ((\<exists>r. build_withdraw_route_with_liquidity md a = Ok r) \<longleftrightarrow>
      a \<noteq> 0 \<and> unat a \<le> amount_sum (map snd (map market_capacity md)) \<and>
      distinct (map fst (filter (\<lambda>p. 0 < snd p) (map market_capacity md)))) \<and>
   (\<forall>r. build_withdraw_route ps a = Ok r \<longrightarrow>
      mset (to_target_amount_pairs r) = mset (filter (\<lambda>p. 0 < snd p) ps) \<and>
      sorted_wrt (\<lambda>p q. snd q \<le> snd p) (to_target_amount_pairs r) \<and> wr_target_amount r = a \<and>
      (\<forall>leases now kept.
        kept = filter (\<lambda>e. is_unleased leases (wr_target_id e) now) (wr_entries r) \<longrightarrow>
        (if unat a \<le> amount_sum (map wr_max_amount kept)
         then route_excluding_leased r leases now = Ok (r\<lparr>wr_entries := kept\<rparr>)
         else \<exists>e. route_excluding_leased r leases now = Err (LockedTargetsExcluded e))))"
proof (intro conjI allI impI)
  show "(\<exists>r. build_withdraw_route ps a = Ok r) \<longleftrightarrow>
      a \<noteq> 0 \<and> unat a \<le> amount_sum (map snd ps) \<and> distinct (map fst (filter (\<lambda>p. 0 < snd p) ps))"
    by (rule build_withdraw_route_iff)
next
  fix r leases now kept
  assume built: "build_withdraw_route ps a = Ok r"
    and kept: "kept = filter (\<lambda>e. is_unleased leases (wr_target_id e) now) (wr_entries r)"
  show "if unat a \<le> amount_sum (map wr_max_amount kept)
      then route_excluding_leased r leases now = Ok (r\<lparr>wr_entries := kept\<rparr>)
      else \<exists>e. route_excluding_leased r leases now = Err (LockedTargetsExcluded e)"
    using route_excluding_leased_exact [OF build_withdraw_route_pairs(3) [OF built] kept]
    unfolding build_withdraw_route_pairs(2) [OF built] .
qed (simp_all add: build_with_liquidity_iff build_withdraw_route_pairs(1,2)
  sort_by_principal_descending del: map_map)

definition demo_principals :: "(TargetId \<times> u128) list" where
  "demo_principals = [(1, 30), (2, 0), (3, 50)]"

theorem withdraw_route_exact_witness:
  "\<exists>r. build_withdraw_route demo_principals 60 = Ok r \<and>
    mset (to_target_amount_pairs r) = {# (1, 30), (3, 50) #} \<and> wr_target_amount r = 60"
proof -
  have "distinct (map fst (filter (\<lambda>p. 0 < snd p) demo_principals))"
    "unat (60 :: u128) \<le> amount_sum (map snd demo_principals)"
    by (simp_all add: demo_principals_def)
  then obtain r where "build_withdraw_route demo_principals 60 = Ok r"
    using withdraw_route_exact [of demo_principals 60 "[]"] by auto
  then show ?thesis
    using withdraw_route_exact [of demo_principals 60 "[]"] by (auto simp: demo_principals_def)
qed

end
