(* ===== verification/Curator_Cap.thy ===== *)
theory Curator_Cap
  imports Kernel_Types Curator_Map
begin

text \<open>
  Cap groups (\<^verbatim>\<open>policy/cap_group/mod.rs\<close> and \<^verbatim>\<open>policy/cap_group_adapter.rs\<close> under
  \<^verbatim>\<open>src/contract/vault/curator-primitives/src/\<close>).

  \<^item> A group id is a string of bytes; \<open>cap_group_id_try_from\<close> is its validated constructor.
  \<^item> \<open>validate_allocations\<close> keeps the running total per group in a vector of triples; here the vector
    is the ordered map of \<open>Curator_Map\<close>, whose lookup and update are the search and the update of the
    source.
  \<^item> The lemmas relate the three checks of a cap (\<open>enforce\<close>, \<open>can_allocate\<close>, \<open>available_capacity\<close>) to
    the effective cap, and the validation of a list to the sum per group.
\<close>

section \<open>Identifiers\<close>

type_synonym CapGroupId = string

datatype CapGroupIdError = IdEmpty | IdTooLong nat | IdInvalidCharacter

definition id_byte_ok :: "char \<Rightarrow> bool" where
  "id_byte_ok c \<longleftrightarrow>
     (let b = of_char c :: nat in 97 \<le> b \<and> b \<le> 122 \<or> 48 \<le> b \<and> b \<le> 57 \<or> b = 45 \<or> b = 95)"

definition cap_group_id_validate :: "string \<Rightarrow> (unit, CapGroupIdError) result" where
  "cap_group_id_validate s =
     (if s = [] then Err IdEmpty
      else if 64 < length s then Err (IdTooLong 64)
      else if \<not> list_all id_byte_ok s then Err IdInvalidCharacter
      else Ok ())"

definition cap_group_id_try_from :: "string \<Rightarrow> (CapGroupId, CapGroupIdError) result" where
  "cap_group_id_try_from s = and_then (cap_group_id_validate s) (\<lambda>_. Ok s)"

definition policy_state_sentinel :: CapGroupId where
  "policy_state_sentinel = ''policy-state''"

section \<open>Caps\<close>

record CapGroup =
  cg_absolute_cap :: "u128 option"
  cg_relative_cap :: "Wad option"

record CapGroupRecord =
  cgr_cap :: CapGroup
  cgr_principal :: u128

datatype CapGroupError =
    ExceedsAbsoluteCap "CapGroupId option" u128 u128 u128
  | ExceedsRelativeCap "CapGroupId option" u128 u128 u128 u128
  | CapGroupNotFound CapGroupId
  | CapOverflow u128 u128
  | CapUnderflow u128 u128
  | InconsistentRecord CapGroupId

definition cap_group_default :: CapGroup where
  "cap_group_default = \<lparr>cg_absolute_cap = None, cg_relative_cap = None\<rparr>"

definition cap_record_default :: CapGroupRecord where
  "cap_record_default = \<lparr>cgr_cap = cap_group_default, cgr_principal = 0\<rparr>"

definition cap_record_from :: "CapGroup \<Rightarrow> CapGroupRecord" where
  "cap_record_from cap = \<lparr>cgr_cap = cap, cgr_principal = 0\<rparr>"

definition cap_is_unlimited :: "CapGroup \<Rightarrow> bool" where
  "cap_is_unlimited cap \<longleftrightarrow> cg_absolute_cap cap = None \<and> cg_relative_cap cap = None"

definition relative_amount :: "primitive_types \<Rightarrow> Wad \<Rightarrow> u128 \<Rightarrow> u128" where
  "relative_amount P w assets = as_u128_saturating (apply_floored P w (number_from assets))"

definition effective_cap :: "primitive_types \<Rightarrow> CapGroup \<Rightarrow> u128 \<Rightarrow> u128" where
  "effective_cap P cap assets =
     (if cap_is_unlimited cap then max_value
      else
        let absolute = (case cg_absolute_cap cap of Some c \<Rightarrow> c | None \<Rightarrow> max_value);
            relative = (case cg_relative_cap cap of
              Some w \<Rightarrow> relative_amount P w assets
            | None \<Rightarrow> max_value)
        in min absolute relative)"

definition can_allocate :: "primitive_types \<Rightarrow> CapGroup \<Rightarrow> u128 \<Rightarrow> u128 \<Rightarrow> u128 \<Rightarrow> bool" where
  "can_allocate P cap current amount assets =
     (case checked_add current amount of
        None \<Rightarrow> False
      | Some new_principal \<Rightarrow> new_principal \<le> effective_cap P cap assets)"

definition enforce ::
    "primitive_types \<Rightarrow> CapGroup \<Rightarrow> u128 \<Rightarrow> u128 \<Rightarrow> u128 \<Rightarrow> (unit, CapGroupError) result" where
  "enforce P cap current amount assets =
     (case checked_add current amount of
        None \<Rightarrow> Err (CapOverflow current amount)
      | Some new_principal \<Rightarrow>
          and_then
            (case cg_absolute_cap cap of
               Some abs_cap \<Rightarrow>
                 if abs_cap < new_principal
                 then Err (ExceedsAbsoluteCap None amount current abs_cap) else Ok ()
             | None \<Rightarrow> Ok ()) (\<lambda>_.
          case cg_relative_cap cap of
            Some rel_cap \<Rightarrow>
              let limit = relative_amount P rel_cap assets in
              if limit < new_principal
              then Err (ExceedsRelativeCap None amount current limit assets) else Ok ()
          | None \<Rightarrow> Ok ()))"

definition available_capacity :: "primitive_types \<Rightarrow> CapGroup \<Rightarrow> u128 \<Rightarrow> u128 \<Rightarrow> u128" where
  "available_capacity P cap current assets = saturating_sub (effective_cap P cap assets) current"

definition apply_allocation :: "CapGroupRecord \<Rightarrow> u128 \<Rightarrow> (CapGroupRecord, CapGroupError) result" where
  "apply_allocation r amount =
     and_then (ok_or (checked_add (cgr_principal r) amount) (CapOverflow (cgr_principal r) amount))
       (\<lambda>p. Ok \<lparr>cgr_cap = cgr_cap r, cgr_principal = p\<rparr>)"

definition remove_allocation :: "CapGroupRecord \<Rightarrow> u128 \<Rightarrow> (CapGroupRecord, CapGroupError) result" where
  "remove_allocation r amount =
     and_then (ok_or (checked_sub (cgr_principal r) amount) (CapUnderflow (cgr_principal r) amount))
       (\<lambda>p. Ok \<lparr>cgr_cap = cgr_cap r, cgr_principal = p\<rparr>)"

definition record_can_allocate :: "primitive_types \<Rightarrow> CapGroupRecord \<Rightarrow> u128 \<Rightarrow> u128 \<Rightarrow> bool" where
  "record_can_allocate P r amount assets = can_allocate P (cgr_cap r) (cgr_principal r) amount assets"

definition record_enforce ::
    "primitive_types \<Rightarrow> CapGroupRecord \<Rightarrow> u128 \<Rightarrow> u128 \<Rightarrow> (unit, CapGroupError) result" where
  "record_enforce P r amount assets = enforce P (cgr_cap r) (cgr_principal r) amount assets"

definition record_available_capacity :: "primitive_types \<Rightarrow> CapGroupRecord \<Rightarrow> u128 \<Rightarrow> u128" where
  "record_available_capacity P r assets = available_capacity P (cgr_cap r) (cgr_principal r) assets"

section \<open>Adapters\<close>

definition cap_group_record_absolute_cap :: "CapGroupRecord \<Rightarrow> u128" where
  "cap_group_record_absolute_cap r =
     (case cg_absolute_cap (cgr_cap r) of Some c \<Rightarrow> c | None \<Rightarrow> 0)"

definition cap_group_record_relative_cap :: "CapGroupRecord \<Rightarrow> Wad" where
  "cap_group_record_relative_cap r =
     (case cg_relative_cap (cgr_cap r) of Some w \<Rightarrow> w | None \<Rightarrow> wad_one)"

definition set_cap_group_record_absolute_cap :: "CapGroupRecord \<Rightarrow> u128 \<Rightarrow> CapGroupRecord" where
  "set_cap_group_record_absolute_cap r c =
     r\<lparr>cgr_cap := (cgr_cap r)\<lparr>cg_absolute_cap := Some c\<rparr>\<rparr>"

definition set_cap_group_record_relative_cap :: "CapGroupRecord \<Rightarrow> Wad \<Rightarrow> CapGroupRecord" where
  "set_cap_group_record_relative_cap r w =
     r\<lparr>cgr_cap := (cgr_cap r)\<lparr>cg_relative_cap := Some w\<rparr>\<rparr>"

section \<open>Updates\<close>

datatype CapGroupUpdate =
    SetCap CapGroupId "u128 option"
  | SetRelativeCap CapGroupId "Wad option"
  | SetMembership TargetId "CapGroupId option"

datatype CapGroupUpdateKey =
    SetCapKey CapGroupId
  | SetRelativeCapKey CapGroupId
  | SetMembershipKey TargetId

fun update_key :: "CapGroupUpdate \<Rightarrow> CapGroupUpdateKey" where
  "update_key (SetCap g c) = SetCapKey g"
| "update_key (SetRelativeCap g c) = SetRelativeCapKey g"
| "update_key (SetMembership m g) = SetMembershipKey m"

section \<open>Validation of a list of allocations\<close>

fun name_group :: "CapGroupId \<Rightarrow> CapGroupError \<Rightarrow> CapGroupError" where
  "name_group g (ExceedsAbsoluteCap _ requested current cap) =
     ExceedsAbsoluteCap (Some g) requested current cap"
| "name_group g (ExceedsRelativeCap _ requested current limit assets) =
     ExceedsRelativeCap (Some g) requested current limit assets"
| "name_group g other = other"

fun validate_loop ::
    "primitive_types \<Rightarrow> u128 \<Rightarrow> (CapGroupId, CapGroupRecord \<times> u128) OrderedMap
      \<Rightarrow> (CapGroupId \<times> CapGroupRecord \<times> u128) list \<Rightarrow> (unit, CapGroupError) result" where
  "validate_loop P assets cumulative [] = Ok ()"
| "validate_loop P assets cumulative ((g, r, amount) # allocations) =
     (let (canonical, prior) = (case om_get cumulative g of Some x \<Rightarrow> x | None \<Rightarrow> (r, 0)) in
      if cgr_principal canonical \<noteq> cgr_principal r \<or> cgr_cap canonical \<noteq> cgr_cap r
      then Err (InconsistentRecord g)
      else
        and_then (ok_or (checked_add (cgr_principal canonical) prior)
            (CapOverflow (cgr_principal canonical) prior)) (\<lambda>effective_principal.
        and_then (map_err (name_group g)
            (enforce P (cgr_cap canonical) effective_principal amount assets)) (\<lambda>_.
        and_then (ok_or (checked_add prior amount) (CapOverflow prior amount)) (\<lambda>prior'.
        validate_loop P assets (om_put g (canonical, prior') cumulative) allocations))))"

definition validate_allocations ::
    "primitive_types \<Rightarrow> (CapGroupId \<times> CapGroupRecord \<times> u128) list \<Rightarrow> u128
      \<Rightarrow> (unit, CapGroupError) result" where
  "validate_allocations P allocations assets = validate_loop P assets om_new allocations"

section \<open>Lemmas\<close>

lemma cap_group_id_try_from_Ok:
  "cap_group_id_try_from s = Ok g \<longleftrightarrow> g = s \<and> s \<noteq> [] \<and> length s \<le> 64 \<and> list_all id_byte_ok s"
  by (auto simp: cap_group_id_try_from_def cap_group_id_validate_def)

lemma max_value_ge [simp]: "a \<le> (max_value :: 'a::len word)"
  using unat_le_max [of a] by (simp add: word_le_nat_alt unat_max_value)

lemma effective_cap_ge:
  "n \<le> effective_cap P cap assets \<longleftrightarrow>
     (\<forall>c. cg_absolute_cap cap = Some c \<longrightarrow> n \<le> c) \<and>
     (\<forall>w. cg_relative_cap cap = Some w \<longrightarrow> n \<le> relative_amount P w assets)"
  by (auto simp: effective_cap_def cap_is_unlimited_def Let_def split: option.splits)

lemma enforce_Ok:
  "enforce P cap current amount assets = Ok () \<longleftrightarrow>
     unat current + unat amount \<le> unat (effective_cap P cap assets)"
proof (cases "checked_add current amount")
  case None
  then have "2 ^ 128 \<le> unat current + unat amount" by (simp add: checked_add_eq_None)
  then show ?thesis
    using u128_bound [of "effective_cap P cap assets"] by (simp add: enforce_def None)
next
  case (Some n)
  then have "unat current + unat amount \<le> unat (effective_cap P cap assets) \<longleftrightarrow>
      n \<le> effective_cap P cap assets"
    by (simp add: checked_add_eq_Some word_le_nat_alt)
  then show ?thesis
    by (auto simp: enforce_def Some effective_cap_ge not_less Let_def split: option.splits)
qed

lemma enforce_not_Panic: "enforce P cap current amount assets \<noteq> Panic"
  by (auto simp: enforce_def Let_def and_then_eq_Panic split: option.splits)

lemma can_allocate_iff:
  "can_allocate P cap current amount assets \<longleftrightarrow>
     unat current + unat amount \<le> unat (effective_cap P cap assets)"
proof (cases "checked_add current amount")
  case None
  then have "2 ^ 128 \<le> unat current + unat amount" by (simp add: checked_add_eq_None)
  then show ?thesis
    using u128_bound [of "effective_cap P cap assets"] by (simp add: can_allocate_def None)
next
  case (Some n)
  then have "unat n = unat current + unat amount" by (simp add: checked_add_eq_Some)
  then show ?thesis by (simp add: can_allocate_def Some word_le_nat_alt)
qed

lemma available_capacity_maximal:
  "unat amount \<le> unat (available_capacity P cap current assets) \<longleftrightarrow>
     can_allocate P cap current amount assets \<or> amount = 0"
  by (auto simp: available_capacity_def can_allocate_iff word_nat word_eq_nat [where ?'a = 128])

text \<open>The allocations of a group and their sum.\<close>

definition group_amounts :: "CapGroupId \<Rightarrow> (CapGroupId \<times> CapGroupRecord \<times> u128) list \<Rightarrow> nat" where
  "group_amounts g allocations =
     (\<Sum>(g', r, amount) \<leftarrow> allocations. if g' = g then unat amount else 0)"

lemma group_amounts_simps [simp]:
  "group_amounts g [] = 0"
  "group_amounts g ((g', r, amount) # as) =
     (if g' = g then unat amount else 0) + group_amounts g as"
  by (simp_all add: group_amounts_def)

lemma validate_loop_not_Panic: "validate_loop P assets m as \<noteq> Panic"
proof (induction as arbitrary: m)
  case (Cons a as)
  obtain g r amount where "a = (g, r, amount)" by (cases a)
  with Cons show ?case
    by (auto simp: Let_def and_then_eq_Panic enforce_not_Panic split: option.splits prod.splits)
qed simp

lemma group_amounts_absent: "g \<notin> fst ` set as \<Longrightarrow> group_amounts g as = 0"
  by (induction as) auto

lemma record_eq:
  "(r :: CapGroupRecord) = r' \<longleftrightarrow> cgr_principal r = cgr_principal r' \<and> cgr_cap r = cgr_cap r'"
  by (cases r; cases r') auto

text \<open>
  What the running totals must allow: for every group still to come, the recorded principal, the total
  so far and the amounts to come stay within the effective cap, and the records agree.
\<close>

definition running ::
    "(CapGroupId, CapGroupRecord \<times> u128) OrderedMap \<Rightarrow> CapGroupId \<Rightarrow> CapGroupRecord
      \<Rightarrow> CapGroupRecord \<times> u128" where
  "running m g r = (case om_get m g of Some x \<Rightarrow> x | None \<Rightarrow> (r, 0))"

definition loop_fits ::
    "primitive_types \<Rightarrow> u128 \<Rightarrow> (CapGroupId, CapGroupRecord \<times> u128) OrderedMap
      \<Rightarrow> (CapGroupId \<times> CapGroupRecord \<times> u128) list \<Rightarrow> bool" where
  "loop_fits P assets m as \<longleftrightarrow>
     (\<forall>(g, r, amount) \<in> set as. fst (running m g r) = r \<and>
        unat (cgr_principal r) + unat (snd (running m g r)) + group_amounts g as
          \<le> unat (effective_cap P (cgr_cap r) assets) \<and>
        (\<forall>(g', r', amount') \<in> set as. g' = g \<longrightarrow> r' = r))"

lemma ex_word_unat: "n < 2 ^ LENGTH('a) \<Longrightarrow> \<exists>x :: 'a::len word. unat x = n"
  by (rule exI [of _ "of_nat n"]) (simp add: unat_of_nat)

lemma ex_unat_iff:
  assumes "R n \<Longrightarrow> n < 2 ^ LENGTH('a)"
  shows "(\<exists>x :: 'a::len word. unat x = n \<and> R (unat x)) \<longleftrightarrow> R n"
  using assms ex_word_unat [of n, where ?'a = 'a] by auto

lemma running_put:
  "running (om_put g (r, n) m) g' r' = (if g' = g then (r, n) else running m g' r')"
  by (simp add: running_def om.get_put)

text \<open>One round of the loop: it goes on exactly when the head fits.\<close>

lemma validate_loop_step:
  "validate_loop P assets m ((g, r, amount) # as) = Ok () \<longleftrightarrow>
     (\<exists>prior prior'. running m g r = (r, prior) \<and> unat prior' = unat prior + unat amount \<and>
        unat (cgr_principal r) + unat prior' \<le> unat (effective_cap P (cgr_cap r) assets) \<and>
        validate_loop P assets (om_put g (r, prior') m) as = Ok ())"
proof -
  obtain c prior where run: "running m g r = (c, prior)" by (cases "running m g r")
  show ?thesis
  proof (cases "c = r")
    case True
    let ?n = "unat (effective_cap P (cgr_cap r) assets)"
    have "validate_loop P assets m ((g, r, amount) # as) = Ok () \<longleftrightarrow>
        (\<exists>x :: u128. unat x = unat (cgr_principal r) + unat prior \<and> unat x + unat amount \<le> ?n \<and>
          (\<exists>y. unat y = unat prior + unat amount \<and>
            validate_loop P assets (om_put g (r, y) m) as = Ok ()))"
      using run True by (simp add: running_def [symmetric] enforce_Ok checked_add_eq_Some Let_def)
    also have "\<dots> \<longleftrightarrow> unat (cgr_principal r) + unat prior + unat amount \<le> ?n \<and>
        (\<exists>y. unat y = unat prior + unat amount \<and>
          validate_loop P assets (om_put g (r, y) m) as = Ok ())"
      using u128_bound [of "effective_cap P (cgr_cap r) assets"]
      by (subst ex_unat_iff [where R = "\<lambda>v. v + unat amount \<le> ?n \<and>
        (\<exists>y. unat y = unat prior + unat amount \<and>
          validate_loop P assets (om_put g (r, y) m) as = Ok ())"]) auto
    finally show ?thesis using run True by (auto simp: add.assoc)
  next
    case False
    then show ?thesis
      using run by (auto simp: running_def [symmetric] record_eq Let_def)
  qed
qed

lemma loop_fits_step:
  "loop_fits P assets m ((g, r, amount) # as) \<longleftrightarrow>
     (\<exists>prior prior'. running m g r = (r, prior) \<and> unat prior' = unat prior + unat amount \<and>
        unat (cgr_principal r) + unat prior' \<le> unat (effective_cap P (cgr_cap r) assets) \<and>
        loop_fits P assets (om_put g (r, prior') m) as)"
proof
  assume fits: "loop_fits P assets m ((g, r, amount) # as)"
  obtain prior where run: "running m g r = (r, prior)"
    using fits by (cases "running m g r") (simp add: loop_fits_def)
  have cap: "unat (cgr_principal r) + unat prior + (unat amount + group_amounts g as)
      \<le> unat (effective_cap P (cgr_cap r) assets)"
    using fits run by (simp add: loop_fits_def)
  obtain prior' :: u128 where prior': "unat prior' = unat prior + unat amount"
    using ex_word_unat [of "unat prior + unat amount", where ?'a = 128] cap
      u128_bound [of "effective_cap P (cgr_cap r) assets"] by auto
  have "loop_fits P assets (om_put g (r, prior') m) as"
    using fits cap prior' by (fastforce simp: loop_fits_def running_put)
  then show "\<exists>prior prior'. running m g r = (r, prior) \<and> unat prior' = unat prior + unat amount \<and>
      unat (cgr_principal r) + unat prior' \<le> unat (effective_cap P (cgr_cap r) assets) \<and>
      loop_fits P assets (om_put g (r, prior') m) as"
    using run cap prior' by auto
next
  assume "\<exists>prior prior'. running m g r = (r, prior) \<and> unat prior' = unat prior + unat amount \<and>
      unat (cgr_principal r) + unat prior' \<le> unat (effective_cap P (cgr_cap r) assets) \<and>
      loop_fits P assets (om_put g (r, prior') m) as"
  then obtain prior prior' where run: "running m g r = (r, prior)"
      and prior': "unat prior' = unat prior + unat amount"
      and head: "unat (cgr_principal r) + unat prior' \<le> unat (effective_cap P (cgr_cap r) assets)"
      and fits: "loop_fits P assets (om_put g (r, prior') m) as"
    by blast
  have same: "r' = r" if "(g, r', a') \<in> set as" for r' a'
    using fits that by (fastforce simp: loop_fits_def running_put)
  have cap: "unat (cgr_principal r) + unat prior' + group_amounts g as
      \<le> unat (effective_cap P (cgr_cap r) assets)"
  proof (cases "g \<in> fst ` set as")
    case True
    then obtain r' a' where "(g, r', a') \<in> set as" by auto
    with fits same show ?thesis by (fastforce simp: loop_fits_def running_put)
  next
    case False
    then show ?thesis using head by (simp add: group_amounts_absent)
  qed
  have others: "fst (running m g' r') = r' \<and>
      unat (cgr_principal r') + unat (snd (running m g' r')) + group_amounts g' as
        \<le> unat (effective_cap P (cgr_cap r') assets) \<and>
      (\<forall>(g'', r'', amount'') \<in> set as. g'' = g' \<longrightarrow> r'' = r')"
    if "(g', r', a') \<in> set as" "g' \<noteq> g" for g' r' a'
    using fits that by (fastforce simp: loop_fits_def running_put)
  show "loop_fits P assets m ((g, r, amount) # as)"
    unfolding loop_fits_def
  proof (rule ballI, rule case_prodI2, rule case_prodI2)
    fix x g' rest r' a'
    assume "x \<in> set ((g, r, amount) # as)" "x = (g', rest)" "rest = (r', a')"
    then have mem: "(g', r', a') \<in> set ((g, r, amount) # as)" by simp
    show "fst (running m g' r') = r' \<and>
        unat (cgr_principal r') + unat (snd (running m g' r')) + group_amounts g' ((g, r, amount) # as)
          \<le> unat (effective_cap P (cgr_cap r') assets) \<and>
        (\<forall>(g'', r'', amount'') \<in> set ((g, r, amount) # as). g'' = g' \<longrightarrow> r'' = r')"
    proof (cases "g' = g")
      case True
      then have "r' = r" using mem same by auto
      then show ?thesis using True run cap prior' same by auto
    next
      case False
      then have "(g', r', a') \<in> set as" using mem by auto
      from others [OF this False] show ?thesis using False by auto
    qed
  qed
qed

lemma validate_loop_Ok: "validate_loop P assets m as = Ok () \<longleftrightarrow> loop_fits P assets m as"
proof (induction as arbitrary: m)
  case (Cons a as)
  obtain g r amount where "a = (g, r, amount)" by (cases a)
  then show ?case by (simp only: validate_loop_step loop_fits_step Cons.IH)
qed (simp add: loop_fits_def)

text \<open>The relative cap is at most the given fraction of the assets.\<close>

lemma effective_cap_relative:
  assumes "primitive_types_spec P" "cg_relative_cap cap = Some w"
  shows "unat (effective_cap P cap assets) * unat SCALE \<le> unat assets * unat w"
proof -
  have "unat (effective_cap P cap assets) \<le> unat (relative_amount P w assets)"
    using assms(2) effective_cap_ge [of "effective_cap P cap assets" P cap assets]
    by (simp add: word_le_nat_alt)
  also have "\<dots> \<le> unat (apply_floored P w (number_from assets))"
    by (simp add: relative_amount_def unat_as_u128_saturating)
  finally have "unat (effective_cap P cap assets) * unat SCALE
      \<le> unat (apply_floored P w (number_from assets)) * unat SCALE"
    by (rule mult_le_mono1)
  also have "\<dots> \<le> unat assets * unat w"
    using primitive_types_spec.apply_floored_le [OF assms(1), of w "number_from assets"]
    by (simp only: unat_number_from)
  finally show ?thesis .
qed

section \<open>Properties\<close>

text \<open>
  C22. Caps. A single allocation is accepted, by \<^verbatim>\<open>enforce\<close> and by \<^verbatim>\<open>can_allocate\<close> alike, exactly
  when the new principal is at most the effective cap, which is at most the relative cap's fraction of
  the total assets. A list of allocations is accepted exactly when the records given for a group agree
  and, for every group, the recorded principal plus the sum of all its allocations is at most the
  effective cap: splitting an allocation does not get around a cap, and no sum overflows.
\<close>

theorem caps_enforced:
  "(enforce P cap current amount assets = Ok () \<longleftrightarrow> can_allocate P cap current amount assets) \<and>
   (can_allocate P cap current amount assets \<longleftrightarrow>
      unat current + unat amount \<le> unat (effective_cap P cap assets)) \<and>
   (primitive_types_spec P \<longrightarrow> (\<forall>w. cg_relative_cap cap = Some w \<longrightarrow>
      unat (effective_cap P cap assets) * unat SCALE \<le> unat assets * unat w)) \<and>
   (\<forall>c. cg_absolute_cap cap = Some c \<longrightarrow> effective_cap P cap assets \<le> c) \<and>
   (validate_allocations P allocations assets = Ok () \<longleftrightarrow>
      (\<forall>(g, r, a) \<in> set allocations.
        unat (cgr_principal r) + group_amounts g allocations
          \<le> unat (effective_cap P (cgr_cap r) assets) \<and>
        (\<forall>(g', r', a') \<in> set allocations. g' = g \<longrightarrow> r' = r))) \<and>
   validate_allocations P allocations assets \<noteq> Panic"
  using effective_cap_ge [of "effective_cap P cap assets" P cap assets]
  by (auto simp: enforce_Ok can_allocate_iff validate_allocations_def validate_loop_Ok
    validate_loop_not_Panic loop_fits_def running_def om.get_new
    intro: effective_cap_relative simp del: unat_SCALE)

definition demo_record :: CapGroupRecord where
  "demo_record = \<lparr>cgr_cap = \<lparr>cg_absolute_cap = Some 100, cg_relative_cap = None\<rparr>, cgr_principal = 10\<rparr>"

theorem caps_enforced_witness:
  "validate_allocations word_types [(''a'', demo_record, 40), (''a'', demo_record, 50)] 1000 = Ok () \<and>
   validate_allocations word_types [(''a'', demo_record, 40), (''a'', demo_record, 51)] 1000 \<noteq> Ok () \<and>
   enforce word_types (cgr_cap demo_record) 10 90 1000 = Ok ()"
  using caps_enforced [of word_types "cgr_cap demo_record" 10 90 1000
      "[(''a'', demo_record, 40), (''a'', demo_record, 50)]"]
    caps_enforced [of word_types "cgr_cap demo_record" 10 90 1000
      "[(''a'', demo_record, 40), (''a'', demo_record, 51)]"]
  by (simp add: demo_record_def effective_cap_def cap_is_unlimited_def min_absorb1)

end
