(* ===== verification/Curator_Policy.thy ===== *)
theory Curator_Policy
  imports Curator_Supply Curator_Cap
begin

text \<open>
  The policy state of the curator executors
  (\<^verbatim>\<open>PolicyState\<close> of \<^verbatim>\<open>src/contract/vault/curator-primitives/src/policy/state/mod.rs\<close>).

  \<^item> A method that takes \<open>&mut self\<close> returns its result and the state it leaves. Some methods change the
    state before the check that fails, so an error may come with a changed state.
  \<^item> \<open>policy_inv\<close>: the maps have distinct keys, only configured markets have a principal, every
    market's group is known, every group's recorded principal is the exact sum of the principals of its
    markets, and the supply queue is well-formed and names only enabled markets with a cap.
  \<^item> \<open>policy_step\<close> is one successful call; the invariant holds in every state reachable from the default
    state.
\<close>

section \<open>State\<close>

record MarketConfig =
  mc_enabled :: bool
  mc_cap :: u128
  mc_cap_group_id :: "CapGroupId option"

record PolicyState =
  pol_markets :: "(TargetId, MarketConfig) OrderedMap"
  pol_principals :: "(TargetId, u128) OrderedMap"
  pol_cap_groups :: "(CapGroupId, CapGroupRecord) OrderedMap"
  pol_supply_queue :: SupplyQueue
  pol_leases :: MarketLeaseRegistry

datatype PolicyStateError =
    UnknownMarket TargetId
  | UnknownCapGroup CapGroupId
  | CapGroupInUse CapGroupId
  | PrincipalOverflow TargetId
  | InvalidSupplyQueue SupplyQueueError
  | SupplyQueueUnknownMarket TargetId
  | SupplyQueueDisabledMarket TargetId
  | SupplyQueueUnauthorizedMarket TargetId

definition market_config_default :: MarketConfig where
  "market_config_default = \<lparr>mc_enabled = True, mc_cap = 0, mc_cap_group_id = None\<rparr>"

definition policy_default :: PolicyState where
  "policy_default =
     \<lparr>pol_markets = om_new, pol_principals = om_new, pol_cap_groups = om_new,
      pol_supply_queue = sq_new None, pol_leases = registry_new\<rparr>"

definition principal_entry :: "PolicyState \<Rightarrow> TargetId \<Rightarrow> u128 option" where
  "principal_entry p target = om_get (pol_principals p) target"

section \<open>Checks\<close>

definition ensure_known_cap_group ::
    "PolicyState \<Rightarrow> CapGroupId option \<Rightarrow> (unit, PolicyStateError) result" where
  "ensure_known_cap_group p gid =
     (case gid of
        Some g \<Rightarrow>
          if \<not> om_contains_key (pol_cap_groups p) g then Err (UnknownCapGroup g) else Ok ()
      | None \<Rightarrow> Ok ())"

fun memberships_loop ::
    "PolicyState \<Rightarrow> MarketConfig list \<Rightarrow> (unit, PolicyStateError) result" where
  "memberships_loop p [] = Ok ()"
| "memberships_loop p (c # cs) =
     and_then (ensure_known_cap_group p (mc_cap_group_id c)) (\<lambda>_. memberships_loop p cs)"

definition validate_cap_group_memberships :: "PolicyState \<Rightarrow> (unit, PolicyStateError) result" where
  "validate_cap_group_memberships p = memberships_loop p (om_values (pol_markets p))"

fun queue_targets_loop ::
    "PolicyState \<Rightarrow> SupplyQueueEntry list \<Rightarrow> (unit, PolicyStateError) result" where
  "queue_targets_loop p [] = Ok ()"
| "queue_targets_loop p (e # es) =
     and_then (ok_or (om_get (pol_markets p) (sq_target_id e))
         (SupplyQueueUnknownMarket (sq_target_id e))) (\<lambda>config.
     if \<not> mc_enabled config then Err (SupplyQueueDisabledMarket (sq_target_id e))
     else if mc_cap config = 0 then Err (SupplyQueueUnauthorizedMarket (sq_target_id e))
     else queue_targets_loop p es)"

definition validate_supply_queue_targets_with ::
    "PolicyState \<Rightarrow> SupplyQueue \<Rightarrow> (unit, PolicyStateError) result" where
  "validate_supply_queue_targets_with p q = queue_targets_loop p (sq_entries q)"

section \<open>Totals\<close>

fun external_assets_loop ::
    "u128 \<Rightarrow> (TargetId \<times> u128) list \<Rightarrow> (u128, PolicyStateError) result" where
  "external_assets_loop acc [] = Ok acc"
| "external_assets_loop acc ((target, amount) # ps) =
     and_then (ok_or (checked_add acc amount) (PrincipalOverflow target)) (\<lambda>acc'.
     external_assets_loop acc' ps)"

definition external_assets :: "PolicyState \<Rightarrow> (u128, PolicyStateError) result" where
  "external_assets p = external_assets_loop 0 (pol_principals p)"

fun group_totals_loop ::
    "PolicyState \<Rightarrow> (CapGroupId, u128) OrderedMap \<Rightarrow> (TargetId \<times> MarketConfig) list
      \<Rightarrow> ((CapGroupId, u128) OrderedMap, PolicyStateError) result" where
  "group_totals_loop p totals [] = Ok totals"
| "group_totals_loop p totals ((target, config) # ms) =
     (case mc_cap_group_id config of
        None \<Rightarrow> group_totals_loop p totals ms
      | Some g \<Rightarrow>
          let amount = (case principal_entry p target of Some v \<Rightarrow> v | None \<Rightarrow> 0) in
          (case om_get totals g of
             Some total_so_far \<Rightarrow>
               and_then (ok_or (checked_add total_so_far amount) (PrincipalOverflow target)) (\<lambda>t.
               group_totals_loop p (om_put g t totals) ms)
           | None \<Rightarrow> group_totals_loop p (om_put g amount totals) ms))"

definition compute_cap_group_totals ::
    "PolicyState \<Rightarrow> ((CapGroupId, u128) OrderedMap, PolicyStateError) result" where
  "compute_cap_group_totals p = group_totals_loop p [] (pol_markets p)"

definition recompute_cap_group_principals ::
    "PolicyState \<Rightarrow> (unit, PolicyStateError) result \<times> PolicyState" where
  "recompute_cap_group_principals p =
     (case and_then (validate_cap_group_memberships p) (\<lambda>_. compute_cap_group_totals p) of
        Ok totals \<Rightarrow>
          (Ok (), p\<lparr>pol_cap_groups := om_modify_all (\<lambda>g r.
             r\<lparr>cgr_principal := (case om_get totals g of Some t \<Rightarrow> t | None \<Rightarrow> 0)\<rparr>)
             (pol_cap_groups p)\<rparr>)
      | Err e \<Rightarrow> (Err e, p)
      | Panic \<Rightarrow> (Panic, p))"

section \<open>Operations\<close>

definition prune_orphan_principals :: "PolicyState \<Rightarrow> PolicyState" where
  "prune_orphan_principals p =
     p\<lparr>pol_principals := om_retain (\<lambda>t _. om_contains_key (pol_markets p) t) (pol_principals p)\<rparr>"

definition initialize_missing_principals :: "PolicyState \<Rightarrow> PolicyState" where
  "initialize_missing_principals p =
     fold (\<lambda>t q. if om_contains_key (pol_principals q) t then q
         else q\<lparr>pol_principals := om_put t 0 (pol_principals q)\<rparr>)
       (om_keys (pol_markets p)) p"

definition policy_from_parts ::
    "(TargetId, MarketConfig) OrderedMap \<Rightarrow> (TargetId, u128) OrderedMap
      \<Rightarrow> (CapGroupId, CapGroupRecord) OrderedMap \<Rightarrow> MarketLeaseRegistry \<Rightarrow> SupplyQueue
      \<Rightarrow> (PolicyState, PolicyStateError) result" where
  "policy_from_parts ms ps gs leases q =
     (let p = \<lparr>pol_markets = ms, pol_principals = ps, pol_cap_groups = gs, pol_supply_queue = q,
        pol_leases = leases\<rparr> in
      and_then (map_err InvalidSupplyQueue (sq_validate q)) (\<lambda>_.
      and_then (validate_supply_queue_targets_with p q) (\<lambda>_.
      let (r, p') = recompute_cap_group_principals
        (initialize_missing_principals (prune_orphan_principals p))
      in and_then r (\<lambda>_. Ok p'))))"

definition replace_supply_queue ::
    "PolicyState \<Rightarrow> SupplyQueue \<Rightarrow> (unit, PolicyStateError) result \<times> PolicyState" where
  "replace_supply_queue p q =
     (case and_then (map_err InvalidSupplyQueue (sq_validate q))
         (\<lambda>_. validate_supply_queue_targets_with p q) of
        Ok _ \<Rightarrow> (Ok (), p\<lparr>pol_supply_queue := q\<rparr>)
      | Err e \<Rightarrow> (Err e, p)
      | Panic \<Rightarrow> (Panic, p))"

definition set_market_config ::
    "PolicyState \<Rightarrow> TargetId \<Rightarrow> MarketConfig \<Rightarrow> (unit, PolicyStateError) result \<times> PolicyState" where
  "set_market_config p target config =
     (case ensure_known_cap_group p (mc_cap_group_id config) of
        Ok _ \<Rightarrow>
          let p1 = p\<lparr>pol_markets := om_put target config (pol_markets p)\<rparr>;
              p2 = p1\<lparr>pol_principals := om_put target
                (case principal_entry p1 target of Some v \<Rightarrow> v | None \<Rightarrow> 0) (pol_principals p1)\<rparr>;
              p3 = (if \<not> mc_enabled config \<or> mc_cap config = 0
                then p2\<lparr>pol_supply_queue := sq_remove_target (pol_supply_queue p2) target\<rparr> else p2)
          in recompute_cap_group_principals p3
      | Err e \<Rightarrow> (Err e, p)
      | Panic \<Rightarrow> (Panic, p))"

definition set_market_cap ::
    "PolicyState \<Rightarrow> TargetId \<Rightarrow> u128 \<Rightarrow> (unit, PolicyStateError) result \<times> PolicyState" where
  "set_market_cap p target cap =
     (case om_get (pol_markets p) target of
        None \<Rightarrow> (Err (UnknownMarket target), p)
      | Some _ \<Rightarrow>
          let p1 = p\<lparr>pol_markets := om_modify target (\<lambda>c. c\<lparr>mc_cap := cap\<rparr>) (pol_markets p)\<rparr>
          in (Ok (), if cap = 0
            then p1\<lparr>pol_supply_queue := sq_remove_target (pol_supply_queue p1) target\<rparr> else p1))"

definition set_market_enabled ::
    "PolicyState \<Rightarrow> TargetId \<Rightarrow> bool \<Rightarrow> (unit, PolicyStateError) result \<times> PolicyState" where
  "set_market_enabled p target enabled =
     (case om_get (pol_markets p) target of
        None \<Rightarrow> (Err (UnknownMarket target), p)
      | Some _ \<Rightarrow>
          let p1 = p\<lparr>pol_markets := om_modify target (\<lambda>c. c\<lparr>mc_enabled := enabled\<rparr>) (pol_markets p)\<rparr>
          in (Ok (), if \<not> enabled
            then p1\<lparr>pol_supply_queue := sq_remove_target (pol_supply_queue p1) target\<rparr> else p1))"

definition set_market_cap_group ::
    "PolicyState \<Rightarrow> TargetId \<Rightarrow> CapGroupId option
      \<Rightarrow> (unit, PolicyStateError) result \<times> PolicyState" where
  "set_market_cap_group p target gid =
     (case ensure_known_cap_group p gid of
        Ok _ \<Rightarrow>
          (case om_get (pol_markets p) target of
             None \<Rightarrow> (Err (UnknownMarket target), p)
           | Some _ \<Rightarrow> recompute_cap_group_principals
               (p\<lparr>pol_markets := om_modify target (\<lambda>c. c\<lparr>mc_cap_group_id := gid\<rparr>) (pol_markets p)\<rparr>))
      | Err e \<Rightarrow> (Err e, p)
      | Panic \<Rightarrow> (Panic, p))"

definition set_principal ::
    "PolicyState \<Rightarrow> TargetId \<Rightarrow> u128 \<Rightarrow> (unit, PolicyStateError) result \<times> PolicyState" where
  "set_principal p target amount =
     (if \<not> om_contains_key (pol_markets p) target then (Err (UnknownMarket target), p)
      else recompute_cap_group_principals
        (p\<lparr>pol_principals := om_put target amount (pol_principals p)\<rparr>))"

definition remove_market ::
    "PolicyState \<Rightarrow> TargetId \<Rightarrow> (MarketConfig option, PolicyStateError) result \<times> PolicyState" where
  "remove_market p target =
     (case om_remove target (pol_markets p) of
        (None, ms) \<Rightarrow> (Ok None, p\<lparr>pol_markets := ms\<rparr>)
      | (Some config, ms) \<Rightarrow>
          let (r, p') = recompute_cap_group_principals
            (p\<lparr>pol_markets := ms, pol_principals := om_delete target (pol_principals p),
               pol_supply_queue := sq_remove_target (pol_supply_queue p) target\<rparr>)
          in (and_then r (\<lambda>_. Ok (Some config)), p'))"

definition remove_cap_group ::
    "PolicyState \<Rightarrow> CapGroupId \<Rightarrow> (CapGroupRecord option, PolicyStateError) result \<times> PolicyState" where
  "remove_cap_group p g =
     (if list_ex (\<lambda>c. mc_cap_group_id c = Some g) (om_values (pol_markets p))
      then (Err (CapGroupInUse g), p)
      else (let (old, gs) = om_remove g (pol_cap_groups p) in (Ok old, p\<lparr>pol_cap_groups := gs\<rparr>)))"

definition ensure_cap_group :: "PolicyState \<Rightarrow> CapGroupId \<Rightarrow> PolicyState" where
  "ensure_cap_group p g =
     (if om_contains_key (pol_cap_groups p) g then p
      else p\<lparr>pol_cap_groups := om_put g cap_record_default (pol_cap_groups p)\<rparr>)"

definition set_cap_group_absolute_cap ::
    "PolicyState \<Rightarrow> CapGroupId \<Rightarrow> u128 option \<Rightarrow> PolicyState" where
  "set_cap_group_absolute_cap p g new_cap =
     (let p' = ensure_cap_group p g in
      p'\<lparr>pol_cap_groups := om_modify g (\<lambda>r. r\<lparr>cgr_cap := (cgr_cap r)\<lparr>cg_absolute_cap := new_cap\<rparr>\<rparr>)
        (pol_cap_groups p')\<rparr>)"

definition set_cap_group_relative_cap ::
    "PolicyState \<Rightarrow> CapGroupId \<Rightarrow> Wad option \<Rightarrow> PolicyState" where
  "set_cap_group_relative_cap p g new_cap =
     (let p' = ensure_cap_group p g in
      p'\<lparr>pol_cap_groups := om_modify g (\<lambda>r. r\<lparr>cgr_cap := (cgr_cap r)\<lparr>cg_relative_cap := new_cap\<rparr>\<rparr>)
        (pol_cap_groups p')\<rparr>)"

definition prune_unused_cap_groups :: "PolicyState \<Rightarrow> PolicyState" where
  "prune_unused_cap_groups p =
     p\<lparr>pol_cap_groups := om_retain (\<lambda>g _.
       list_ex (\<lambda>c. mc_cap_group_id c = Some g) (om_values (pol_markets p))) (pol_cap_groups p)\<rparr>"

definition prune_zero_principals :: "PolicyState \<Rightarrow> PolicyState" where
  "prune_zero_principals p =
     p\<lparr>pol_principals := om_retain (\<lambda>t v. v \<noteq> 0 \<and> om_contains_key (pol_markets p) t)
       (pol_principals p)\<rparr>"

definition policy_is_empty :: "PolicyState \<Rightarrow> bool" where
  "policy_is_empty p \<longleftrightarrow> registry_is_empty (pol_leases p) \<and> pol_markets p = [] \<and>
     pol_principals p = [] \<and> pol_cap_groups p = [] \<and> sq_is_empty (pol_supply_queue p)"

fun cap_error_from_policy :: "PolicyStateError \<Rightarrow> CapGroupError" where
  "cap_error_from_policy (UnknownCapGroup g) = CapGroupNotFound g"
| "cap_error_from_policy (CapGroupInUse g) = InconsistentRecord g"
| "cap_error_from_policy _ = InconsistentRecord policy_state_sentinel"

section \<open>The invariant\<close>

definition principal_of :: "(TargetId, u128) OrderedMap \<Rightarrow> TargetId \<Rightarrow> nat" where
  "principal_of ps t = (case om_get ps t of Some v \<Rightarrow> unat v | None \<Rightarrow> 0)"

text \<open>The principals of the markets of a group.\<close>

definition group_sum ::
    "(TargetId, u128) OrderedMap \<Rightarrow> (TargetId, MarketConfig) OrderedMap \<Rightarrow> CapGroupId \<Rightarrow> nat" where
  "group_sum ps ms g = (\<Sum>(t, c) \<leftarrow> ms. if mc_cap_group_id c = Some g then principal_of ps t else 0)"

definition queue_allowed :: "(TargetId, MarketConfig) OrderedMap \<Rightarrow> SupplyQueue \<Rightarrow> bool" where
  "queue_allowed ms q \<longleftrightarrow>
     (\<forall>e \<in> set (sq_entries q). \<exists>c. om_get ms (sq_target_id e) = Some c \<and> mc_enabled c \<and> mc_cap c \<noteq> 0)"

definition groups_known ::
    "(TargetId, MarketConfig) OrderedMap \<Rightarrow> (CapGroupId, CapGroupRecord) OrderedMap \<Rightarrow> bool" where
  "groups_known ms gs \<longleftrightarrow>
     (\<forall>t c g. om_get ms t = Some c \<longrightarrow> mc_cap_group_id c = Some g \<longrightarrow> om_get gs g \<noteq> None)"

text \<open>All of the invariant but the recorded principals of the groups.\<close>

definition policy_base :: "PolicyState \<Rightarrow> bool" where
  "policy_base p \<longleftrightarrow>
     om_ok (pol_markets p) \<and> om_ok (pol_principals p) \<and> om_ok (pol_cap_groups p) \<and>
     (\<forall>t. om_get (pol_principals p) t \<noteq> None \<longrightarrow> om_get (pol_markets p) t \<noteq> None) \<and>
     groups_known (pol_markets p) (pol_cap_groups p) \<and>
     sq_ok (pol_supply_queue p) \<and> queue_allowed (pol_markets p) (pol_supply_queue p)"

definition groups_exact :: "PolicyState \<Rightarrow> bool" where
  "groups_exact p \<longleftrightarrow>
     (\<forall>g r. om_get (pol_cap_groups p) g = Some r \<longrightarrow>
        unat (cgr_principal r) = group_sum (pol_principals p) (pol_markets p) g)"

definition policy_inv :: "PolicyState \<Rightarrow> bool" where
  "policy_inv p \<longleftrightarrow> policy_base p \<and> groups_exact p"

lemma group_sum_simps [simp]:
  "group_sum ps [] g = 0"
  "group_sum ps ((t, c) # ms) g =
     (if mc_cap_group_id c = Some g then principal_of ps t else 0) + group_sum ps ms g"
  by (simp_all add: group_sum_def)

lemma group_sum_unused:
  "(\<And>t c. (t, c) \<in> set ms \<Longrightarrow> mc_cap_group_id c \<noteq> Some g) \<Longrightarrow> group_sum ps ms g = 0"
  by (induction ms) fastforce+

lemma group_sum_modify:
  "(\<And>c. mc_cap_group_id (f c) = mc_cap_group_id c) \<Longrightarrow>
    group_sum ps (om_modify t f ms) g = group_sum ps ms g"
  by (induction ms) auto

lemma group_sum_cong:
  "(\<And>t. principal_of ps t = principal_of ps' t) \<Longrightarrow> group_sum ps ms g = group_sum ps' ms g"
  by (induction ms) auto

lemma in_om_values: "om_ok m \<Longrightarrow> v \<in> set (om_values m) \<longleftrightarrow> (\<exists>k. om_get m k = Some v)"
  by (force simp: om_values_def om_ok_get [symmetric])

section \<open>Recomputing the group principals\<close>

lemma ensure_known_cap_group_eq:
  "ensure_known_cap_group p gid =
     (case gid of Some g \<Rightarrow> if om_get (pol_cap_groups p) g = None then Err (UnknownCapGroup g) else Ok ()
      | None \<Rightarrow> Ok ())"
  by (simp add: ensure_known_cap_group_def om_contains_key_get split: option.splits)

lemma memberships_Ok:
  "om_ok (pol_markets p) \<Longrightarrow>
    validate_cap_group_memberships p = Ok () \<longleftrightarrow> groups_known (pol_markets p) (pol_cap_groups p)"
proof -
  assume ok: "om_ok (pol_markets p)"
  have "memberships_loop p cs = Ok () \<longleftrightarrow>
      (\<forall>c \<in> set cs. \<forall>g. mc_cap_group_id c = Some g \<longrightarrow> om_get (pol_cap_groups p) g \<noteq> None)" for cs
    by (induction cs) (auto simp: ensure_known_cap_group_eq split: option.splits)
  then show ?thesis
    by (auto simp: validate_cap_group_memberships_def groups_known_def in_om_values [OF ok])
qed

definition total_or0 :: "(CapGroupId, u128) OrderedMap \<Rightarrow> CapGroupId \<Rightarrow> nat" where
  "total_or0 m g = (case om_get m g of Some v \<Rightarrow> unat v | None \<Rightarrow> 0)"

lemma group_totals_loop_Ok:
  "group_totals_loop p m ms = Ok m' \<Longrightarrow>
    total_or0 m' g = total_or0 m g + group_sum (pol_principals p) ms g"
proof (induction ms arbitrary: m)
  case (Cons x ms)
  obtain t c where x: "x = (t, c)" by (cases x)
  show ?case
  proof (cases "mc_cap_group_id c")
    case None
    then show ?thesis using Cons x by simp
  next
    case (Some h)
    let ?a = "case principal_entry p t of Some v \<Rightarrow> v | None \<Rightarrow> 0"
    have a: "unat ?a = principal_of (pol_principals p) t"
      by (simp add: principal_entry_def principal_of_def split: option.splits)
    obtain s where "group_totals_loop p (om_put h s m) ms = Ok m'"
        "unat s = total_or0 m h + unat ?a"
      using Cons.prems x Some by (auto simp: total_or0_def checked_add_eq_Some split: option.splits)
    then show ?thesis
      using Cons.IH [of "om_put h s m"] x Some a by (auto simp: total_or0_def om.get_put)
  qed
qed simp

lemma group_totals_loop_errors:
  "(\<exists>m'. group_totals_loop p m ms = Ok m') \<or> (\<exists>t. group_totals_loop p m ms = Err (PrincipalOverflow t))"
proof (induction ms arbitrary: m)
  case (Cons x ms)
  obtain t c where x: "x = (t, c)" by (cases x)
  have "(\<exists>m'. and_then (ok_or v (PrincipalOverflow t)) (\<lambda>t. group_totals_loop p (om_put g t m) ms) = Ok m') \<or>
      (\<exists>u. and_then (ok_or v (PrincipalOverflow t)) (\<lambda>t. group_totals_loop p (om_put g t m) ms) =
        Err (PrincipalOverflow u))" for v g
    using Cons.IH by (cases v) simp_all
  then show ?case using Cons.IH x by (auto simp: Let_def split: option.splits)
qed simp

text \<open>On a sound state the recomputation fixes the groups and touches nothing else, or overflows.\<close>

lemma recompute_Ok:
  assumes base: "policy_base p" and rec: "recompute_cap_group_principals p = (Ok x, p')"
  shows "policy_inv p'"
proof -
  obtain totals where totals: "compute_cap_group_totals p = Ok totals"
      and p': "p' = p\<lparr>pol_cap_groups := om_modify_all (\<lambda>g r.
        r\<lparr>cgr_principal := (case om_get totals g of Some t \<Rightarrow> t | None \<Rightarrow> 0)\<rparr>) (pol_cap_groups p)\<rparr>"
    using rec by (auto simp: recompute_cap_group_principals_def split: result.splits)
  have sums: "total_or0 totals g = group_sum (pol_principals p) (pol_markets p) g" for g
    using group_totals_loop_Ok [of p "[]" "pol_markets p" totals g] totals
    by (simp add: compute_cap_group_totals_def total_or0_def)
  then have "unat (case om_get totals g of Some t \<Rightarrow> t | None \<Rightarrow> 0) =
      group_sum (pol_principals p) (pol_markets p) g" for g
    using sums [of g] by (cases "om_get totals g") (simp_all add: total_or0_def)
  then have "groups_exact p'"
    by (auto simp: groups_exact_def p' om_get_modify_all)
  moreover have "policy_base p'"
    using base by (auto simp: policy_base_def p' om_ok_def groups_known_def om_get_modify_all)
  ultimately show ?thesis by (simp add: policy_inv_def)
qed

lemma recompute_cases:
  assumes "policy_base p"
  shows "(\<exists>p'. recompute_cap_group_principals p = (Ok (), p')) \<or>
    (\<exists>t. recompute_cap_group_principals p = (Err (PrincipalOverflow t), p))"
proof -
  have "validate_cap_group_memberships p = Ok ()"
    using assms memberships_Ok [of p] by (simp add: policy_base_def)
  then show ?thesis
    using group_totals_loop_errors [of p "[]" "pol_markets p"]
    by (auto simp: recompute_cap_group_principals_def compute_cap_group_totals_def)
qed

section \<open>Every operation keeps the invariant\<close>

lemma queue_allowed_removed:
  assumes "queue_allowed ms q" "sq_ok q" "\<And>t'. t' \<noteq> t \<Longrightarrow> om_get ms' t' = om_get ms t'"
  shows "queue_allowed ms' (sq_remove_target q t)"
  using assms by (auto simp: queue_allowed_def sq_remove_target_ok)

lemma queue_allowed_changed:
  assumes "queue_allowed ms q" "\<And>t'. t' \<noteq> t \<Longrightarrow> om_get ms' t' = om_get ms t'"
    and "om_get ms' t = Some c" "mc_enabled c" "mc_cap c \<noteq> 0"
  shows "queue_allowed ms' q"
  using assms unfolding queue_allowed_def by metis

lemma queue_targets_loop_Ok:
  "queue_targets_loop p es = Ok () \<longleftrightarrow>
     (\<forall>e \<in> set es. \<exists>c. om_get (pol_markets p) (sq_target_id e) = Some c \<and> mc_enabled c \<and> mc_cap c \<noteq> 0)"
  by (induction es) auto

lemma validate_supply_queue_targets_Ok:
  "validate_supply_queue_targets_with p q = Ok () \<longleftrightarrow> queue_allowed (pol_markets p) q"
  by (simp add: validate_supply_queue_targets_with_def queue_targets_loop_Ok queue_allowed_def)

text \<open>The state on which \<^verbatim>\<open>set_market_config\<close> recomputes the groups.\<close>

definition configured :: "PolicyState \<Rightarrow> TargetId \<Rightarrow> MarketConfig \<Rightarrow> PolicyState" where
  "configured p t c =
     (let p1 = p\<lparr>pol_markets := om_put t c (pol_markets p),
        pol_principals := om_put t (case principal_entry p t of Some v \<Rightarrow> v | None \<Rightarrow> 0) (pol_principals p)\<rparr>
      in if \<not> mc_enabled c \<or> mc_cap c = 0
         then p1\<lparr>pol_supply_queue := sq_remove_target (pol_supply_queue p) t\<rparr> else p1)"

lemma set_market_config_eq:
  "set_market_config p t c =
     (case ensure_known_cap_group p (mc_cap_group_id c) of
        Ok _ \<Rightarrow> recompute_cap_group_principals (configured p t c)
      | Err e \<Rightarrow> (Err e, p)
      | Panic \<Rightarrow> (Panic, p))"
  by (cases "ensure_known_cap_group p (mc_cap_group_id c)")
    (simp_all add: set_market_config_def configured_def Let_def principal_entry_def)

lemma configured_base:
  assumes base: "policy_base p" and known: "ensure_known_cap_group p (mc_cap_group_id c) = Ok ()"
  shows "policy_base (configured p t c)"
proof -
  have "queue_allowed (om_put t c (pol_markets p)) (pol_supply_queue (configured p t c))"
    using base queue_allowed_removed [of "pol_markets p" "pol_supply_queue p" t]
      queue_allowed_changed [of "pol_markets p" "pol_supply_queue p" t _ c]
    by (simp add: configured_def Let_def policy_base_def om.get_put)
  moreover have "groups_known (om_put t c (pol_markets p)) (pol_cap_groups p)"
    using base known
    by (auto simp: policy_base_def groups_known_def om.get_put ensure_known_cap_group_eq
      split: option.splits if_splits)
  moreover have "sq_ok (pol_supply_queue (configured p t c))"
    using base by (simp add: configured_def Let_def policy_base_def sq_remove_target_ok)
  moreover have "pol_markets (configured p t c) = om_put t c (pol_markets p)"
      "pol_cap_groups (configured p t c) = pol_cap_groups p"
      "pol_principals (configured p t c) =
        om_put t (case principal_entry p t of Some v \<Rightarrow> v | None \<Rightarrow> 0) (pol_principals p)"
    by (simp_all add: configured_def Let_def)
  ultimately show ?thesis
    using base by (simp add: policy_base_def om.ok_put om.get_put)
qed

lemma set_market_config_inv:
  "policy_inv p \<Longrightarrow> set_market_config p t c = (Ok x, p') \<Longrightarrow> policy_inv p'"
  using recompute_Ok [OF configured_base, of p c t x p']
  by (auto simp: set_market_config_eq policy_inv_def split: result.splits)

text \<open>An update of a configured market that keeps its group.\<close>

lemma market_modified_inv:
  assumes inv: "policy_inv p" and f: "\<And>c. mc_cap_group_id (f c) = mc_cap_group_id c"
    and q: "sq_ok q" "queue_allowed (om_modify t f (pol_markets p)) q"
  shows "policy_inv (p\<lparr>pol_markets := om_modify t f (pol_markets p), pol_supply_queue := q\<rparr>)"
  using assms
  by (auto simp: policy_inv_def policy_base_def groups_exact_def group_sum_modify om.ok_modify
    om.get_modify groups_known_def split: if_splits)

lemma set_market_cap_inv:
  assumes "policy_inv p" "set_market_cap p t cap = (Ok x, p')"
  shows "policy_inv p'"
proof -
  let ?ms = "om_modify t (\<lambda>c. c\<lparr>mc_cap := cap\<rparr>) (pol_markets p)"
  let ?q = "if cap = 0 then sq_remove_target (pol_supply_queue p) t else pol_supply_queue p"
  obtain c where c: "om_get (pol_markets p) t = Some c"
    using assms(2) by (auto simp: set_market_cap_def split: option.splits)
  have p': "p' = p\<lparr>pol_markets := ?ms, pol_supply_queue := ?q\<rparr>"
    using assms(2) c by (auto simp: set_market_cap_def Let_def)
  have q: "queue_allowed (pol_markets p) (pol_supply_queue p)" "sq_ok (pol_supply_queue p)"
    using assms(1) by (simp_all add: policy_inv_def policy_base_def)
  have "queue_allowed ?ms ?q"
  proof (cases "cap = 0")
    case True
    then show ?thesis using queue_allowed_removed [OF q, of t ?ms] by (simp add: om.get_modify)
  next
    case False
    then show ?thesis
      using q(1) c by (auto simp: queue_allowed_def om.get_modify split: if_splits)
  qed
  then show ?thesis
    unfolding p' using assms(1) q(2) by (intro market_modified_inv) (simp_all add: sq_remove_target_ok)
qed

lemma set_market_enabled_inv:
  assumes "policy_inv p" "set_market_enabled p t b = (Ok x, p')"
  shows "policy_inv p'"
proof -
  let ?ms = "om_modify t (\<lambda>c. c\<lparr>mc_enabled := b\<rparr>) (pol_markets p)"
  let ?q = "if b then pol_supply_queue p else sq_remove_target (pol_supply_queue p) t"
  obtain c where c: "om_get (pol_markets p) t = Some c"
    using assms(2) by (auto simp: set_market_enabled_def split: option.splits)
  have p': "p' = p\<lparr>pol_markets := ?ms, pol_supply_queue := ?q\<rparr>"
    using assms(2) c by (auto simp: set_market_enabled_def Let_def)
  have q: "queue_allowed (pol_markets p) (pol_supply_queue p)" "sq_ok (pol_supply_queue p)"
    using assms(1) by (simp_all add: policy_inv_def policy_base_def)
  have "queue_allowed ?ms ?q"
  proof (cases b)
    case False
    then show ?thesis using queue_allowed_removed [OF q, of t ?ms] by (simp add: om.get_modify)
  next
    case True
    then show ?thesis
      using q(1) c by (auto simp: queue_allowed_def om.get_modify split: if_splits)
  qed
  then show ?thesis
    unfolding p' using assms(1) q(2) by (intro market_modified_inv) (simp_all add: sq_remove_target_ok)
qed

lemma set_market_cap_group_base:
  assumes "policy_base p" "ensure_known_cap_group p gid = Ok ()" "om_get (pol_markets p) t = Some c"
  shows "policy_base
    (p\<lparr>pol_markets := om_modify t (\<lambda>c. c\<lparr>mc_cap_group_id := gid\<rparr>) (pol_markets p)\<rparr>)"
proof -
  let ?ms = "om_modify t (\<lambda>c. c\<lparr>mc_cap_group_id := gid\<rparr>) (pol_markets p)"
  have "queue_allowed ?ms (pol_supply_queue p)"
    using assms(1) by (fastforce simp: policy_base_def queue_allowed_def om.get_modify)
  moreover have "groups_known ?ms (pol_cap_groups p)"
    using assms
    by (auto simp: policy_base_def groups_known_def om.get_modify ensure_known_cap_group_eq
      split: option.splits if_splits)
  ultimately show ?thesis using assms(1) by (auto simp: policy_base_def om.ok_modify om.get_modify)
qed

lemma set_market_cap_group_inv:
  "policy_inv p \<Longrightarrow> set_market_cap_group p t gid = (Ok x, p') \<Longrightarrow> policy_inv p'"
  using recompute_Ok [OF set_market_cap_group_base, of p gid t _ x p']
  by (auto simp: set_market_cap_group_def policy_inv_def split: result.splits option.splits)

lemma set_principal_base:
  assumes "policy_base p" "om_contains_key (pol_markets p) t"
  shows "policy_base (p\<lparr>pol_principals := om_put t v (pol_principals p)\<rparr>)"
  using assms by (auto simp: policy_base_def om.ok_put om.get_put om_contains_key_get)

lemma set_principal_inv:
  "policy_inv p \<Longrightarrow> set_principal p t v = (Ok x, p') \<Longrightarrow> policy_inv p'"
  using recompute_Ok [OF set_principal_base, of p t v x p']
  by (auto simp: set_principal_def policy_inv_def split: if_splits)

lemma remove_market_base:
  assumes "policy_base p"
  shows "policy_base (p\<lparr>pol_markets := om_delete t (pol_markets p),
    pol_principals := om_delete t (pol_principals p),
    pol_supply_queue := sq_remove_target (pol_supply_queue p) t\<rparr>)"
proof -
  have "queue_allowed (om_delete t (pol_markets p)) (sq_remove_target (pol_supply_queue p) t)"
    using assms by (intro queue_allowed_removed [of "pol_markets p"])
      (simp_all add: policy_base_def om.get_delete)
  then show ?thesis
    using assms by (auto simp: policy_base_def om.ok_delete om.get_delete groups_known_def
      sq_remove_target_ok split: if_splits)
qed

lemma om_remove_None: "om_remove t m = (None, m') \<Longrightarrow> m' = m"
  by (induction m arbitrary: m') (auto split: if_splits prod.splits)

lemma om_remove_snd: "om_remove t m = (v, m') \<Longrightarrow> m' = om_delete t m"
  by (simp add: om_delete_def)

lemma remove_market_inv:
  assumes "policy_inv p" "remove_market p t = (Ok x, p')"
  shows "policy_inv p'"
proof (cases "om_remove t (pol_markets p)")
  case (Pair old ms)
  show ?thesis
  proof (cases old)
    case None
    then show ?thesis
      using assms Pair by (auto simp: remove_market_def dest!: om_remove_None)
  next
    case (Some c)
    let ?p = "p\<lparr>pol_markets := om_delete t (pol_markets p),
      pol_principals := om_delete t (pol_principals p),
      pol_supply_queue := sq_remove_target (pol_supply_queue p) t\<rparr>"
    obtain r p1 where rec: "recompute_cap_group_principals ?p = (r, p1)"
      by (cases "recompute_cap_group_principals ?p")
    then have "r = Ok ()" "p1 = p'"
      using assms(2) Pair Some by (auto simp: remove_market_def dest!: om_remove_snd)
    then show ?thesis
      using recompute_Ok [of ?p "()" p'] rec remove_market_base assms(1) by (simp add: policy_inv_def)
  qed
qed

lemma not_in_use:
  assumes "om_ok ms" "\<not> list_ex (\<lambda>c. mc_cap_group_id c = Some g) (om_values ms)"
    "om_get ms t = Some c"
  shows "mc_cap_group_id c \<noteq> Some g"
  using assms by (auto simp: list_ex_iff in_om_values)

lemma remove_cap_group_inv:
  assumes "policy_inv p" "remove_cap_group p g = (Ok x, p')"
  shows "policy_inv p'"
proof -
  have unused: "\<not> list_ex (\<lambda>c. mc_cap_group_id c = Some g) (om_values (pol_markets p))"
      and p': "p' = p\<lparr>pol_cap_groups := om_delete g (pol_cap_groups p)\<rparr>"
    using assms(2) by (auto simp: remove_cap_group_def om_delete_def split: if_splits prod.splits)
  have "groups_known (pol_markets p) (om_delete g (pol_cap_groups p))"
    using assms(1) not_in_use [OF _ unused]
    by (auto simp: policy_inv_def policy_base_def groups_known_def om.get_delete)
  then show ?thesis
    using assms(1)
    by (auto simp: policy_inv_def policy_base_def groups_exact_def p' om.ok_delete om.get_delete
      split: if_splits)
qed

lemma ensure_cap_group_inv:
  assumes "policy_inv p"
  shows "policy_inv (ensure_cap_group p g)"
proof (cases "om_contains_key (pol_cap_groups p) g")
  case False
  then have absent: "om_get (pol_cap_groups p) g = None" by (simp add: om_contains_key_get)
  have "mc_cap_group_id c \<noteq> Some g" if "(t, c) \<in> set (pol_markets p)" for t c
    using assms that absent unfolding policy_inv_def policy_base_def groups_known_def
    by (metis om_ok_get)
  then have "group_sum (pol_principals p) (pol_markets p) g = 0" by (rule group_sum_unused)
  then show ?thesis
    using assms absent
    by (auto simp: ensure_cap_group_def om_contains_key_get policy_inv_def policy_base_def
      groups_exact_def groups_known_def om.ok_put om.get_put cap_record_default_def)
qed (use assms in \<open>simp add: ensure_cap_group_def\<close>)

lemma cap_modified_inv:
  assumes "policy_inv p" "\<And>r. cgr_principal (f r) = cgr_principal r"
  shows "policy_inv (p\<lparr>pol_cap_groups := om_modify g f (pol_cap_groups p)\<rparr>)"
  using assms
  by (auto simp: policy_inv_def policy_base_def groups_exact_def groups_known_def om.ok_modify
    om.get_modify split: if_splits)

lemma set_cap_group_caps_inv:
  assumes "policy_inv p"
  shows "policy_inv (set_cap_group_absolute_cap p g c)" "policy_inv (set_cap_group_relative_cap p g w)"
  using ensure_cap_group_inv [OF assms, of g]
  by (simp_all add: set_cap_group_absolute_cap_def set_cap_group_relative_cap_def Let_def
    cap_modified_inv)

lemma prune_unused_inv:
  assumes "policy_inv p"
  shows "policy_inv (prune_unused_cap_groups p)"
proof -
  have ok: "om_ok (pol_cap_groups p)" "om_ok (pol_markets p)"
    using assms by (simp_all add: policy_inv_def policy_base_def)
  have "list_ex (\<lambda>c. mc_cap_group_id c = Some g) (om_values (pol_markets p))"
    if "om_get (pol_markets p) t = Some c" "mc_cap_group_id c = Some g" for t c g
    using that not_in_use [OF ok(2)] by blast
  then show ?thesis
    using assms ok
    by (auto simp: prune_unused_cap_groups_def policy_inv_def policy_base_def groups_exact_def
      groups_known_def om.ok_retain om.get_retain_Some)
qed

lemma principal_of_retain:
  "om_ok ps \<Longrightarrow> (\<And>t v. om_get ps t = Some v \<Longrightarrow> v \<noteq> 0 \<Longrightarrow> f t v) \<Longrightarrow>
    principal_of (om_retain f ps) t = principal_of ps t"
  by (auto simp: principal_of_def om.get_retain split: option.splits)
    (metis unsigned_0)

lemma prune_zero_inv:
  assumes "policy_inv p"
  shows "policy_inv (prune_zero_principals p)"
proof -
  have ok: "om_ok (pol_principals p)"
    using assms by (simp add: policy_inv_def policy_base_def)
  have "principal_of (pol_principals (prune_zero_principals p)) t = principal_of (pol_principals p) t"
    for t
    using assms unfolding prune_zero_principals_def
    by (auto simp: policy_inv_def policy_base_def om_contains_key_get intro!: principal_of_retain)
  then have "group_sum (pol_principals (prune_zero_principals p)) ms g =
      group_sum (pol_principals p) ms g" for ms g
    by (rule group_sum_cong)
  then show ?thesis
    using assms ok
    by (auto simp: prune_zero_principals_def policy_inv_def policy_base_def groups_exact_def
      om.ok_retain om.get_retain_Some)
qed

lemma replace_supply_queue_inv:
  assumes "policy_inv p" "replace_supply_queue p q = (Ok x, p')" "length (sq_buckets q) = 256"
  shows "policy_inv p'"
proof -
  have "sq_ok q" "queue_allowed (pol_markets p) q" "p' = p\<lparr>pol_supply_queue := q\<rparr>"
    using assms(2) sq_validate_Ok [OF assms(3)]
    by (auto simp: replace_supply_queue_def validate_supply_queue_targets_Ok [symmetric]
      split: result.splits)
  then show ?thesis
    using assms(1) by (simp add: policy_inv_def policy_base_def groups_exact_def)
qed

lemma initialize_fold:
  fixes p :: PolicyState
  defines "step \<equiv> \<lambda>t (q :: PolicyState). if om_contains_key (pol_principals q) t then q
      else q\<lparr>pol_principals := om_put t 0 (pol_principals q)\<rparr>"
  assumes "om_ok (pol_principals p)"
  shows "om_ok (pol_principals (fold step ts p)) \<and>
    pol_markets (fold step ts p) = pol_markets p \<and> pol_cap_groups (fold step ts p) = pol_cap_groups p \<and>
    pol_supply_queue (fold step ts p) = pol_supply_queue p \<and>
    (\<forall>t. om_get (pol_principals (fold step ts p)) t \<noteq> None \<longrightarrow>
      om_get (pol_principals p) t \<noteq> None \<or> t \<in> set ts)"
  using assms(2)
proof (induction ts arbitrary: p)
  case (Cons t ts)
  have "om_ok (pol_principals (step t p))" using Cons.prems by (simp add: step_def om.ok_put)
  from Cons.IH [OF this] show ?case
    by (auto simp: step_def om.get_put split: if_splits)
qed simp

lemma policy_from_parts_inv:
  assumes "om_ok ms" "om_ok ps" "om_ok gs" "length (sq_buckets q) = 256"
    and parts: "policy_from_parts ms ps gs leases q = Ok p"
  shows "policy_inv p"
proof -
  let ?p = "\<lparr>pol_markets = ms, pol_principals = ps, pol_cap_groups = gs, pol_supply_queue = q,
    pol_leases = leases\<rparr>"
  let ?p1 = "prune_orphan_principals ?p"
  let ?p2 = "initialize_missing_principals ?p1"
  obtain r p' where rec: "recompute_cap_group_principals ?p2 = (r, p')"
    by (cases "recompute_cap_group_principals ?p2")
  then have p': "r = Ok ()" "p' = p" and q: "sq_ok q" "queue_allowed ms q"
    using parts sq_validate_Ok [OF assms(4)]
    by (auto simp: policy_from_parts_def Let_def validate_supply_queue_targets_Ok)
  then have "validate_cap_group_memberships ?p2 = Ok ()"
    using rec by (auto simp: recompute_cap_group_principals_def split: result.splits)
  moreover have "om_ok (pol_principals ?p1)"
      "\<And>t. om_get (pol_principals ?p1) t \<noteq> None \<Longrightarrow> om_get ms t \<noteq> None"
    using assms(2)
    by (auto simp: prune_orphan_principals_def om.ok_retain om.get_retain om_contains_key_get
      split: option.splits if_splits)
  ultimately have "policy_base ?p2"
    using initialize_fold [of ?p1 "om_keys (pol_markets ?p1)"] assms q memberships_Ok [of ?p2]
    by (auto simp: policy_base_def initialize_missing_principals_def prune_orphan_principals_def
      om_get_None)
  then show ?thesis using recompute_Ok [of ?p2 "()" p] rec p' by simp
qed

section \<open>The state machine\<close>

text \<open>
  One successful call. A queue handed to \<^verbatim>\<open>replace_supply_queue\<close> is one made by the queue's own
  constructors, so it has all its buckets.
\<close>

inductive policy_step :: "PolicyState \<Rightarrow> PolicyState \<Rightarrow> bool" where
  "replace_supply_queue p q = (Ok (), p') \<Longrightarrow> length (sq_buckets q) = 256 \<Longrightarrow> policy_step p p'"
| "set_market_config p t c = (Ok (), p') \<Longrightarrow> policy_step p p'"
| "set_market_cap p t cap = (Ok (), p') \<Longrightarrow> policy_step p p'"
| "set_market_enabled p t b = (Ok (), p') \<Longrightarrow> policy_step p p'"
| "set_market_cap_group p t gid = (Ok (), p') \<Longrightarrow> policy_step p p'"
| "set_principal p t v = (Ok (), p') \<Longrightarrow> policy_step p p'"
| "remove_market p t = (Ok old, p') \<Longrightarrow> policy_step p p'"
| "remove_cap_group p g = (Ok old_group, p') \<Longrightarrow> policy_step p p'"
| "policy_step p (ensure_cap_group p g)"
| "policy_step p (set_cap_group_absolute_cap p g new_cap)"
| "policy_step p (set_cap_group_relative_cap p g new_relative_cap)"
| "policy_step p (prune_unused_cap_groups p)"
| "policy_step p (prune_zero_principals p)"

inductive policy_initial :: "PolicyState \<Rightarrow> bool" where
  "policy_initial policy_default"
| "om_ok ms \<Longrightarrow> om_ok ps \<Longrightarrow> om_ok gs \<Longrightarrow> length (sq_buckets q) = 256 \<Longrightarrow>
    policy_from_parts ms ps gs leases q = Ok p \<Longrightarrow> policy_initial p"

lemma policy_default_inv: "policy_inv policy_default"
  by (simp add: policy_inv_def policy_base_def groups_exact_def groups_known_def queue_allowed_def
    policy_default_def om.ok_new om.get_new sq_ok_new)

interpretation policy: state_machine policy_initial policy_step policy_inv
proof
  show "policy_initial p \<Longrightarrow> policy_inv p" for p
    by (induction rule: policy_initial.induct) (auto intro: policy_default_inv policy_from_parts_inv)
  show "policy_inv p'" if "policy_inv p" "policy_step p p'" for p p'
    using that(2,1)
    by (induction rule: policy_step.induct)
      (auto intro: replace_supply_queue_inv set_market_config_inv set_market_cap_inv
        set_market_enabled_inv set_market_cap_group_inv set_principal_inv remove_market_inv
        remove_cap_group_inv ensure_cap_group_inv set_cap_group_caps_inv prune_unused_inv prune_zero_inv)
qed

lemma external_assets_loop_sum:
  "external_assets_loop acc ps = Ok v \<Longrightarrow> unat v = unat acc + (\<Sum>(t, a) \<leftarrow> ps. unat a)"
  by (induction acc ps rule: external_assets_loop.induct) (auto simp: checked_add_eq_Some)

lemma external_assets_loop_fits:
  "unat acc + (\<Sum>(t, a) \<leftarrow> ps. unat a) < 2 ^ 128 \<Longrightarrow> \<exists>v. external_assets_loop acc ps = Ok v"
proof (induction acc ps rule: external_assets_loop.induct)
  case (2 acc t a ps)
  then obtain v where "checked_add acc a = Some v" "unat v = unat acc + unat a"
    by (auto simp: checked_add_def unat_word_ariths)
  then show ?case using 2 by simp
qed simp

section \<open>Properties\<close>


definition demo_policy :: PolicyState where
  "demo_policy = snd (set_principal (snd (set_market_config (ensure_cap_group policy_default ''g'') 7
     \<lparr>mc_enabled = True, mc_cap = 100, mc_cap_group_id = Some ''g''\<rparr>)) 7 40)"

lemmas demo_evals = set_principal_def set_market_config_def ensure_cap_group_def policy_default_def
  om_contains_key_def om_new_def cap_record_default_def recompute_cap_group_principals_def
  validate_cap_group_memberships_def ensure_known_cap_group_def compute_cap_group_totals_def
  principal_entry_def om_modify_all_def cap_group_default_def Let_def om_values_def

lemma demo_policy_value:
  "pol_cap_groups demo_policy = [(''g'', \<lparr>cgr_cap = cap_group_default, cgr_principal = 40\<rparr>)]"
  "pol_principals demo_policy = [(7, 40)]"
  "pol_markets demo_policy = [(7, \<lparr>mc_enabled = True, mc_cap = 100, mc_cap_group_id = Some ''g''\<rparr>)]"
  by (simp_all add: demo_policy_def demo_evals)

lemma demo_policy_reached: "policy_step\<^sup>*\<^sup>* policy_default demo_policy"
proof -
  let ?p1 = "ensure_cap_group policy_default ''g''"
  let ?c = "\<lparr>mc_enabled = True, mc_cap = 100, mc_cap_group_id = Some ''g''\<rparr>"
  have "set_market_config ?p1 7 ?c = (Ok (), snd (set_market_config ?p1 7 ?c))"
    by (simp add: demo_evals)
  moreover have "set_principal (snd (set_market_config ?p1 7 ?c)) 7 40 = (Ok (), demo_policy)"
    by (simp add: demo_policy_def demo_evals)
  ultimately have "policy_step ?p1 (snd (set_market_config ?p1 7 ?c))"
      "policy_step (snd (set_market_config ?p1 7 ?c)) demo_policy"
    by (blast intro: policy_step.intros)+
  moreover have "policy_step policy_default ?p1" by (rule policy_step.intros)
  ultimately show ?thesis by (meson converse_rtranclp_into_rtranclp r_into_rtranclp)
qed


text \<open>What a failed call leaves behind.\<close>

lemma recompute_Err:
  assumes "policy_base q" "recompute_cap_group_principals q = (Err e, p')"
  shows "\<exists>t. e = PrincipalOverflow t"
  using recompute_cases [OF assms(1)] assms(2) by auto

lemma ensure_known_not_Panic [simp]: "ensure_known_cap_group p gid \<noteq> Panic"
  by (simp add: ensure_known_cap_group_eq split: option.splits)

lemma configured_errors:
  assumes "policy_base p" "set_market_config p t c = (Err e, p')"
  shows "p' = p \<or> (\<exists>t. e = PrincipalOverflow t)"
proof (cases "ensure_known_cap_group p (mc_cap_group_id c)")
  case (Ok u)
  then show ?thesis
    using recompute_Err [OF configured_base [OF assms(1)], of c t e p'] assms(2)
    by (simp add: set_market_config_eq)
qed (use assms in \<open>simp_all add: set_market_config_eq\<close>)

lemma set_market_cap_group_errors:
  assumes "policy_base p" "set_market_cap_group p t gid = (Err e, p')"
  shows "p' = p \<or> (\<exists>t. e = PrincipalOverflow t)"
proof (cases "ensure_known_cap_group p gid")
  case (Ok u)
  then show ?thesis
    using recompute_Err [OF set_market_cap_group_base [OF assms(1)], of gid t _ e p'] assms(2)
    by (cases "om_get (pol_markets p) t") (auto simp: set_market_cap_group_def)
qed (use assms in \<open>simp_all add: set_market_cap_group_def\<close>)

lemma remove_market_errors:
  assumes "policy_base p" "remove_market p t = (Err e, p')"
  shows "\<exists>t. e = PrincipalOverflow t"
proof -
  let ?p = "p\<lparr>pol_markets := om_delete t (pol_markets p),
    pol_principals := om_delete t (pol_principals p),
    pol_supply_queue := sq_remove_target (pol_supply_queue p) t\<rparr>"
  have "\<exists>q. recompute_cap_group_principals ?p = (Err e, q)"
    using assms(2)
    by (auto simp: remove_market_def and_then_eq_Err split: prod.splits option.splits
      dest!: om_remove_snd)
  then show ?thesis using recompute_Err [OF remove_market_base [OF assms(1)]] by blast
qed



end
