(* ===== verification/Curator_Access.thy ===== *)
theory Curator_Access
  imports Kernel_Actions
begin

text \<open>
  Authorization of the curator vaults: action kinds and policy classes
  (\<^verbatim>\<open>src/contract/vault/curator-primitives/src/auth/mod.rs\<close>) and role-based access control
  (\<^verbatim>\<open>rbac/mod.rs\<close>).

  \<^item> A set of roles is a byte with one bit per role, as in the source.
  \<^item> The locale \<open>auth_adapter\<close> is the \<^verbatim>\<open>AuthAdapter\<close> trait: what an executor relies on is that a
    paused vault lets only the emergency actions through. The role-based adapter provides it.
\<close>

section \<open>Actions and policy classes\<close>

datatype AuthPolicyClass = PublicClass | SentinelClass | AllocatorClass | AllocatorEmergency | CuratorClass

datatype ActionKind =
    KDeposit | KRequestWithdraw | KExecuteWithdraw | KPause | KSetRestrictions | KPolicyAdmin
  | KBeginAllocating | KFinishAllocating | KSyncExternalAssets | KRebalanceWithdraw
  | KBeginRefreshing | KFinishRefreshing | KAbortAllocating | KAbortWithdrawing | KAbortRefreshing
  | KSettlePayout | KRefreshFees | KManualReconcile | KEmergencyReset | KAtomicWithdraw | KAtomicRedeem

fun canonical_policy_class :: "ActionKind \<Rightarrow> AuthPolicyClass" where
  "canonical_policy_class KDeposit = PublicClass"
| "canonical_policy_class KRequestWithdraw = PublicClass"
| "canonical_policy_class KAtomicWithdraw = PublicClass"
| "canonical_policy_class KAtomicRedeem = PublicClass"
| "canonical_policy_class KExecuteWithdraw = AllocatorClass"
| "canonical_policy_class KBeginAllocating = AllocatorClass"
| "canonical_policy_class KFinishAllocating = AllocatorClass"
| "canonical_policy_class KSyncExternalAssets = AllocatorClass"
| "canonical_policy_class KRebalanceWithdraw = AllocatorClass"
| "canonical_policy_class KBeginRefreshing = AllocatorClass"
| "canonical_policy_class KFinishRefreshing = AllocatorClass"
| "canonical_policy_class KSettlePayout = AllocatorClass"
| "canonical_policy_class KRefreshFees = AllocatorClass"
| "canonical_policy_class KPause = SentinelClass"
| "canonical_policy_class KSetRestrictions = SentinelClass"
| "canonical_policy_class KAbortAllocating = AllocatorEmergency"
| "canonical_policy_class KAbortWithdrawing = AllocatorEmergency"
| "canonical_policy_class KAbortRefreshing = AllocatorEmergency"
| "canonical_policy_class KManualReconcile = CuratorClass"
| "canonical_policy_class KEmergencyReset = CuratorClass"
| "canonical_policy_class KPolicyAdmin = CuratorClass"

definition boundary_policy_class :: "ActionKind \<Rightarrow> AuthPolicyClass" where
  "boundary_policy_class action = canonical_policy_class action"

definition allowed_while_paused :: "ActionKind \<Rightarrow> bool" where
  "allowed_while_paused action \<longleftrightarrow>
     action \<in> {KPause, KSetRestrictions, KAbortAllocating, KAbortWithdrawing, KAbortRefreshing,
       KManualReconcile, KEmergencyReset}"

definition is_privileged :: "ActionKind \<Rightarrow> bool" where
  "is_privileged action \<longleftrightarrow> canonical_policy_class action \<noteq> PublicClass"

fun action_kind :: "KernelAction \<Rightarrow> ActionKind" where
  "action_kind (BeginAllocating _ _ _) = KBeginAllocating"
| "action_kind (Deposit _ _ _ _ _) = KDeposit"
| "action_kind (AtomicWithdraw _ _ _ _ _ _) = KAtomicWithdraw"
| "action_kind (AtomicRedeem _ _ _ _ _ _) = KAtomicRedeem"
| "action_kind (RequestWithdraw _ _ _ _ _) = KRequestWithdraw"
| "action_kind (ExecuteWithdraw _) = KExecuteWithdraw"
| "action_kind (BeginRefreshing _ _ _) = KBeginRefreshing"
| "action_kind (FinishAllocating _ _) = KFinishAllocating"
| "action_kind (SyncExternalAssets _ _ _) = KSyncExternalAssets"
| "action_kind (RebalanceWithdraw _ _ _) = KRebalanceWithdraw"
| "action_kind (FinishRefreshing _ _) = KFinishRefreshing"
| "action_kind (AbortRefreshing _) = KAbortRefreshing"
| "action_kind (SettlePayout _ _) = KSettlePayout"
| "action_kind (AbortAllocating _) = KAbortAllocating"
| "action_kind (AbortWithdrawing _) = KAbortWithdrawing"
| "action_kind (RefreshFees _) = KRefreshFees"
| "action_kind (Pause _) = KPause"
| "action_kind EmergencyReset = KEmergencyReset"

datatype Caller = AdminCaller | CuratorCaller | SentinelCaller | AllocatorCaller | UserCaller

datatype AuthError =
    NotAuthorized Caller ActionKind
  | InvalidProof
  | MissingRole ActionKind AuthPolicyClass
  | VaultPaused

section \<open>Roles\<close>

datatype Role = Curator | Sentinel | Allocator

type_synonym RoleSet = "8 word"

definition RoleSet_NONE :: RoleSet where
  "RoleSet_NONE = 0"

fun role_mask :: "Role \<Rightarrow> RoleSet" where
  "role_mask Curator = push_bit 0 1"
| "role_mask Sentinel = push_bit 1 1"
| "role_mask Allocator = push_bit 2 1"

definition roles_union :: "RoleSet \<Rightarrow> RoleSet \<Rightarrow> RoleSet" where
  "roles_union a b = a OR b"

definition roles_contains :: "RoleSet \<Rightarrow> Role \<Rightarrow> bool" where
  "roles_contains roles role \<longleftrightarrow> roles AND role_mask role \<noteq> 0"

definition allowed_roles_for :: "ActionKind \<Rightarrow> RoleSet" where
  "allowed_roles_for action =
     (case canonical_policy_class action of
        PublicClass \<Rightarrow> RoleSet_NONE
      | SentinelClass \<Rightarrow> role_mask Sentinel
      | AllocatorClass \<Rightarrow> roles_union (role_mask Allocator) (role_mask Curator)
      | AllocatorEmergency \<Rightarrow>
          roles_union (roles_union (role_mask Allocator) (role_mask Sentinel)) (role_mask Curator)
      | CuratorClass \<Rightarrow> role_mask Curator)"

record RoleAssignment =
  ra_address :: Address
  ra_role :: Role

record RbacConfig =
  rbac_assignments :: "RoleAssignment list"
  rbac_paused :: bool

definition rbac_new :: "Address \<Rightarrow> RbacConfig" where
  "rbac_new curator =
     \<lparr>rbac_assignments = [\<lparr>ra_address = curator, ra_role = Curator\<rparr>], rbac_paused = False\<rparr>"

definition role_set_for :: "RbacConfig \<Rightarrow> Address \<Rightarrow> RoleSet" where
  "role_set_for config addr =
     fold (\<lambda>a roles. roles_union roles (role_mask (ra_role a)))
       (filter (\<lambda>a. ra_address a = addr) (rbac_assignments config)) RoleSet_NONE"

definition has_role :: "RbacConfig \<Rightarrow> Address \<Rightarrow> Role \<Rightarrow> bool" where
  "has_role config addr role = roles_contains (role_set_for config addr) role"

definition curator_count :: "RbacConfig \<Rightarrow> nat" where
  "curator_count config = length (filter (\<lambda>a. ra_role a = Curator) (rbac_assignments config))"

definition add_role :: "RbacConfig \<Rightarrow> Address \<Rightarrow> Role \<Rightarrow> bool \<times> RbacConfig" where
  "add_role config addr role =
     (if has_role config addr role then (False, config)
      else (True, config\<lparr>rbac_assignments :=
        rbac_assignments config @ [\<lparr>ra_address = addr, ra_role = role\<rparr>]\<rparr>))"

definition remove_role :: "RbacConfig \<Rightarrow> Address \<Rightarrow> Role \<Rightarrow> bool \<times> RbacConfig" where
  "remove_role config addr role =
     (if role = Curator \<and> curator_count config = 1 \<and> has_role config addr role then (False, config)
      else
        let kept = filter (\<lambda>a. ra_address a \<noteq> addr \<or> ra_role a \<noteq> role) (rbac_assignments config);
            config' = config\<lparr>rbac_assignments := kept\<rparr>
        in (length kept \<noteq> length (rbac_assignments config), config'))"

definition get_roles :: "RbacConfig \<Rightarrow> Address \<Rightarrow> Role list" where
  "get_roles config addr =
     (let roles = role_set_for config addr
      in filter (roles_contains roles) [Curator, Sentinel, Allocator])"

definition rbac_set_paused :: "RbacConfig \<Rightarrow> bool \<Rightarrow> RbacConfig" where
  "rbac_set_paused config paused_flag = config\<lparr>rbac_paused := paused_flag\<rparr>"

definition allowed_roles_for_action :: "ActionKind \<Rightarrow> Role list" where
  "allowed_roles_for_action action =
     filter (roles_contains (allowed_roles_for action)) [Curator, Sentinel, Allocator]"

definition rbac_is_allowed :: "RbacConfig \<Rightarrow> Address \<Rightarrow> RoleSet \<Rightarrow> bool" where
  "rbac_is_allowed config caller allowed \<longleftrightarrow>
     allowed = RoleSet_NONE \<or>
     list_ex (\<lambda>role. roles_contains allowed role \<and> roles_contains (role_set_for config caller) role)
       [Curator, Sentinel, Allocator]"

definition rbac_authorize ::
    "RbacConfig \<Rightarrow> ActionKind \<Rightarrow> Address \<Rightarrow> (unit, AuthError) result" where
  "rbac_authorize config action caller =
     (if rbac_paused config \<and> \<not> allowed_while_paused action then Err VaultPaused
      else if \<not> rbac_is_allowed config caller (allowed_roles_for action)
      then Err (MissingRole action (canonical_policy_class action))
      else Ok ())"

section \<open>Role sets are sets\<close>

lemma role_mask_disjoint [simp]: "role_mask r AND role_mask r' \<noteq> 0 \<longleftrightarrow> r = r'"
  by (cases r; cases r') simp_all

declare role_mask.simps [simp del]

lemma roles_contains_union [simp]:
  "roles_contains (roles_union a b) r \<longleftrightarrow> roles_contains a r \<or> roles_contains b r"
  by (auto simp: roles_contains_def roles_union_def bit.conj_disj_distrib2 or_eq_0_iff)

lemma roles_contains_mask [simp]: "roles_contains (role_mask r) r' \<longleftrightarrow> r = r'"
  by (simp add: roles_contains_def)

lemma roles_contains_none [simp]: "\<not> roles_contains RoleSet_NONE r"
  by (simp add: roles_contains_def RoleSet_NONE_def)

lemma assignment_eq:
  "a = \<lparr>ra_address = addr, ra_role = r\<rparr> \<longleftrightarrow> ra_address a = addr \<and> ra_role a = r"
  by (cases a) auto

lemma role_set_for_contains:
  "roles_contains (role_set_for config addr) r \<longleftrightarrow>
     \<lparr>ra_address = addr, ra_role = r\<rparr> \<in> set (rbac_assignments config)"
proof -
  have loop: "roles_contains (fold (\<lambda>a roles. roles_union roles (role_mask (ra_role a))) as roles) r \<longleftrightarrow>
      roles_contains roles r \<or> (\<exists>a \<in> set as. ra_role a = r)" for as roles
    by (induction as arbitrary: roles) auto
  have "roles_contains (role_set_for config addr) r \<longleftrightarrow>
      (\<exists>a \<in> set (rbac_assignments config). ra_address a = addr \<and> ra_role a = r)"
    by (auto simp: role_set_for_def loop)
  then show ?thesis by (simp flip: assignment_eq)
qed

lemma has_role_iff:
  "has_role config addr r \<longleftrightarrow> \<lparr>ra_address = addr, ra_role = r\<rparr> \<in> set (rbac_assignments config)"
  by (simp add: has_role_def role_set_for_contains)

text \<open>The roles a policy class asks for.\<close>

fun class_roles :: "AuthPolicyClass \<Rightarrow> Role set" where
  "class_roles PublicClass = {}"
| "class_roles SentinelClass = {Sentinel}"
| "class_roles AllocatorClass = {Allocator, Curator}"
| "class_roles AllocatorEmergency = {Allocator, Sentinel, Curator}"
| "class_roles CuratorClass = {Curator}"

lemma allowed_roles_contains:
  "roles_contains (allowed_roles_for action) r \<longleftrightarrow> r \<in> class_roles (canonical_policy_class action)"
  by (auto simp: allowed_roles_for_def split: AuthPolicyClass.splits)

lemma allowed_roles_none:
  "allowed_roles_for action = RoleSet_NONE \<longleftrightarrow> canonical_policy_class action = PublicClass"
proof
  assume "allowed_roles_for action = RoleSet_NONE"
  then have "class_roles (canonical_policy_class action) = {}"
    using allowed_roles_contains [of action] by auto
  then show "canonical_policy_class action = PublicClass"
    by (cases "canonical_policy_class action") simp_all
qed (simp add: allowed_roles_for_def)

lemma rbac_is_allowed_iff:
  "rbac_is_allowed config caller (allowed_roles_for action) \<longleftrightarrow>
     canonical_policy_class action = PublicClass \<or>
     (\<exists>r \<in> class_roles (canonical_policy_class action). has_role config caller r)"
proof -
  have all: "list_ex P [Curator, Sentinel, Allocator] \<longleftrightarrow> (\<exists>r. P r)" for P
    by (simp, metis Role.exhaust)
  show ?thesis
    unfolding rbac_is_allowed_def all allowed_roles_none allowed_roles_contains has_role_def by blast
qed

section \<open>The adapter interface\<close>

locale auth_adapter =
  fixes authorize :: "'a \<Rightarrow> ActionKind \<Rightarrow> Address \<Rightarrow> (unit, AuthError) result"
    and is_paused :: "'a \<Rightarrow> bool"
  assumes authorize_not_Panic: "authorize a action caller \<noteq> Panic"
    and paused_refused: "is_paused a \<Longrightarrow> \<not> allowed_while_paused action \<Longrightarrow>
      authorize a action caller = Err VaultPaused"
begin

lemma authorized_while_paused:
  "is_paused a \<Longrightarrow> authorize a (action_kind action) caller = Ok () \<Longrightarrow>
    (\<exists>b. action = Pause b) \<or> (\<exists>op. action = AbortAllocating op) \<or>
    (\<exists>op. action = AbortWithdrawing op) \<or> (\<exists>op. action = AbortRefreshing op) \<or>
    action = EmergencyReset"
  using paused_refused [of a "action_kind action" caller]
  by (cases action) (auto simp: allowed_while_paused_def)

end

interpretation rbac: auth_adapter rbac_authorize rbac_paused
  by unfold_locales (simp_all add: rbac_authorize_def)

section \<open>Curators\<close>

inductive rbac_step :: "RbacConfig \<Rightarrow> RbacConfig \<Rightarrow> bool" where
  "rbac_step config (snd (add_role config addr role))"
| "rbac_step config (snd (remove_role config addr role))"
| "rbac_step config (rbac_set_paused config b)"

definition rbac_initial :: "RbacConfig \<Rightarrow> bool" where
  "rbac_initial config \<longleftrightarrow> (\<exists>curator. config = rbac_new curator)"

definition rbac_inv :: "RbacConfig \<Rightarrow> bool" where
  "rbac_inv config \<longleftrightarrow> distinct (rbac_assignments config) \<and> (\<exists>a. has_role config a Curator)"

lemma has_curator:
  "(\<exists>a. has_role config a Curator) \<longleftrightarrow> (\<exists>c \<in> set (rbac_assignments config). ra_role c = Curator)"
proof
  assume "\<exists>c \<in> set (rbac_assignments config). ra_role c = Curator"
  then obtain c where c: "c \<in> set (rbac_assignments config)" "ra_role c = Curator" ..
  then have "c = \<lparr>ra_address = ra_address c, ra_role = Curator\<rparr>" by (simp add: assignment_eq)
  then have "has_role config (ra_address c) Curator" using c(1) unfolding has_role_iff by (rule subst)
  then show "\<exists>a. has_role config a Curator" ..
qed (force simp: has_role_iff)

text \<open>Removing a role leaves a curator: the last one is not removed.\<close>

lemma curator_survives:
  assumes inv: "rbac_inv config"
  shows "rbac_inv (snd (remove_role config addr role))"
proof (cases "role = Curator \<and> curator_count config = 1 \<and> has_role config addr role")
  case False
  let ?as = "rbac_assignments config"
  let ?cs = "filter (\<lambda>a. ra_role a = Curator) ?as"
  let ?kept = "filter (\<lambda>a. ra_address a \<noteq> addr \<or> ra_role a \<noteq> role) ?as"
  obtain a where a: "a \<in> set ?as" "ra_role a = Curator"
    using inv by (auto simp: rbac_inv_def has_curator)
  have "\<exists>c \<in> set ?kept. ra_role c = Curator"
  proof (rule ccontr)
    assume none: "\<not> (\<exists>c \<in> set ?kept. ra_role c = Curator)"
    then have only: "role = Curator" "\<forall>c \<in> set ?cs. c = \<lparr>ra_address = addr, ra_role = Curator\<rparr>"
      using a by (auto simp: assignment_eq)
    then have "set ?cs = {\<lparr>ra_address = addr, ra_role = Curator\<rparr>}" using a by fastforce
    moreover have "distinct ?cs" using inv by (simp add: rbac_inv_def)
    ultimately have "length ?cs = 1" using distinct_card [of ?cs] by simp
    moreover have "has_role config addr Curator" using a only by (force simp: has_role_iff)
    ultimately show False using False only(1) by (simp add: curator_count_def)
  qed
  then show ?thesis
    using False inv by (auto simp: rbac_inv_def remove_role_def Let_def has_curator)
qed (use inv in \<open>auto simp: remove_role_def\<close>)

interpretation rbac_machine: state_machine rbac_initial rbac_step rbac_inv
proof
  show "rbac_initial c \<Longrightarrow> rbac_inv c" for c
    by (auto simp: rbac_initial_def rbac_inv_def rbac_new_def has_role_iff)
  show "rbac_inv c'" if "rbac_inv c" "rbac_step c c'" for c c'
    using that(2,1)
  proof (induction rule: rbac_step.induct)
    case (1 config addr role)
    then show ?case
      by (auto simp: rbac_inv_def add_role_def has_role_iff)
  next
    case (2 config addr role)
    then show ?case by (rule curator_survives)
  next
    case (3 config b)
    then show ?case by (simp add: rbac_inv_def has_role_iff rbac_set_paused_def)
  qed
qed

section \<open>Properties\<close>

text \<open>
  C26. Access control. In every role configuration reached from the initial one by adding and removing
  roles and by pausing, at least one curator remains. An action is authorized exactly when it may run
  in the current pause state and it is public or the caller holds one of the roles of its policy class:
  the sentinel for pausing and restrictions, the allocator or curator for operations, any of the three
  for aborts, and the curator alone for resets and administration. While the vault is paused only
  pausing, aborts and the emergency reset of the kernel's actions pass.
\<close>

theorem access_control:
  assumes "rbac_step\<^sup>*\<^sup>* (rbac_new curator) config"
  shows "(\<exists>a. has_role config a Curator) \<and>
    (rbac_authorize config action caller = Ok () \<longleftrightarrow>
      (\<not> rbac_paused config \<or> allowed_while_paused action) \<and>
      (canonical_policy_class action = PublicClass \<or>
        (\<exists>r \<in> class_roles (canonical_policy_class action). has_role config caller r))) \<and>
    (\<forall>k. rbac_paused config \<and> rbac_authorize config (action_kind k) caller = Ok () \<longrightarrow>
      (\<exists>b. k = Pause b) \<or> (\<exists>op. k = AbortAllocating op) \<or> (\<exists>op. k = AbortWithdrawing op) \<or>
      (\<exists>op. k = AbortRefreshing op) \<or> k = EmergencyReset)"
proof -
  have "rbac_inv config"
    by (rule rbac_machine.reachable_inv [OF _ assms]) (auto simp: rbac_initial_def)
  then show ?thesis
    using rbac.authorized_while_paused [of config _ caller]
    by (auto simp: rbac_inv_def rbac_authorize_def rbac_is_allowed_iff)
qed

theorem access_control_witness:
  "(\<exists>a. has_role (snd (remove_role (rbac_new 5) 5 Curator)) a Curator) \<and>
   rbac_authorize (snd (remove_role (rbac_new 5) 5 Curator)) KEmergencyReset 5 = Ok () \<and>
   rbac_authorize (snd (remove_role (rbac_new 5) 5 Curator)) KEmergencyReset 6 =
     Err (MissingRole KEmergencyReset CuratorClass)"
proof -
  have run: "rbac_step\<^sup>*\<^sup>* (rbac_new 5) (snd (remove_role (rbac_new 5) 5 Curator))"
    by (rule r_into_rtranclp) (rule rbac_step.intros)
  have same: "snd (remove_role (rbac_new 5) 5 Curator) = rbac_new 5"
    by (simp add: remove_role_def curator_count_def rbac_new_def has_role_iff)
  have "has_role (rbac_new 5) 5 Curator" "\<not> has_role (rbac_new 5) 6 Curator"
    by (simp_all add: rbac_new_def has_role_iff)
  then show ?thesis
    using access_control [OF run, of KEmergencyReset 5] access_control [OF run, of KEmergencyReset 6]
    unfolding same by (auto simp: rbac_new_def rbac_authorize_def rbac_is_allowed_iff)
qed

end
