(* ===== verification/Curator_Governance.thy ===== *)
theory Curator_Governance
  imports Curator_Cap "HOL-Library.Multiset"
begin

text \<open>
  Governance decisions (\<^verbatim>\<open>src/contract/vault/curator-primitives/src/governance/mod.rs\<close>): the queue of
  pending timelocked values, the decision whether a change of fees, caps, timelock or restrictions needs
  the timelock, and the translation of the vault's restrictions
  (\<^verbatim>\<open>governance_restrictions\<close> of \<^verbatim>\<open>soroban/src/contract/entrypoints.rs\<close>).

  \<^item> A queue is the list of its entries; a key function is an argument, as in the code.
  \<^item> Queues are run as a state machine with a history of what was scheduled, executed and revoked.
  \<^item> What a decision lets through at once is compared with the enforcement of the caps and of the
    restrictions elsewhere in the library.
\<close>

section \<open>Pending values\<close>

record 'v PendingValue =
  pv_value :: 'v
  pv_ready_at_ns :: TimestampNs

definition is_mature :: "'v PendingValue \<Rightarrow> TimestampNs \<Rightarrow> bool" where
  "is_mature p now_ns = is_ready (from_ready_at (pv_ready_at_ns p)) now_ns"

datatype 'v TakePending = MissingPending | StillPending TimestampNs | ReadyPending 'v

record 'v ScheduledPending =
  sp_ready_at_ns :: TimestampNs
  sp_replaced :: "'v list"

type_synonym 'v PendingActions = "'v PendingValue list"

definition pending_default :: "'v PendingActions" where
  "pending_default = []"

definition pending_back :: "'v PendingActions \<Rightarrow> 'v PendingValue option" where
  "pending_back q = (if q = [] then None else Some (last q))"

text \<open>\<^const>\<open>None\<close> is the panic of the \<^verbatim>\<open>expect\<close> in \<^verbatim>\<open>schedule\<close>.\<close>

definition schedule ::
    "'v PendingActions \<Rightarrow> 'v \<Rightarrow> TimestampNs \<Rightarrow> DurationNs \<Rightarrow> (TimestampNs \<times> 'v PendingActions) option" where
  "schedule q v now_ns timelock_ns =
     (case ready_at_ns (schedule_from now_ns timelock_ns) of
        None \<Rightarrow> None
      | Some ready_at \<Rightarrow> Some (ready_at, q @ [\<lparr>pv_value = v, pv_ready_at_ns = ready_at\<rparr>]))"

definition has_pending_key :: "'v PendingActions \<Rightarrow> 'k \<Rightarrow> ('v \<Rightarrow> 'k) \<Rightarrow> bool" where
  "has_pending_key q key key_of \<longleftrightarrow> list_ex (\<lambda>e. key_of (pv_value e) = key) q"

text \<open>
  The loop of \<^verbatim>\<open>take_by_key\<close>: the index of the first mature entry with the key, and the earliest time
  at which one of the entries seen before becomes ready.
\<close>

fun take_loop ::
    "nat \<Rightarrow> TimestampNs option \<Rightarrow> TimestampNs \<Rightarrow> 'k \<Rightarrow> ('v \<Rightarrow> 'k) \<Rightarrow> 'v PendingActions \<Rightarrow>
      nat option \<times> TimestampNs option" where
  "take_loop index next_ready now_ns key key_of [] = (None, next_ready)"
| "take_loop index next_ready now_ns key key_of (e # es) =
     (if key_of (pv_value e) \<noteq> key then take_loop (Suc index) next_ready now_ns key key_of es
      else if is_mature e now_ns then (Some index, next_ready)
      else
        let next' = (case next_ready of
              Some current \<Rightarrow> min current (pv_ready_at_ns e)
            | None \<Rightarrow> pv_ready_at_ns e)
        in take_loop (Suc index) (Some next') now_ns key key_of es)"

definition take_by_key ::
    "'v PendingActions \<Rightarrow> TimestampNs \<Rightarrow> 'k \<Rightarrow> ('v \<Rightarrow> 'k) \<Rightarrow> 'v TakePending \<times> 'v PendingActions" where
  "take_by_key q now_ns key key_of =
     (case take_loop 0 None now_ns key key_of q of
        (Some index, _) \<Rightarrow> (ReadyPending (pv_value (q ! index)), take index q @ drop (Suc index) q)
      | (None, Some ready_at) \<Rightarrow> (StillPending ready_at, q)
      | (None, None) \<Rightarrow> (MissingPending, q))"

fun revoke_loop ::
    "'k \<Rightarrow> ('v \<Rightarrow> 'k) \<Rightarrow> 'v PendingActions \<Rightarrow> 'v list \<Rightarrow> 'v PendingActions \<Rightarrow> 'v list \<times> 'v PendingActions" where
  "revoke_loop key key_of retained removed [] = (removed, retained)"
| "revoke_loop key key_of retained removed (e # es) =
     (if key_of (pv_value e) = key
      then revoke_loop key key_of retained (removed @ [pv_value e]) es
      else revoke_loop key key_of (retained @ [e]) removed es)"

definition revoke_by_key ::
    "'v PendingActions \<Rightarrow> 'k \<Rightarrow> ('v \<Rightarrow> 'k) \<Rightarrow> 'v list \<times> 'v PendingActions" where
  "revoke_by_key q key key_of = revoke_loop key key_of [] [] q"

definition schedule_replacing ::
    "'v PendingActions \<Rightarrow> 'k \<Rightarrow> ('v \<Rightarrow> 'k) \<Rightarrow> 'v \<Rightarrow> TimestampNs \<Rightarrow> DurationNs \<Rightarrow>
      ('v ScheduledPending \<times> 'v PendingActions) option" where
  "schedule_replacing q key key_of v now_ns timelock_ns =
     (let (replaced, q') = revoke_by_key q key key_of
      in map_option (\<lambda>(ready_at, q''). (\<lparr>sp_ready_at_ns = ready_at, sp_replaced = replaced\<rparr>, q''))
           (schedule q' v now_ns timelock_ns))"

section \<open>Decisions\<close>

datatype TimelockDecision = Immediate | Timelocked

definition requires_timelock :: "TimelockDecision \<Rightarrow> bool" where
  "requires_timelock d \<longleftrightarrow> d = Timelocked"

definition from_requires_timelock :: "bool \<Rightarrow> TimelockDecision" where
  "from_requires_timelock b = (if b then Timelocked else Immediate)"

definition is_immediate :: "TimelockDecision \<Rightarrow> bool" where
  "is_immediate d \<longleftrightarrow> d = Immediate"

subsection \<open>Restrictions\<close>

datatype 'a GovRestrictions = GovPaused | GovBlacklist "'a list" | GovWhitelist "'a list"

definition slice_contains :: "'a list \<Rightarrow> 'a \<Rightarrow> bool" where
  "slice_contains items x \<longleftrightarrow> list_ex (\<lambda>item. item = x) items"

definition any_missing_from :: "'a list \<Rightarrow> 'a list \<Rightarrow> bool" where
  "any_missing_from source candidate_superset \<longleftrightarrow>
     list_ex (\<lambda>item. \<not> slice_contains candidate_superset item) source"

definition any_overlap :: "'a list \<Rightarrow> 'a list \<Rightarrow> bool" where
  "any_overlap left right \<longleftrightarrow> list_ex (\<lambda>item. slice_contains right item) left"

fun normalize_members_loop :: "'a list \<Rightarrow> 'a list \<Rightarrow> 'a list" where
  "normalize_members_loop acc [] = acc"
| "normalize_members_loop acc (m # ms) =
     normalize_members_loop (if list_ex (\<lambda>existing. existing = m) acc then acc else acc @ [m]) ms"

definition normalize_members :: "'a list \<Rightarrow> 'a list" where
  "normalize_members members = normalize_members_loop [] members"

definition gov_blacklist :: "'a list \<Rightarrow> 'a GovRestrictions" where
  "gov_blacklist members = GovBlacklist (normalize_members members)"

definition gov_whitelist :: "'a list \<Rightarrow> 'a GovRestrictions" where
  "gov_whitelist members = GovWhitelist (normalize_members members)"

fun gov_normalized :: "'a GovRestrictions \<Rightarrow> 'a GovRestrictions" where
  "gov_normalized GovPaused = GovPaused"
| "gov_normalized (GovBlacklist members) = GovBlacklist (normalize_members members)"
| "gov_normalized (GovWhitelist members) = GovWhitelist (normalize_members members)"

fun gov_members :: "'a GovRestrictions \<Rightarrow> 'a list option" where
  "gov_members GovPaused = None"
| "gov_members (GovBlacklist members) = Some members"
| "gov_members (GovWhitelist members) = Some members"

fun determine_relaxed :: "'a GovRestrictions option \<Rightarrow> 'a GovRestrictions option \<Rightarrow> bool" where
  "determine_relaxed None None = False"
| "determine_relaxed None (Some _) = False"
| "determine_relaxed (Some _) None = True"
| "determine_relaxed (Some GovPaused) (Some GovPaused) = False"
| "determine_relaxed (Some GovPaused) (Some (GovWhitelist new)) = (new \<noteq> [])"
| "determine_relaxed (Some GovPaused) (Some (GovBlacklist _)) = True"
| "determine_relaxed (Some (GovBlacklist old)) (Some (GovBlacklist new)) = any_missing_from old new"
| "determine_relaxed (Some (GovWhitelist old)) (Some (GovWhitelist new)) = any_missing_from new old"
| "determine_relaxed (Some (GovBlacklist old)) (Some (GovWhitelist new)) = any_overlap old new"
| "determine_relaxed (Some (GovWhitelist _)) (Some GovPaused) = False"
| "determine_relaxed (Some (GovBlacklist _)) (Some GovPaused) = False"
| "determine_relaxed (Some (GovWhitelist _)) (Some (GovBlacklist _)) = True"

fun governance_restrictions :: "RestrictionMode option \<Rightarrow> Address GovRestrictions option" where
  "governance_restrictions None = None"
| "governance_restrictions (Some (Blacklist addresses)) = Some (gov_blacklist addresses)"
| "governance_restrictions (Some (Whitelist addresses)) = Some (gov_whitelist addresses)"

subsection \<open>Fees\<close>

record 'r FeeConfig =
  fc_performance_fee :: Wad
  fc_management_fee :: Wad
  fc_performance_recipient :: 'r
  fc_management_recipient :: 'r
  fc_max_rate :: "Wad option"

record FeeChangeDecision =
  fd_timelocked :: bool
  fd_fee_increase :: bool
  fd_recipient_changed :: bool
  fd_max_rate_relaxed :: bool

datatype FeeChangeError = FeeNoChange | PerformanceFeeTooHigh | ManagementFeeTooHigh

definition max_rate_relaxed :: "Wad option \<Rightarrow> Wad option \<Rightarrow> bool" where
  "max_rate_relaxed current proposed =
     (case (current, proposed) of
        (None, None) \<Rightarrow> False
      | (None, Some _) \<Rightarrow> False
      | (Some _, None) \<Rightarrow> True
      | (Some old, Some new) \<Rightarrow> old < new)"

definition evaluate_change ::
    "'r FeeConfig \<Rightarrow> 'r FeeConfig \<Rightarrow> (FeeChangeDecision, FeeChangeError) result" where
  "evaluate_change current proposed =
     (if number_from MAX_PERFORMANCE_FEE_WAD < fc_performance_fee proposed then Err PerformanceFeeTooHigh
      else if number_from MAX_MANAGEMENT_FEE_WAD < fc_management_fee proposed then Err ManagementFeeTooHigh
      else
        let performance_fee_changed = fc_performance_fee proposed \<noteq> fc_performance_fee current;
            management_fee_changed = fc_management_fee proposed \<noteq> fc_management_fee current;
            performance_recipient_changed =
              fc_performance_recipient proposed \<noteq> fc_performance_recipient current;
            management_recipient_changed =
              fc_management_recipient proposed \<noteq> fc_management_recipient current;
            max_rate_changed = fc_max_rate proposed \<noteq> fc_max_rate current
        in
          if \<not> (performance_fee_changed \<or> management_fee_changed \<or> performance_recipient_changed \<or>
            management_recipient_changed \<or> max_rate_changed) then Err FeeNoChange
          else
            let fee_increase = fc_performance_fee current < fc_performance_fee proposed \<or>
                  fc_management_fee current < fc_management_fee proposed;
                recipient_changed = performance_recipient_changed \<or> management_recipient_changed;
                relaxed = max_rate_relaxed (fc_max_rate current) (fc_max_rate proposed)
            in Ok \<lparr>fd_timelocked = fee_increase \<or> recipient_changed \<or> relaxed,
                 fd_fee_increase = fee_increase, fd_recipient_changed = recipient_changed,
                 fd_max_rate_relaxed = relaxed\<rparr>)"

subsection \<open>Timelock, caps and memberships\<close>

datatype TimelockConfigError = TimelockNoChange | TimelockOutOfBounds

definition timelock_config_decision ::
    "DurationNs \<Rightarrow> DurationNs \<Rightarrow> DurationNs \<Rightarrow> DurationNs \<Rightarrow> (TimelockDecision, TimelockConfigError) result" where
  "timelock_config_decision current proposed min_ns max_ns =
     (if proposed = current then Err TimelockNoChange
      else if proposed < min_ns \<or> max_ns < proposed then Err TimelockOutOfBounds
      else if proposed < current then Ok Timelocked
      else Ok Immediate)"

datatype CapChangeError = CapNoChange
datatype RelativeCapChangeError = RelativeCapNoChange | RelativeCapTooHigh
datatype MembershipChangeError = MembershipNoChange
datatype MembershipChangeKind = MemberAdded | MemberRemoved | MemberReassigned

definition from_cap_change :: "u128 option \<Rightarrow> u128 \<Rightarrow> (TimelockDecision, CapChangeError) result" where
  "from_cap_change current proposed =
     (case current of
        Some existing \<Rightarrow>
          if proposed = existing then Err CapNoChange
          else if existing < proposed then Ok Timelocked
          else Ok Immediate
      | None \<Rightarrow> Ok Timelocked)"

definition from_cap_group_cap_change ::
    "u128 option \<Rightarrow> u128 option \<Rightarrow> (TimelockDecision, CapChangeError) result" where
  "from_cap_group_cap_change current proposed =
     (case (current, proposed) of
        (None, None) \<Rightarrow> Err CapNoChange
      | (None, Some _) \<Rightarrow> Ok Immediate
      | (Some _, None) \<Rightarrow> Ok Timelocked
      | (Some existing, Some next) \<Rightarrow>
          if next = existing then Err CapNoChange
          else if existing < next then Ok Timelocked
          else Ok Immediate)"

definition from_relative_cap_change ::
    "Wad option \<Rightarrow> Wad option \<Rightarrow> (TimelockDecision, RelativeCapChangeError) result" where
  "from_relative_cap_change current proposed =
     (if (case proposed of Some p \<Rightarrow> wad_one < p | None \<Rightarrow> False) then Err RelativeCapTooHigh
      else
        case (current, proposed) of
          (None, None) \<Rightarrow> Err RelativeCapNoChange
        | (None, Some _) \<Rightarrow> Ok Immediate
        | (Some _, None) \<Rightarrow> Ok Timelocked
        | (Some existing, Some next) \<Rightarrow>
            if next = existing then Err RelativeCapNoChange
            else if existing < next then Ok Timelocked
            else Ok Immediate)"

definition membership_change_kind :: "'a option \<Rightarrow> 'a option \<Rightarrow> MembershipChangeKind option" where
  "membership_change_kind current proposed =
     (case (current, proposed) of
        (None, None) \<Rightarrow> None
      | (None, Some _) \<Rightarrow> Some MemberAdded
      | (Some _, None) \<Rightarrow> Some MemberRemoved
      | (Some c, Some p) \<Rightarrow> if c = p then None else Some MemberReassigned)"

definition from_membership_assignment_change ::
    "'a option \<Rightarrow> 'a option \<Rightarrow> (TimelockDecision, MembershipChangeError) result" where
  "from_membership_assignment_change current proposed =
     (case membership_change_kind current proposed of
        Some _ \<Rightarrow> Ok Timelocked
      | None \<Rightarrow> Err MembershipNoChange)"

definition from_membership_change_kind :: "MembershipChangeKind \<Rightarrow> TimelockDecision" where
  "from_membership_change_kind _ = Timelocked"

section \<open>The queue\<close>

lemma is_mature_iff [simp]: "is_mature e now \<longleftrightarrow> pv_ready_at_ns e \<le> now"
  by (simp add: is_mature_def is_ready_def from_ready_at_def)

lemma schedule_eq [simp]:
  "schedule q v now wait =
     Some (saturating_add now wait, q @ [\<lparr>pv_value = v, pv_ready_at_ns = saturating_add now wait\<rparr>])"
  by (simp add: schedule_def schedule_from_def from_ready_at_def)

text \<open>The loop stops at the first mature entry with the key.\<close>

abbreviation keyed :: "'k \<Rightarrow> ('v \<Rightarrow> 'k) \<Rightarrow> 'v PendingValue \<Rightarrow> bool" where
  "keyed key key_of e \<equiv> key_of (pv_value e) = key"

abbreviation due :: "TimestampNs \<Rightarrow> 'k \<Rightarrow> ('v \<Rightarrow> 'k) \<Rightarrow> 'v PendingValue \<Rightarrow> bool" where
  "due now key key_of e \<equiv> keyed key key_of e \<and> pv_ready_at_ns e \<le> now"

lemma take_loop_due:
  assumes "\<not> list_ex (due now key key_of) pre" "due now key key_of e"
  shows "fst (take_loop i nr now key key_of (pre @ e # post)) = Some (i + length pre)"
  using assms by (induction pre arbitrary: i nr) (auto simp: Let_def)

lemma take_loop_none:
  assumes "\<not> list_ex (due now key key_of) q"
  shows "take_loop i nr now key key_of q =
    (None, fold (\<lambda>e nr. Some (case nr of Some c \<Rightarrow> min c (pv_ready_at_ns e) | None \<Rightarrow> pv_ready_at_ns e))
       (filter (keyed key key_of) q) nr)"
  using assms by (induction q arbitrary: i nr) (auto simp: Let_def)

lemma fold_min_Some:
  "fold (\<lambda>e nr. Some (case nr of Some c \<Rightarrow> min c (f e) | None \<Rightarrow> f e)) es (Some (m :: 'b::linorder)) =
     Some (Min (insert m (f ` set es)))"
proof (induction es arbitrary: m)
  case (Cons e es)
  have "Min (insert (min m (f e)) (f ` set es)) = Min (insert m (insert (f e) (f ` set es)))"
    by (cases "f ` set es = {}") (simp_all add: min.assoc)
  then show ?case by (simp add: Cons.IH)
qed simp

lemma fold_min_None:
  "fold (\<lambda>e nr. Some (case nr of Some c \<Rightarrow> min c (f e) | None \<Rightarrow> f e)) es None =
     (if es = [] then None else Some (Min ((f :: _ \<Rightarrow> 'b::linorder) ` set es)))"
  by (cases es) (simp_all add: fold_min_Some)

lemma take_by_key_due:
  assumes "\<not> list_ex (due now key key_of) pre" "due now key key_of e"
  shows "take_by_key (pre @ e # post) now key key_of = (ReadyPending (pv_value e), pre @ post)"
  using take_loop_due [OF assms, of 0 None post]
  by (cases "take_loop 0 None now key key_of (pre @ e # post)") (simp add: take_by_key_def nth_append)

lemma take_by_key_not_due:
  assumes "\<not> list_ex (due now key key_of) q"
  shows "take_by_key q now key key_of =
    (if has_pending_key q key key_of
     then StillPending (Min (pv_ready_at_ns ` {e \<in> set q. keyed key key_of e}))
     else MissingPending, q)"
proof -
  have "filter (keyed key key_of) q = [] \<longleftrightarrow> \<not> has_pending_key q key key_of"
    by (auto simp: has_pending_key_def filter_empty_conv list_ex_iff)
  then show ?thesis
    using assms by (simp add: take_by_key_def take_loop_none fold_min_None)
qed

lemma take_by_key_ready:
  assumes "take_by_key q now key key_of = (ReadyPending v, q')"
  obtains pre e post where "q = pre @ e # post" "q' = pre @ post" "pv_value e = v" "key_of v = key"
    "pv_ready_at_ns e \<le> now" "\<not> list_ex (due now key key_of) pre"
proof -
  have "list_ex (due now key key_of) q"
    using assms take_by_key_not_due [of key_of key now q]
    by (cases "list_ex (due now key key_of) q") (simp_all split: if_splits)
  then have "\<exists>e \<in> set q. due now key key_of e" by (simp add: list_ex_iff)
  from split_list_first_prop [OF this] obtain pre e post where q: "q = pre @ e # post"
    and e: "due now key key_of e" and pre: "\<not> list_ex (due now key key_of) pre"
    by (auto simp: list_ex_iff)
  then show thesis using assms take_by_key_due [OF pre e, of post] that by auto
qed

lemma take_by_key_same:
  "take_by_key q now key key_of = (r, q') \<Longrightarrow> (\<And>v. r \<noteq> ReadyPending v) \<Longrightarrow> q' = q"
  by (auto simp: take_by_key_def split: prod.splits option.splits)

lemma revoke_loop_eq:
  "revoke_loop key key_of retained removed q =
     (removed @ map pv_value (filter (keyed key key_of) q),
      retained @ filter (\<lambda>e. \<not> keyed key key_of e) q)"
  by (induction q arbitrary: retained removed) auto

lemma revoke_by_key_eq [simp]:
  "revoke_by_key q key key_of =
     (map pv_value (filter (keyed key key_of) q), filter (\<lambda>e. \<not> keyed key key_of e) q)"
  by (simp add: revoke_by_key_def revoke_loop_eq)

section \<open>Runs of the queue\<close>

text \<open>
  A history of a queue: what was scheduled (value, time of the call, timelock), what was handed out for
  execution (value, time of the call) and what was revoked or replaced.
\<close>

record 'v gov_history =
  gh_queue :: "'v PendingActions"
  gh_scheduled :: "('v \<times> TimestampNs \<times> DurationNs) list"
  gh_executed :: "('v \<times> TimestampNs) list"
  gh_revoked :: "'v list"

definition gov_empty :: "'v gov_history" where
  "gov_empty = \<lparr>gh_queue = pending_default, gh_scheduled = [], gh_executed = [], gh_revoked = []\<rparr>"

inductive gov_step :: "('v \<Rightarrow> 'k) \<Rightarrow> 'v gov_history \<Rightarrow> 'v gov_history \<Rightarrow> bool" for key_of where
  "schedule (gh_queue h) v now wait = Some (r, q) \<Longrightarrow>
    gov_step key_of h (h\<lparr>gh_queue := q, gh_scheduled := (v, now, wait) # gh_scheduled h\<rparr>)"
| "schedule_replacing (gh_queue h) key key_of v now wait = Some (s, q) \<Longrightarrow>
    gov_step key_of h (h\<lparr>gh_revoked := sp_replaced s @ gh_revoked h, gh_queue := q,
      gh_scheduled := (v, now, wait) # gh_scheduled h\<rparr>)"
| "take_by_key (gh_queue h) now key key_of = (ReadyPending v, q) \<Longrightarrow>
    gov_step key_of h (h\<lparr>gh_queue := q, gh_executed := (v, now) # gh_executed h\<rparr>)"
| "revoke_by_key (gh_queue h) key key_of = (removed, q) \<Longrightarrow>
    gov_step key_of h (h\<lparr>gh_queue := q, gh_revoked := removed @ gh_revoked h\<rparr>)"

fun pending_of :: "'v \<times> TimestampNs \<times> DurationNs \<Rightarrow> 'v PendingValue" where
  "pending_of (v, now, wait) = \<lparr>pv_value = v, pv_ready_at_ns = saturating_add now wait\<rparr>"

definition gov_inv :: "'v gov_history \<Rightarrow> bool" where
  "gov_inv h \<longleftrightarrow> (\<exists>es rs.
     mset (map pending_of (gh_scheduled h)) = mset es + mset rs + mset (gh_queue h) \<and>
     list_all2 (\<lambda>e (v, now). pv_value e = v \<and> pv_ready_at_ns e \<le> now) es (gh_executed h) \<and>
     map pv_value rs = gh_revoked h)"

lemma mset_split_filter: "mset xs = mset (filter P xs) + mset (filter (\<lambda>x. \<not> P x) xs)"
  by (simp only: mset_filter) (rule multiset_partition)

lemma gov_invI:
  "mset (map pending_of (gh_scheduled h)) = mset es + mset rs + mset (gh_queue h) \<Longrightarrow>
   list_all2 (\<lambda>e (v, now). pv_value e = v \<and> pv_ready_at_ns e \<le> now) es (gh_executed h) \<Longrightarrow>
   map pv_value rs = gh_revoked h \<Longrightarrow> gov_inv h"
  unfolding gov_inv_def by blast

lemma gov_invE:
  assumes "gov_inv h"
  obtains es rs where
    "mset (map pending_of (gh_scheduled h)) = mset es + mset rs + mset (gh_queue h)"
    "list_all2 (\<lambda>e (v, now). pv_value e = v \<and> pv_ready_at_ns e \<le> now) es (gh_executed h)"
    "map pv_value rs = gh_revoked h"
  using assms unfolding gov_inv_def by (elim exE conjE)

text \<open>Scheduling and revoking move entries without changing their times.\<close>

lemma gov_inv_schedule:
  assumes "gov_inv h"
  shows "gov_inv (h\<lparr>gh_queue := gh_queue h @ [pending_of s], gh_scheduled := s # gh_scheduled h\<rparr>)"
  using assms
proof (elim gov_invE)
  fix es rs
  assume "mset (map pending_of (gh_scheduled h)) = mset es + mset rs + mset (gh_queue h)"
    "list_all2 (\<lambda>e (v, now). pv_value e = v \<and> pv_ready_at_ns e \<le> now) es (gh_executed h)"
    "map pv_value rs = gh_revoked h"
  then show ?thesis
    by (intro gov_invI [of _ es rs]) simp_all
qed

lemma gov_inv_revoke:
  assumes "gov_inv h"
  shows "gov_inv (h\<lparr>gh_queue := filter (\<lambda>e. \<not> P e) (gh_queue h),
    gh_revoked := map pv_value (filter P (gh_queue h)) @ gh_revoked h\<rparr>)"
  using assms
proof (elim gov_invE)
  fix es rs
  assume *: "mset (map pending_of (gh_scheduled h)) = mset es + mset rs + mset (gh_queue h)"
    "list_all2 (\<lambda>e (v, now). pv_value e = v \<and> pv_ready_at_ns e \<le> now) es (gh_executed h)"
    "map pv_value rs = gh_revoked h"
  then show ?thesis
    using mset_split_filter [of "gh_queue h" P]
    by (intro gov_invI [of _ es "filter P (gh_queue h) @ rs"]) (simp_all del: mset_filter add: ac_simps)
qed

lemma gov_inv_execute:
  assumes "gov_inv h" "gh_queue h = pre @ e # post" "pv_ready_at_ns e \<le> now"
  shows "gov_inv (h\<lparr>gh_queue := pre @ post, gh_executed := (pv_value e, now) # gh_executed h\<rparr>)"
  using assms(1)
proof (elim gov_invE)
  fix es rs
  assume "mset (map pending_of (gh_scheduled h)) = mset es + mset rs + mset (gh_queue h)"
    "list_all2 (\<lambda>e (v, now). pv_value e = v \<and> pv_ready_at_ns e \<le> now) es (gh_executed h)"
    "map pv_value rs = gh_revoked h"
  then show ?thesis
    using assms(2,3) by (intro gov_invI [of _ "e # es" rs]) simp_all
qed

interpretation timelock: state_machine "\<lambda>h. h = gov_empty" "gov_step key_of" gov_inv
proof
  show "gov_inv h" if "h = gov_empty" for h :: "'a gov_history"
    using that by (auto simp: gov_inv_def gov_empty_def pending_default_def)
  show "gov_inv h'" if "gov_inv h" "gov_step key_of h h'" for h h' :: "'a gov_history"
    using that(2,1)
  proof (induction rule: gov_step.induct)
    case (1 h v now wait r q)
    then show ?case using gov_inv_schedule [of h "(v, now, wait)"] by auto
  next
    case (2 h key v now wait s q)
    then show ?case
      using gov_inv_schedule [OF gov_inv_revoke [of h "keyed key key_of"], of "(v, now, wait)"]
      by (auto simp: schedule_replacing_def)
  next
    case (3 h now key v q)
    then show ?case by (auto elim!: take_by_key_ready intro: gov_inv_execute)
  next
    case (4 h key removed q)
    then show ?case using gov_inv_revoke [of h "keyed key key_of"] by simp
  qed
qed

section \<open>Restrictions\<close>

lemma slice_contains_iff [simp]: "slice_contains items x \<longleftrightarrow> x \<in> set items"
  by (auto simp: slice_contains_def list_ex_iff)

lemma any_missing_from_iff: "any_missing_from as bs \<longleftrightarrow> \<not> set as \<subseteq> set bs"
  by (auto simp: any_missing_from_def list_ex_iff)

lemma any_overlap_iff: "any_overlap as bs \<longleftrightarrow> set as \<inter> set bs \<noteq> {}"
  by (auto simp: any_overlap_def list_ex_iff)

lemma normalize_members_loop_spec:
  "distinct acc \<Longrightarrow> set (normalize_members_loop acc ms) = set acc \<union> set ms \<and>
    distinct (normalize_members_loop acc ms)"
  by (induction ms arbitrary: acc) (auto simp: list_ex_iff)

lemma normalize_members_spec [simp]:
  "set (normalize_members ms) = set ms" "distinct (normalize_members ms)"
  by (simp_all add: normalize_members_def normalize_members_loop_spec)

text \<open>Whom a restriction admits.\<close>

fun admits :: "'a GovRestrictions option \<Rightarrow> 'a \<Rightarrow> bool" where
  "admits None a = True"
| "admits (Some GovPaused) a = False"
| "admits (Some (GovBlacklist l)) a = (a \<notin> set l)"
| "admits (Some (GovWhitelist l)) a = (a \<in> set l)"

lemma admits_kernel:
  "admits (governance_restrictions mode) a \<longleftrightarrow>
     (case mode of None \<Rightarrow> True | Some m \<Rightarrow> is_restricted m a = None)"
  by (cases mode rule: governance_restrictions.cases) (auto simp: gov_blacklist_def gov_whitelist_def)

lemma not_relaxed_tightens:
  "\<not> determine_relaxed cur nxt \<Longrightarrow> admits nxt a \<Longrightarrow> admits cur a"
  by (cases "(cur, nxt)" rule: determine_relaxed.cases)
    (auto simp: any_missing_from_iff any_overlap_iff)

definition listed :: "'a GovRestrictions option \<Rightarrow> 'a set" where
  "listed r = (case Option.bind r gov_members of None \<Rightarrow> {} | Some l \<Rightarrow> set l)"

lemma listed_simps [simp]:
  "listed None = {}" "listed (Some GovPaused) = {}"
  "listed (Some (GovBlacklist l)) = set l" "listed (Some (GovWhitelist l)) = set l"
  by (simp_all add: listed_def)

text \<open>
  As long as some address is on neither list, the check is exact, but for the removal of an empty
  blacklist.
\<close>

lemma relaxed_admits:
  assumes "determine_relaxed cur nxt" "x \<notin> listed cur" "x \<notin> listed nxt"
    and "\<not> (cur = Some (GovBlacklist []) \<and> nxt = None)"
  shows "\<exists>a. admits nxt a \<and> \<not> admits cur a"
proof (cases "(cur, nxt)" rule: determine_relaxed.cases)
  case (3 r)
  then show ?thesis using assms by (cases r) (auto simp: neq_Nil_conv)
qed (use assms in \<open>auto simp: any_missing_from_iff any_overlap_iff neq_Nil_conv\<close>)

section \<open>Caps\<close>

lemma relative_amount_mono:
  assumes "primitive_types_spec P" "w' \<le> w" "w \<le> wad_one"
  shows "relative_amount P w' assets \<le> relative_amount P w assets"
proof -
  have le: "unat w' \<le> unat w" "unat w \<le> unat SCALE"
    using assms(2,3) by (simp_all add: word_le_nat_alt wad_one_def)
  have fits: "unat assets * n < 2 ^ 256 * unat SCALE" if "n \<le> unat SCALE" for n
  proof -
    have "unat assets * n \<le> unat assets * unat SCALE" using that by simp
    also have "\<dots> < 2 ^ 256 * unat SCALE" using u128_bound [of assets] by simp
    finally show ?thesis .
  qed
  have "unat (apply_floored P w' (number_from assets)) \<le> unat (apply_floored P w (number_from assets))"
    using le fits primitive_types_spec.apply_floored_quot [OF assms(1), of "number_from assets"]
    by (simp add: div_le_mono del: unat_SCALE)
  then show ?thesis
    by (simp add: relative_amount_def word_le_nat_alt unat_as_u128_saturating)
qed

lemma effective_cap_absolute_mono:
  assumes "from_cap_group_cap_change (cg_absolute_cap cap) new = Ok Immediate"
  shows "effective_cap P (cap\<lparr>cg_absolute_cap := new\<rparr>) assets \<le> effective_cap P cap assets"
  using assms
  by (auto simp: from_cap_group_cap_change_def effective_cap_def cap_is_unlimited_def min_le_iff_disj
    split: option.splits if_splits)

lemma effective_cap_relative_mono:
  assumes "primitive_types_spec P" "\<forall>w. cg_relative_cap cap = Some w \<longrightarrow> w \<le> wad_one"
    and "from_relative_cap_change (cg_relative_cap cap) new = Ok Immediate"
  shows "effective_cap P (cap\<lparr>cg_relative_cap := new\<rparr>) assets \<le> effective_cap P cap assets"
  using assms relative_amount_mono [OF assms(1)]
  by (auto simp: from_relative_cap_change_def effective_cap_def cap_is_unlimited_def min_le_iff_disj
    Let_def not_less split: option.splits if_splits)

lemma take_by_key_ready_iff:
  "take_by_key q now key key_of = (ReadyPending v, q') \<longleftrightarrow>
    (\<exists>pre e post. q = pre @ e # post \<and> q' = pre @ post \<and> pv_value e = v \<and> key_of v = key \<and>
      pv_ready_at_ns e \<le> now \<and>
      (\<forall>e' \<in> set pre. key_of (pv_value e') = key \<longrightarrow> now < pv_ready_at_ns e'))"
  (is "?L \<longleftrightarrow> ?R")
proof
  assume ?L
  then show ?R by (rule take_by_key_ready) (auto simp: list_ex_iff not_le)
next
  assume ?R
  then obtain pre e post where "q = pre @ e # post" "q' = pre @ post" "pv_value e = v"
    "due now key key_of e" "\<not> list_ex (due now key key_of) pre"
    by (auto simp: list_ex_iff not_le)
  then show ?L using take_by_key_due [of key_of key now pre e post] by simp
qed

lemma take_by_key_live:
  assumes "e \<in> set q" "pv_ready_at_ns e \<le> now"
  shows "\<exists>v q'. take_by_key q now (key_of (pv_value e)) key_of = (ReadyPending v, q')"
proof -
  have "\<exists>x \<in> set q. due now (key_of (pv_value e)) key_of x" using assms by blast
  from split_list_first_prop [OF this] show ?thesis
    by (auto simp: take_by_key_ready_iff not_le)
qed

section \<open>Properties\<close>

text \<open>
  C29. The timelock is respected. In every run of a queue of pending changes, by scheduling, scheduling
  with replacement, taking and revoking in any order, with any clock and any key function, each change
  handed out for execution was scheduled, at least its timelock before (up to the saturation of the
  64-bit clock), and has neither been handed out before nor been revoked: what was scheduled is exactly
  what was executed, revoked or is still pending. A change is handed out exactly when it is the first
  mature one with the key in the order of scheduling, and a pending change that is mature can be taken.
\<close>

theorem timelock_respected:
  assumes "(gov_step key_of)\<^sup>*\<^sup>* gov_empty h"
  shows "(\<exists>es rs.
      mset (map (\<lambda>(v, now, wait). \<lparr>pv_value = v, pv_ready_at_ns = saturating_add now wait\<rparr>)
        (gh_scheduled h)) = mset es + mset rs + mset (gh_queue h) \<and>
      list_all2 (\<lambda>e (v, now). pv_value e = v \<and> pv_ready_at_ns e \<le> now) es (gh_executed h) \<and>
      map pv_value rs = gh_revoked h) \<and>
    (\<forall>now key v q'. take_by_key (gh_queue h) now key key_of = (ReadyPending v, q') \<longleftrightarrow>
      (\<exists>pre e post. gh_queue h = pre @ e # post \<and> q' = pre @ post \<and> pv_value e = v \<and> key_of v = key \<and>
        pv_ready_at_ns e \<le> now \<and>
        (\<forall>e' \<in> set pre. key_of (pv_value e') = key \<longrightarrow> now < pv_ready_at_ns e'))) \<and>
    (\<forall>e \<in> set (gh_queue h). \<forall>now. pv_ready_at_ns e \<le> now \<longrightarrow>
      (\<exists>v q'. take_by_key (gh_queue h) now (key_of (pv_value e)) key_of = (ReadyPending v, q')))"
proof -
  have pending: "pending_of = (\<lambda>(v, now, wait). \<lparr>pv_value = v, pv_ready_at_ns = saturating_add now wait\<rparr>)"
    by auto
  have "gov_inv h" by (rule timelock.reachable_inv [OF refl assms])
  then show ?thesis
    unfolding gov_inv_def pending take_by_key_ready_iff
    using take_by_key_live [of _ "gh_queue h" _ key_of]
    by (intro conjI ballI allI impI refl) (simp_all only: take_by_key_ready_iff)
qed

definition demo_history :: "nat gov_history" where
  "demo_history = \<lparr>gh_queue = [\<lparr>pv_value = 7, pv_ready_at_ns = 110\<rparr>],
     gh_scheduled = [(7, 10, 100)], gh_executed = [], gh_revoked = []\<rparr>"

theorem timelock_respected_witness:
  "(\<exists>v q'. take_by_key (gh_queue demo_history) 110 7 id = (ReadyPending v, q')) \<and>
   take_by_key (gh_queue demo_history) 109 7 id \<noteq> (ReadyPending 7, [])"
proof -
  have step: "gov_step id gov_empty demo_history"
    using gov_step.intros(1) [of gov_empty "7 :: nat" 10 100 "110" "[\<lparr>pv_value = 7, pv_ready_at_ns = 110\<rparr>]" id]
    by (simp add: gov_empty_def demo_history_def pending_default_def saturating_add_def checked_add_def)
  have run: "(gov_step id)\<^sup>*\<^sup>* gov_empty demo_history" by (rule r_into_rtranclp) (rule step)
  from timelock_respected [OF run]
  have "\<forall>e \<in> set (gh_queue demo_history). \<forall>now. pv_ready_at_ns e \<le> now \<longrightarrow>
      (\<exists>v q'. take_by_key (gh_queue demo_history) now (id (pv_value e)) id = (ReadyPending v, q'))"
    "take_by_key (gh_queue demo_history) 109 7 id = (ReadyPending 7, []) \<longleftrightarrow>
      (\<exists>pre e post. gh_queue demo_history = pre @ e # post \<and> [] = pre @ post \<and> pv_value e = 7 \<and>
        id 7 = (7::nat) \<and> pv_ready_at_ns e \<le> 109 \<and>
        (\<forall>e' \<in> set pre. id (pv_value e') = 7 \<longrightarrow> 109 < pv_ready_at_ns e'))"
    by blast+
  then show ?thesis by (simp add: demo_history_def)
qed

text \<open>
  C30. Only tightening changes skip the timelock. A change that governance may apply at once lowers a
  market's cap, lowers the effective cap of a group for every amount of assets, keeps both fee
  recipients and raises neither a fee nor the growth limit (all within the maximal fees), lengthens the
  timelock within its bounds, and admits no address to the vault that was not admitted before. Every
  change of a group membership is timelocked. Conversely a restriction that is considered relaxed
  admits somebody new, unless an empty blacklist is removed or the lists name every address.
\<close>

theorem immediate_changes_tighten:
  assumes "primitive_types_spec P" "\<forall>w. cg_relative_cap cap = Some w \<longrightarrow> w \<le> wad_one"
  shows "(from_cap_change current new_cap = Ok Immediate \<longleftrightarrow> (\<exists>c. current = Some c \<and> new_cap < c)) \<and>
    (from_cap_group_cap_change (cg_absolute_cap cap) new_absolute = Ok Immediate \<longrightarrow>
      effective_cap P (cap\<lparr>cg_absolute_cap := new_absolute\<rparr>) assets \<le> effective_cap P cap assets) \<and>
    (from_relative_cap_change (cg_relative_cap cap) new_relative = Ok Immediate \<longrightarrow>
      effective_cap P (cap\<lparr>cg_relative_cap := new_relative\<rparr>) assets \<le> effective_cap P cap assets) \<and>
    (\<forall>d. evaluate_change fees new_fees = Ok d \<and> \<not> fd_timelocked d \<longrightarrow>
      fc_performance_fee new_fees \<le> fc_performance_fee fees \<and>
      fc_management_fee new_fees \<le> fc_management_fee fees \<and>
      fc_performance_fee new_fees \<le> number_from MAX_PERFORMANCE_FEE_WAD \<and>
      fc_management_fee new_fees \<le> number_from MAX_MANAGEMENT_FEE_WAD \<and>
      fc_performance_recipient new_fees = fc_performance_recipient fees \<and>
      fc_management_recipient new_fees = fc_management_recipient fees \<and>
      (\<forall>r. fc_max_rate fees = Some r \<longrightarrow> (\<exists>r'. fc_max_rate new_fees = Some r' \<and> r' \<le> r))) \<and>
    (timelock_config_decision delay new_delay lo hi = Ok Immediate \<longleftrightarrow>
      delay < new_delay \<and> lo \<le> new_delay \<and> new_delay \<le> hi) \<and>
    (from_membership_assignment_change member new_member =
      (if member = new_member then Err MembershipNoChange else Ok Timelocked)) \<and>
    (\<not> determine_relaxed (governance_restrictions mode) (governance_restrictions new_mode) \<longrightarrow>
      (\<forall>a. (\<forall>m. new_mode = Some m \<longrightarrow> is_restricted m a = None) \<longrightarrow>
        (\<forall>m. mode = Some m \<longrightarrow> is_restricted m a = None))) \<and>
    (determine_relaxed r new_r \<and> \<not> (r = Some (GovBlacklist []) \<and> new_r = None) \<and>
      listed r \<union> listed new_r \<noteq> UNIV \<longrightarrow> (\<exists>a. admits new_r a \<and> \<not> admits r a))"
proof (intro conjI)
  show "\<not> determine_relaxed (governance_restrictions mode) (governance_restrictions new_mode) \<longrightarrow>
      (\<forall>a. (\<forall>m. new_mode = Some m \<longrightarrow> is_restricted m a = None) \<longrightarrow>
        (\<forall>m. mode = Some m \<longrightarrow> is_restricted m a = None))"
    using not_relaxed_tightens [of "governance_restrictions mode" "governance_restrictions new_mode"]
    by (auto simp: admits_kernel split: option.splits)
  show "determine_relaxed r new_r \<and> \<not> (r = Some (GovBlacklist []) \<and> new_r = None) \<and>
      listed r \<union> listed new_r \<noteq> UNIV \<longrightarrow> (\<exists>a. admits new_r a \<and> \<not> admits r a)"
    using relaxed_admits [of r new_r] by blast
qed (use assms in \<open>auto simp: from_cap_change_def evaluate_change_def max_rate_relaxed_def
  timelock_config_decision_def from_membership_assignment_change_def membership_change_kind_def Let_def
  not_less intro: effective_cap_absolute_mono effective_cap_relative_mono
  split: option.splits if_splits\<close>)

definition demo_fees :: "nat FeeConfig" where
  "demo_fees = \<lparr>fc_performance_fee = 100, fc_management_fee = 50, fc_performance_recipient = 1,
     fc_management_recipient = 2, fc_max_rate = Some 10\<rparr>"

theorem immediate_changes_tighten_witness:
  "effective_cap word_types \<lparr>cg_absolute_cap = Some 40, cg_relative_cap = Some wad_one\<rparr> 1000 \<le>
     effective_cap word_types \<lparr>cg_absolute_cap = Some 70, cg_relative_cap = Some wad_one\<rparr> 1000 \<and>
   from_cap_change (Some 5) 4 = Ok Immediate \<and>
   is_restricted (Blacklist [3]) 4 = None"
proof -
  have decide: "from_cap_group_cap_change (Some 70) (Some 40) = Ok Immediate"
    by (simp add: from_cap_group_cap_change_def)
  have tighter: "\<not> determine_relaxed (governance_restrictions (Some (Blacklist [3])))
      (governance_restrictions (Some (Whitelist [4 :: Address])))"
    by (simp add: gov_blacklist_def gov_whitelist_def any_overlap_iff)
  show ?thesis
    using immediate_changes_tighten [of word_types "\<lparr>cg_absolute_cap = Some 70, cg_relative_cap = Some wad_one\<rparr>"
        "Some 5" 4 "Some 40" 1000 None demo_fees demo_fees 1 2 1 3 "Some (1::nat)" "Some 2"
        "Some (Blacklist [3])" "Some (Whitelist [4])" "None :: nat GovRestrictions option" None]
      words.primitive_types_spec_axioms decide tighter
    by simp
qed

end
