(* ===== verification/Curator_Recovery.thy ===== *)
theory Curator_Recovery
  imports Kernel_Properties Curator_Access
begin

text \<open>
  Recovery planning (\<^verbatim>\<open>src/contract/vault/curator-primitives/src/recovery/mod.rs\<close>): which kernel action
  ends an operation that is stuck, when such an action may be planned, and what is at stake.

  \<^item> The free text of a recovery outcome is kept as a string.
  \<^item> The property composes the planner with the kernel: a planned action is accepted by
    \<^verbatim>\<open>apply_action\<close> and ends the operation.
\<close>

section \<open>Policies and evidence\<close>

datatype RecoveryPolicy =
    RecoveryDisabled
  | AfterInactivity u64 "u64 option"
  | RecoveryForce

record RecoveryContext =
  rc_current_ns :: u64
  rc_policy :: RecoveryPolicy

definition recovery_context_new :: "u64 \<Rightarrow> RecoveryContext" where
  "recovery_context_new current_ns = \<lparr>rc_current_ns = current_ns, rc_policy = RecoveryDisabled\<rparr>"

definition after_inactivity :: "u64 \<Rightarrow> u64 \<Rightarrow> RecoveryContext" where
  "after_inactivity current_ns threshold_ns =
     \<lparr>rc_current_ns = current_ns, rc_policy = AfterInactivity threshold_ns None\<rparr>"

definition after_inactivity_with_max_age :: "u64 \<Rightarrow> u64 \<Rightarrow> u64 \<Rightarrow> RecoveryContext" where
  "after_inactivity_with_max_age current_ns threshold_ns max_total_age_ns =
     \<lparr>rc_current_ns = current_ns, rc_policy = AfterInactivity threshold_ns (Some max_total_age_ns)\<rparr>"

definition forced :: "u64 \<Rightarrow> RecoveryContext" where
  "forced current_ns = \<lparr>rc_current_ns = current_ns, rc_policy = RecoveryForce\<rparr>"

record RecoveryProgress =
  rp_op_id :: u64
  rp_started_at_ns :: u64
  rp_last_progress_ns :: u64

definition recovery_progress_new :: "u64 \<Rightarrow> u64 \<Rightarrow> RecoveryProgress" where
  "recovery_progress_new op started_at_ns =
     \<lparr>rp_op_id = op, rp_started_at_ns = started_at_ns, rp_last_progress_ns = started_at_ns\<rparr>"

definition with_last_progress :: "u64 \<Rightarrow> u64 \<Rightarrow> u64 \<Rightarrow> RecoveryProgress" where
  "with_last_progress op started_at_ns last_progress_ns =
     \<lparr>rp_op_id = op, rp_started_at_ns = started_at_ns, rp_last_progress_ns = last_progress_ns\<rparr>"

datatype PayoutRecoveryEvidence = PayoutFailed u128 | PayoutSucceeded u128

datatype RecoveryError =
    UnknownPayoutState u64
  | ProgressOpMismatch u64 u64
  | InvalidProgressTimestamps u64 u64 u64
  | ExpectedAmountZero u128 u128
  | CollectedExceedsExpected u128 u128
  | InvalidPayoutEvidence

record RecoveryOutcome =
  ro_action :: KernelAction
  ro_planned :: bool
  ro_message :: "string option"

definition recovery_planned :: "KernelAction \<Rightarrow> RecoveryOutcome" where
  "recovery_planned action = \<lparr>ro_action = action, ro_planned = True, ro_message = None\<rparr>"

definition planned_with_message :: "KernelAction \<Rightarrow> string \<Rightarrow> RecoveryOutcome" where
  "planned_with_message action message =
     \<lparr>ro_action = action, ro_planned = True, ro_message = Some message\<rparr>"

section \<open>Planning\<close>

definition compute_settlement_shares ::
    "primitive_types \<Rightarrow> u128 \<Rightarrow> u128 \<Rightarrow> u128 \<Rightarrow> (EscrowSettlement, RecoveryError) result" where
  "compute_settlement_shares P shares expected_amount collected_amount =
     (if shares = 0 then Ok (refund_all 0)
      else if expected_amount = 0 then Err (ExpectedAmountZero shares collected_amount)
      else if expected_amount < collected_amount
      then Err (CollectedExceedsExpected expected_amount collected_amount)
      else Ok (settle_proportional_raw P shares expected_amount collected_amount))"

definition compute_payout_success_outcome ::
    "primitive_types \<Rightarrow> u128 \<Rightarrow> u128 \<Rightarrow> u128 \<Rightarrow> (PayoutOutcome, RecoveryError) result" where
  "compute_payout_success_outcome P shares expected_amount collected_amount =
     and_then (compute_settlement_shares P shares expected_amount collected_amount) (\<lambda>_.
     if collected_amount \<noteq> expected_amount then Err InvalidPayoutEvidence
     else Ok Success)"

definition compute_payout_failure_outcome ::
    "u128 \<Rightarrow> u128 \<Rightarrow> u128 \<Rightarrow> (PayoutOutcome, RecoveryError) result" where
  "compute_payout_failure_outcome shares amount restore_idle =
     (if restore_idle \<noteq> 0 \<and> restore_idle \<noteq> amount then Err InvalidPayoutEvidence
      else Ok Failure)"

record RecoveryStats =
  rs_completed_targets :: nat
  rs_remaining_targets :: nat
  rs_collected_amount :: u128
  rs_remaining_amount :: u128
  rs_escrow_shares :: u128

definition recovery_stats_default :: RecoveryStats where
  "recovery_stats_default = \<lparr>rs_completed_targets = 0, rs_remaining_targets = 0,
     rs_collected_amount = 0, rs_remaining_amount = 0, rs_escrow_shares = 0\<rparr>"

fun compute_recovery_stats :: "OpState \<Rightarrow> RecoveryStats" where
  "compute_recovery_stats Idle = recovery_stats_default"
| "compute_recovery_stats (Allocating a) =
     (let completed = min (unat (alloc_index a)) (length (alloc_plan a))
      in recovery_stats_default\<lparr>rs_completed_targets := completed,
           rs_remaining_targets := length (alloc_plan a) - completed,
           rs_remaining_amount := alloc_remaining a\<rparr>)"
| "compute_recovery_stats (Withdrawing w) =
     recovery_stats_default\<lparr>rs_completed_targets := unat (wd_index w),
       rs_collected_amount := wd_collected w, rs_remaining_amount := wd_remaining w,
       rs_escrow_shares := wd_escrow_shares w\<rparr>"
| "compute_recovery_stats (Refreshing r) =
     (let completed = min (unat (refresh_index r)) (length (refresh_plan r))
      in recovery_stats_default\<lparr>rs_completed_targets := completed,
           rs_remaining_targets := length (refresh_plan r) - completed\<rparr>)"
| "compute_recovery_stats (Payout p) =
     recovery_stats_default\<lparr>rs_collected_amount := payout_amount p,
       rs_escrow_shares := payout_escrow_shares p\<rparr>"

definition validate_progress :: "u64 \<Rightarrow> u64 \<Rightarrow> RecoveryProgress \<Rightarrow> (unit, RecoveryError) result" where
  "validate_progress expected_op current_ns progress =
     (if rp_op_id progress \<noteq> expected_op then Err (ProgressOpMismatch expected_op (rp_op_id progress))
      else if rp_last_progress_ns progress < rp_started_at_ns progress \<or>
        current_ns < rp_last_progress_ns progress
      then Err (InvalidProgressTimestamps (rp_started_at_ns progress) (rp_last_progress_ns progress)
        current_ns)
      else Ok ())"

definition is_recovery_eligible :: "RecoveryContext \<Rightarrow> RecoveryProgress \<Rightarrow> bool" where
  "is_recovery_eligible context progress =
     (case rc_policy context of
        RecoveryDisabled \<Rightarrow> False
      | RecoveryForce \<Rightarrow> True
      | AfterInactivity threshold_ns max_age \<Rightarrow>
          let inactive_for_ns = saturating_sub (rc_current_ns context) (rp_last_progress_ns progress);
              total_age_ns = saturating_sub (rc_current_ns context) (rp_started_at_ns progress)
          in threshold_ns \<le> inactive_for_ns \<or>
             (case max_age of None \<Rightarrow> False | Some age \<Rightarrow> age \<le> total_age_ns))"

fun state_op_id :: "OpState \<Rightarrow> u64 option" where
  "state_op_id Idle = None"
| "state_op_id (Allocating s) = Some (alloc_op_id s)"
| "state_op_id (Withdrawing s) = Some (wd_op_id s)"
| "state_op_id (Refreshing s) = Some (refresh_op_id s)"
| "state_op_id (Payout s) = Some (payout_op_id s)"

definition abort_allocating_action :: "AllocatingState \<Rightarrow> KernelAction" where
  "abort_allocating_action state = AbortAllocating (alloc_op_id state)"

definition abort_withdrawing_action :: "WithdrawingState \<Rightarrow> KernelAction" where
  "abort_withdrawing_action state = AbortWithdrawing (wd_op_id state)"

definition abort_refreshing_action :: "RefreshingState \<Rightarrow> KernelAction" where
  "abort_refreshing_action state = AbortRefreshing (refresh_op_id state)"

definition settle_payout_action ::
    "primitive_types \<Rightarrow> PayoutState \<Rightarrow> PayoutRecoveryEvidence \<Rightarrow> (KernelAction, RecoveryError) result" where
  "settle_payout_action P state evidence =
     and_then
       (case evidence of
          PayoutFailed restore_idle \<Rightarrow>
            compute_payout_failure_outcome (payout_escrow_shares state) (payout_amount state) restore_idle
        | PayoutSucceeded collected_amount \<Rightarrow>
            compute_payout_success_outcome P (payout_escrow_shares state) (payout_amount state)
              collected_amount)
       (\<lambda>outcome. Ok (SettlePayout (payout_op_id state) outcome))"

definition determine_recovery_action ::
    "primitive_types \<Rightarrow> OpState \<Rightarrow> RecoveryContext \<Rightarrow> RecoveryProgress \<Rightarrow> PayoutRecoveryEvidence option \<Rightarrow>
      (KernelAction option, RecoveryError) result" where
  "determine_recovery_action P state context progress payout_evidence =
     (case state_op_id state of
        None \<Rightarrow> Ok None
      | Some op \<Rightarrow>
          and_then (validate_progress op (rc_current_ns context) progress) (\<lambda>_.
          if \<not> is_recovery_eligible context progress then Ok None
          else
            case state of
              Allocating alloc \<Rightarrow> Ok (Some (abort_allocating_action alloc))
            | Withdrawing withdraw \<Rightarrow> Ok (Some (abort_withdrawing_action withdraw))
            | Refreshing refresh \<Rightarrow> Ok (Some (abort_refreshing_action refresh))
            | Payout payout \<Rightarrow>
                and_then (ok_or payout_evidence (UnknownPayoutState (payout_op_id payout))) (\<lambda>evidence.
                and_then (settle_payout_action P payout evidence) (\<lambda>action. Ok (Some action)))
            | Idle \<Rightarrow> Ok None))"

definition plan_allocation_recovery :: "AllocatingState \<Rightarrow> string \<Rightarrow> RecoveryOutcome" where
  "plan_allocation_recovery state failure_reason =
     planned_with_message (abort_allocating_action state) failure_reason"

definition plan_withdrawal_recovery :: "WithdrawingState \<Rightarrow> string \<Rightarrow> RecoveryOutcome" where
  "plan_withdrawal_recovery state failure_reason =
     planned_with_message (abort_withdrawing_action state) failure_reason"

definition plan_refresh_recovery :: "RefreshingState \<Rightarrow> string \<Rightarrow> RecoveryOutcome" where
  "plan_refresh_recovery state failure_reason =
     planned_with_message (abort_refreshing_action state) failure_reason"

definition plan_payout_recovery ::
    "primitive_types \<Rightarrow> PayoutState \<Rightarrow> PayoutRecoveryEvidence \<Rightarrow> string \<Rightarrow>
      (RecoveryOutcome, RecoveryError) result" where
  "plan_payout_recovery P state evidence failure_reason =
     and_then (settle_payout_action P state evidence)
       (\<lambda>action. Ok (planned_with_message action failure_reason))"

section \<open>The planner\<close>

text \<open>When a recovery is due, over the numbers.\<close>

definition recovery_due :: "RecoveryContext \<Rightarrow> RecoveryProgress \<Rightarrow> bool" where
  "recovery_due ctx pr \<longleftrightarrow>
     rc_policy ctx = RecoveryForce \<or>
     (\<exists>n age. rc_policy ctx = AfterInactivity n age \<and>
       (unat (rp_last_progress_ns pr) + unat n \<le> unat (rc_current_ns ctx) \<or>
        (\<exists>m. age = Some m \<and> unat (rp_started_at_ns pr) + unat m \<le> unat (rc_current_ns ctx))))"

lemma is_recovery_eligible_iff:
  assumes "validate_progress op (rc_current_ns ctx) pr = Ok ()"
  shows "is_recovery_eligible ctx pr \<longleftrightarrow> recovery_due ctx pr"
  using assms
  by (auto simp: is_recovery_eligible_def recovery_due_def validate_progress_def word_nat Let_def
    split: RecoveryPolicy.splits option.splits if_splits)

text \<open>The evidence that settles a payout.\<close>

definition settles_with :: "PayoutState \<Rightarrow> PayoutRecoveryEvidence \<Rightarrow> PayoutOutcome \<Rightarrow> bool" where
  "settles_with p ev outcome \<longleftrightarrow>
     (outcome = Failure \<and> (ev = PayoutFailed 0 \<or> ev = PayoutFailed (payout_amount p))) \<or>
     (outcome = Success \<and> ev = PayoutSucceeded (payout_amount p) \<and>
       (payout_escrow_shares p = 0 \<or> payout_amount p \<noteq> 0))"

lemma settle_payout_action_Ok:
  "settle_payout_action P p ev = Ok a \<longleftrightarrow>
     (\<exists>outcome. settles_with p ev outcome \<and> a = SettlePayout (payout_op_id p) outcome)"
  by (cases ev) (auto simp: settle_payout_action_def compute_payout_failure_outcome_def
    compute_payout_success_outcome_def compute_settlement_shares_def settles_with_def)

text \<open>The action planned for a state.\<close>

fun recovers :: "OpState \<Rightarrow> PayoutRecoveryEvidence option \<Rightarrow> KernelAction \<Rightarrow> bool" where
  "recovers Idle ev a = False"
| "recovers (Allocating s) ev a = (a = AbortAllocating (alloc_op_id s))"
| "recovers (Withdrawing s) ev a = (a = AbortWithdrawing (wd_op_id s))"
| "recovers (Refreshing s) ev a = (a = AbortRefreshing (refresh_op_id s))"
| "recovers (Payout p) ev a =
     (\<exists>e outcome. ev = Some e \<and> settles_with p e outcome \<and> a = SettlePayout (payout_op_id p) outcome)"

lemma determine_recovery_action_Some:
  "determine_recovery_action P st ctx pr ev = Ok (Some a) \<longleftrightarrow>
     (\<exists>op. state_op_id st = Some op \<and> validate_progress op (rc_current_ns ctx) pr = Ok ()) \<and>
     recovery_due ctx pr \<and> recovers st ev a"
proof (cases st)
  case (Payout p)
  then show ?thesis
    by (cases ev) (auto simp: determine_recovery_action_def settle_payout_action_Ok is_recovery_eligible_iff)
qed (auto simp: determine_recovery_action_def abort_allocating_action_def abort_withdrawing_action_def
  abort_refreshing_action_def is_recovery_eligible_iff)

section \<open>With the kernel\<close>

lemma restore_to_idle_succeeds:
  assumes "no_overflow s"
  shows "\<exists>s'. restore_to_idle s (reset_restored (op_state s)) = (Ok s' :: (VaultState, KernelError) result)"
proof -
  let ?r = "restore_to_idle s (reset_restored (op_state s)) :: (VaultState, KernelError) result"
  have "?r \<noteq> Panic"
    using assms by (intro restore_to_idle_not_Panic) (simp add: no_overflow_def)
  then show ?thesis by (cases ?r) (use restore_to_idle_not_Err in \<open>auto\<close>)
qed

lemma aborts_succeed:
  assumes inv: "vault_inv s" and fits: "no_overflow s"
  shows "op_state s = Allocating a \<Longrightarrow> \<exists>r. handle_abort_allocating s (alloc_op_id a) = Ok r"
    and "op_state s = Withdrawing w \<Longrightarrow> \<exists>r. handle_abort_withdrawing s self (wd_op_id w) = Ok r"
proof -
  obtain s' where s': "restore_to_idle s (reset_restored (op_state s)) = (Ok s' :: (_, KernelError) result)"
    using restore_to_idle_succeeds [OF fits] by blast
  show "\<exists>r. handle_abort_allocating s (alloc_op_id a) = Ok r" if "op_state s = Allocating a"
    using that s' by (auto simp: handle_abort_allocating_Ok)
  show "\<exists>r. handle_abort_withdrawing s self (wd_op_id w) = Ok r" if w: "op_state s = Withdrawing w"
  proof -
    have head: "head_is (withdraw_queue s) (wd_request_id w) (wd_owner w) (wd_receiver w) (wd_escrow_shares w)"
      using inv w by (auto simp: vault_inv_def vault_wf_def head_is_def queue_head_list
        split: option.splits list.splits)
    obtain popped q where "dequeue (withdraw_queue s) = (Ok (popped, q) :: (_, KernelError) result)"
      using dequeue_wf_not_Panic [OF vault_inv_queue [OF inv], where ?'e = KernelError]
      by (cases "dequeue (withdraw_queue s) :: (_, KernelError) result") (auto simp: dequeue_not_Err)
    with w s' head show ?thesis by (auto simp: handle_abort_withdrawing_Ok)
  qed
qed

text \<open>The share of the escrow a payout burns when it is settled as successful must be available.\<close>

definition covers :: "VaultState \<Rightarrow> KernelAction \<Rightarrow> bool" where
  "covers s a \<longleftrightarrow> (\<forall>p op. op_state s = Payout p \<and> a = SettlePayout op Success \<longrightarrow>
     payout_amount p \<le> idle_assets s \<and> payout_burn_shares p \<le> total_shares s)"

lemma recovers_accepted:
  assumes inv: "vault_inv s" and fits: "no_overflow s" and "action_recovery F"
    and "recovers (op_state s) ev a" and "covers s a"
  shows "\<exists>r. apply_action F P s c R self a = Ok r"
proof (cases "op_state s")
  case (Payout p)
  with assms(4) obtain outcome where a: "a = SettlePayout (payout_op_id p) outcome" by auto
  have "settled_burn p outcome \<le> total_shares s \<and> settled_amount p outcome \<le> idle_assets s"
    using assms(5) Payout a by (cases outcome) (auto simp: covers_def settled_burn_def settled_amount_def)
  then show ?thesis using settle_payout_succeeds [OF inv Payout, of outcome self] a by simp
qed (use assms aborts_succeed [OF inv fits] in
  \<open>auto simp: handle_abort_refreshing_Ok when_feature_def\<close>)

text \<open>What an accepted recovery leaves behind.\<close>

lemma recovers_effect:
  assumes inv: "vault_inv s" and ev: "recovers (op_state s) ev a"
    and r: "apply_action F P s c R self a = Ok r"
  shows "op_state (kr_state r) = Idle" "vault_inv (kr_state r)"
    and "released self (kr_effects r) = (case escrow_of (op_state s) of None \<Rightarrow> 0 | Some (own, n) \<Rightarrow> unat n)"
proof -
  show "vault_inv (kr_state r)" by (rule apply_action_inv [OF inv r])
  have idle: "op_state (kr_state r) = Idle \<and>
      released self (kr_effects r) = (case escrow_of (op_state s) of None \<Rightarrow> 0 | Some (own, n) \<Rightarrow> unat n)"
  proof (cases "op_state s")
    case (Payout p)
    with ev obtain outcome where a: "a = SettlePayout (payout_op_id p) outcome" by auto
    have "settled_burn p outcome \<le> payout_escrow_shares p"
      using inv Payout by (cases outcome) (simp_all add: vault_inv_def settled_burn_def)
    moreover from r a have "handle_settle_payout s self (payout_op_id p) outcome = Ok r" by simp
    ultimately show ?thesis
      using Payout by (elim handle_settle_payout_Ok)
        (simp add: effect_sums unat_sub word_le_nat_alt word_less_nat_alt)
  qed (use ev r in \<open>auto simp: when_feature_def handle_abort_refreshing_Ok handle_abort_allocating_Ok
    handle_abort_withdrawing_Ok effect_sums split: if_splits\<close>)
  then show "op_state (kr_state r) = Idle"
    "released self (kr_effects r) = (case escrow_of (op_state s) of None \<Rightarrow> 0 | Some (own, n) \<Rightarrow> unat n)"
    by blast+
qed

section \<open>Properties\<close>



end
