(* ===== verification/Oracle_Price.thy ===== *)
theory Oracle_Price
  imports Complex_Main Rust_Prelude
begin

text \<open>
  Prices of the proxy oracle (\<^verbatim>\<open>src/contract/proxy-oracle/kernel/src/price.rs\<close> and
  \<^verbatim>\<open>proxy/freshness_filter.rs\<close>): a price is a signed mantissa with a decimal exponent.

  \<^item> \<open>compare_scaled\<close> compares two such numbers with 128-bit arithmetic only; the lemmas relate it to
    the order of the rational numbers the prices stand for.
  \<^item> Signed integers are words read by \<^const>\<open>sint\<close>; the sum of an exponent and a number of digits is
    far inside 64 bits and is taken over the integers.
\<close>

type_synonym i32 = "32 word"
type_synonym i64 = "64 word"
type_synonym Nanoseconds = u64

section \<open>Prices\<close>

record Price =
  price_value :: i64
  price_conf :: u64
  price_expo :: i32
  price_publish_time_ns :: Nanoseconds

definition has_strictly_positive_confidence_interval :: "Price \<Rightarrow> bool" where
  "has_strictly_positive_confidence_interval p \<longleftrightarrow> 0 \<le> sint (price_value p) \<and> price_conf p < price_value p"

definition unsigned_abs :: "i64 \<Rightarrow> u64" where
  "unsigned_abs v = of_int \<bar>sint v\<bar>"

text \<open>The standard library's integer logarithm; it panics on 0, where it is not called.\<close>

fun ilog10 :: "nat \<Rightarrow> nat" where
  "ilog10 n = (if n < 10 then 0 else Suc (ilog10 (n div 10)))"

declare ilog10.simps [simp del]

definition compare_scaled :: "i64 \<Rightarrow> i32 \<Rightarrow> i64 \<Rightarrow> i32 \<Rightarrow> Ordering" where
  "compare_scaled left_value left_exponent right_value right_exponent =
     (let left_sign = cmp (sint left_value) 0; right_sign = cmp (sint right_value) 0 in
      if left_sign = Equal then ord_reverse right_sign
      else if right_sign = Equal then left_sign
      else if left_sign \<noteq> right_sign then left_sign
      else
        let negative = sint left_value < 0;
            left_abs = ucast (unsigned_abs left_value) :: u128;
            right_abs = ucast (unsigned_abs right_value) :: u128;
            left_log10 = ilog10 (unat left_abs);
            right_log10 = ilog10 (unat right_abs);
            left_scale = sint left_exponent + int left_log10;
            right_scale = sint right_exponent + int right_log10;
            magnitude_order =
              (case cmp left_scale right_scale of
                 Equal \<Rightarrow>
                   let max_digits = max left_log10 right_log10;
                       left_scaled = left_abs * 10 ^ (max_digits - left_log10);
                       right_scaled = right_abs * 10 ^ (max_digits - right_log10)
                   in cmp left_scaled right_scaled
               | by_scale \<Rightarrow> by_scale)
        in if negative then ord_reverse magnitude_order else magnitude_order)"

section \<open>Freshness\<close>

record FreshnessFilter =
  max_age_ns :: "Nanoseconds option"
  max_clock_drift_ns :: "Nanoseconds option"

definition freshness_empty :: FreshnessFilter where
  "freshness_empty = \<lparr>max_age_ns = None, max_clock_drift_ns = None\<rparr>"

definition freshness_accepts :: "FreshnessFilter \<Rightarrow> Price \<Rightarrow> Nanoseconds \<Rightarrow> bool" where
  "freshness_accepts f p now =
     (let published = price_publish_time_ns p in
      if published \<le> now
      then (case max_age_ns f of None \<Rightarrow> True | Some m \<Rightarrow> saturating_sub now published \<le> m)
      else (case max_clock_drift_ns f of None \<Rightarrow> True | Some m \<Rightarrow> saturating_sub published now \<le> m))"

lemma freshness_accepts_iff:
  "freshness_accepts f p now \<longleftrightarrow>
    (\<forall>m. max_age_ns f = Some m \<longrightarrow> unat now \<le> unat (price_publish_time_ns p) + unat m) \<and>
    (\<forall>m. max_clock_drift_ns f = Some m \<longrightarrow> unat (price_publish_time_ns p) \<le> unat now + unat m)"
  by (auto simp: freshness_accepts_def Let_def word_nat split: option.splits)

section \<open>The order of scaled values\<close>

text \<open>The number a mantissa and an exponent stand for.\<close>

definition scaled :: "i64 \<Rightarrow> i32 \<Rightarrow> rat" where
  "scaled v e = of_int (sint v) * 10 powi sint e"

lemma ilog10_bounds:
  assumes "0 < n"
  shows "10 ^ ilog10 n \<le> n \<and> n < 10 * 10 ^ ilog10 n"
  using assms
proof (induction n rule: ilog10.induct)
  case (1 n)
  show ?case
  proof (cases "n < 10")
    case True
    with 1 show ?thesis by (subst (1 2) ilog10.simps) simp
  next
    case False
    then have "10 ^ ilog10 (n div 10) \<le> n div 10 \<and> n div 10 < 10 * 10 ^ ilog10 (n div 10)"
      by (intro 1) simp_all
    with False show ?thesis by (subst (1 2) ilog10.simps) auto
  qed
qed

lemma ilog10_less: "0 < n \<Longrightarrow> n < 10 ^ k \<Longrightarrow> ilog10 n < k"
proof (rule ccontr)
  assume n: "0 < n" "n < 10 ^ k" "\<not> ilog10 n < k"
  have "10 ^ k \<le> (10 :: nat) ^ ilog10 n" using n(3) by (intro power_increasing) simp_all
  with ilog10_bounds [OF n(1)] n(2) show False by simp
qed

lemma unat_unsigned_abs: "unat (unsigned_abs v) = nat \<bar>sint v\<bar>"
proof -
  have "\<bar>sint v\<bar> < 2 ^ 64"
    using sint_range_size [of v] by (auto simp: wsst_TYs)
  then show ?thesis
    by (simp add: unsigned_abs_def unat_eq_nat_uint uint_word_of_int take_bit_int_eq_self)
qed

text \<open>The digits of a mantissa fit into 128 bits after the rescaling.\<close>

lemma rescaled_fits:
  assumes "0 < n" "n < 2 ^ 64" "m < 20"
  shows "n * 10 ^ (m - ilog10 n) < 2 ^ 128"
proof -
  have "n < 10 * 10 ^ ilog10 n" using ilog10_bounds [OF assms(1)] by blast
  have "n * 10 ^ (m - ilog10 n) < 10 ^ 21"
  proof (cases "ilog10 n \<le> m")
    case True
    have "n * 10 ^ (m - ilog10 n) < 10 * 10 ^ ilog10 n * 10 ^ (m - ilog10 n)"
      using \<open>n < 10 * 10 ^ ilog10 n\<close> by simp
    also have "\<dots> = 10 * 10 ^ m" using True by (simp flip: power_add)
    also have "\<dots> \<le> 10 * (10 :: nat) ^ 20" using assms(3) by (intro mult_le_mono power_increasing) simp_all
    finally show ?thesis by simp
  qed (use assms(2) in simp)
  then show ?thesis by simp
qed

lemma unat_mult_pow10:
  "unat (a :: u128) * 10 ^ k < 2 ^ 128 \<Longrightarrow> unat (a * 10 ^ k) = unat a * 10 ^ k"
proof -
  assume fits: "unat a * 10 ^ k < 2 ^ 128"
  show ?thesis
  proof (cases "a = 0")
    case False
    then have "1 * 10 ^ k \<le> unat a * 10 ^ k" by (intro mult_le_mono1) (simp add: unat_gt_0 Suc_leI)
    then have "(10 :: nat) ^ k < 2 ^ 128" using fits by (simp only: mult_1)
    moreover have "(10 :: u128) ^ k = of_nat (10 ^ k)" by simp
    ultimately have "unat ((10 :: u128) ^ k) = 10 ^ k"
      by (simp only: unat_of_nat take_bit_eq_mod) simp
    with fits show ?thesis by (simp add: unat_word_ariths)
  qed simp
qed

text \<open>A positive number written with its digits lies between the powers of ten of its scale.\<close>

lemma magnitude_bounds:
  fixes n :: nat and e :: int
  assumes "0 < n"
  shows "10 powi (e + int (ilog10 n)) \<le> (of_nat n :: rat) * 10 powi e"
    and "(of_nat n :: rat) * 10 powi e < 10 powi (e + int (ilog10 n) + 1)"
proof -
  have split: "(10 :: rat) powi (e + int k) = of_nat (10 ^ k) * 10 powi e" for k
    by (simp add: power_int_add)
  have lo: "(of_nat (10 ^ ilog10 n) :: rat) \<le> of_nat n" and hi: "(of_nat n :: rat) < of_nat (10 ^ Suc (ilog10 n))"
    using ilog10_bounds [OF assms] by (simp_all only: of_nat_le_iff of_nat_less_iff power_Suc)
  show "10 powi (e + int (ilog10 n)) \<le> (of_nat n :: rat) * 10 powi e"
    unfolding split by (intro mult_right_mono lo) simp
  have "10 powi (e + int (Suc (ilog10 n))) > (of_nat n :: rat) * 10 powi e"
    unfolding split by (intro mult_strict_right_mono hi) simp
  then show "(of_nat n :: rat) * 10 powi e < 10 powi (e + int (ilog10 n) + 1)"
    by (simp add: algebra_simps)
qed

lemma cmp_of_nat: "(0 :: rat) < c \<Longrightarrow> cmp (of_nat m * c) (of_nat n * c) = cmp m n"
  by (rule cmp_cong) simp_all

text \<open>The comparison of magnitudes, over the natural numbers.\<close>

lemma magnitude_order:
  fixes m n :: nat and d e :: int
  assumes "0 < m" "0 < n"
  shows "(case cmp (d + int (ilog10 m)) (e + int (ilog10 n)) of
      Equal \<Rightarrow> cmp (m * 10 ^ (max (ilog10 m) (ilog10 n) - ilog10 m))
                (n * 10 ^ (max (ilog10 m) (ilog10 n) - ilog10 n))
    | by_scale \<Rightarrow> by_scale) = cmp ((of_nat m :: rat) * 10 powi d) (of_nat n * 10 powi e)"
proof -
  let ?s = "d + int (ilog10 m)" and ?t = "e + int (ilog10 n)"
  have mono: "(10 :: rat) powi i \<le> 10 powi j" if "i \<le> j" for i j
    using that by (intro power_int_increasing) simp_all
  consider "?s < ?t" | "?t < ?s" | "?s = ?t" by linarith
  then show ?thesis
  proof cases
    case 1
    then have "(of_nat m :: rat) * 10 powi d < of_nat n * 10 powi e"
      using magnitude_bounds(2) [OF assms(1), of d] magnitude_bounds(1) [OF assms(2), of e]
        mono [of "?s + 1" ?t] by linarith
    with 1 show ?thesis by simp
  next
    case 2
    then have "(of_nat n :: rat) * 10 powi e < of_nat m * 10 powi d"
      using magnitude_bounds(2) [OF assms(2), of e] magnitude_bounds(1) [OF assms(1), of d]
        mono [of "?t + 1" ?s] by linarith
    with 2 show ?thesis by simp
  next
    case 3
    let ?k = "max (ilog10 m) (ilog10 n)"
    have scale: "(of_nat (k * 10 ^ (?k - l)) :: rat) * 10 powi (?s - int ?k) = of_nat k * 10 powi c"
      if "c + int l = ?s" "l \<le> ?k" for k l c
    proof -
      have "?s - int ?k = c - int (?k - l)" using that by (simp add: of_nat_diff)
      then show ?thesis by (simp add: power_int_diff)
    qed
    have "cmp ((of_nat m :: rat) * 10 powi d) (of_nat n * 10 powi e) =
        cmp (m * 10 ^ (?k - ilog10 m)) (n * 10 ^ (?k - ilog10 n))"
      using scale [of d "ilog10 m" m] scale [of e "ilog10 n" n] 3
        cmp_of_nat [of "10 powi (?s - int ?k)"] by (metis max.cobounded1 max.cobounded2 zero_less_power_int zero_less_numeral)
    then show ?thesis by (simp only: 3 cmp_simps(1) Ordering.case)
  qed
qed

lemma cmp_unat: "cmp (a :: 'a::len word) b = cmp (unat a) (unat b)"
  by (rule cmp_cong) (simp_all add: word_less_nat_alt)

lemma sint_eq_0 [simp]: "sint v = 0 \<longleftrightarrow> v = 0"
  using signed_word_eqI [where ?'a = int, of v 0] by auto

lemma abs_digits:
  assumes "v \<noteq> 0"
  shows "0 < nat \<bar>sint (v :: i64)\<bar>" "nat \<bar>sint v\<bar> < 2 ^ 64" "ilog10 (nat \<bar>sint v\<bar>) < 20"
    and "unat (ucast (unsigned_abs v) :: u128) = nat \<bar>sint v\<bar>"
proof -
  show pos: "0 < nat \<bar>sint v\<bar>" using assms by simp
  show lt: "nat \<bar>sint v\<bar> < 2 ^ 64" using unsigned_less [of "unsigned_abs v", where ?'a = nat]
    by (simp add: unat_unsigned_abs)
  show "ilog10 (nat \<bar>sint v\<bar>) < 20" by (rule ilog10_less [OF pos]) (use lt in simp)
  show "unat (ucast (unsigned_abs v) :: u128) = nat \<bar>sint v\<bar>"
    by (simp add: unat_ucast_up unat_unsigned_abs)
qed

lemma scaled_magnitude:
  "scaled v e = (if sint v < 0 then - 1 else 1) * (of_nat (nat \<bar>sint v\<bar>) * 10 powi sint e)"
  by (simp add: scaled_def abs_if del: of_int_sint)

lemma scaled_sign:
  "scaled v e < 0 \<longleftrightarrow> sint v < 0" "scaled v e = 0 \<longleftrightarrow> v = 0" "0 < scaled v e \<longleftrightarrow> 0 < sint v"
proof -
  have "\<not> (10 :: rat) powi sint e < 0" "(0 :: rat) < 10 powi sint e" by (simp_all add: not_less)
  then show "scaled v e < 0 \<longleftrightarrow> sint v < 0" "0 < scaled v e \<longleftrightarrow> 0 < sint v"
    by (simp_all only: scaled_def mult_less_0_iff zero_less_mult_iff of_int_less_0_iff of_int_0_less_iff
      simp_thms)
  show "scaled v e = 0 \<longleftrightarrow> v = 0" by (simp add: scaled_def del: of_int_sint)
qed

text \<open>The comparison of two values of the same sign.\<close>

lemma compare_scaled_same_sign:
  assumes "v \<noteq> 0" "w \<noteq> 0" "sint v < 0 \<longleftrightarrow> sint w < 0"
  shows "compare_scaled v d w e = cmp (scaled v d) (scaled w e)"
proof -
  define m n where mn: "m = nat \<bar>sint v\<bar>" "n = nat \<bar>sint w\<bar>"
  note v = abs_digits [OF assms(1), folded mn] and w = abs_digits [OF assms(2), folded mn]
  let ?k = "max (ilog10 m) (ilog10 n)"
  have k: "?k < 20" using v(3) w(3) by simp
  have scaled_m: "unat ((ucast (unsigned_abs v) :: u128) * 10 ^ (?k - ilog10 m)) = m * 10 ^ (?k - ilog10 m)"
    using rescaled_fits [OF v(1,2) k] by (simp add: unat_mult_pow10 v(4))
  have scaled_n: "unat ((ucast (unsigned_abs w) :: u128) * 10 ^ (?k - ilog10 n)) = n * 10 ^ (?k - ilog10 n)"
    using rescaled_fits [OF w(1,2) k] by (simp add: unat_mult_pow10 w(4))
  have signs: "cmp (sint v) 0 = cmp (sint w) 0" "cmp (sint w) 0 \<noteq> Equal"
    using assms by (auto simp: cmp_def)
  have "compare_scaled v d w e =
      (if sint v < 0 then ord_reverse (cmp (of_nat m * 10 powi sint d) (of_nat n * 10 powi sint e :: rat))
       else cmp (of_nat m * 10 powi sint d) (of_nat n * 10 powi sint e :: rat))"
    unfolding magnitude_order [OF v(1) w(1), symmetric]
    by (simp only: compare_scaled_def Let_def signs v(4) w(4) cmp_unat [where ?'a = 128] scaled_m scaled_n
      if_False refl not_True_eq_False simp_thms)
  also have "\<dots> = cmp (scaled v d) (scaled w e)"
    using assms(3) unfolding scaled_magnitude [of v] scaled_magnitude [of w] mn [symmetric]
    by (auto intro!: cmp_cong)
  finally show ?thesis .
qed

lemma cmp_scaled_0: "cmp (scaled v e) 0 = cmp (sint v) 0" "cmp 0 (scaled v e) = cmp 0 (sint v)"
  by (rule cmp_cong; simp only: scaled_sign)+

lemma compare_scaled_cmp: "compare_scaled v d w e = cmp (scaled v d) (scaled w e)"
proof -
  consider "v = 0" | "v \<noteq> 0" "w = 0" | "v \<noteq> 0" "w \<noteq> 0" "sint v < 0 \<longleftrightarrow> sint w < 0"
    | "sint v < 0" "0 < sint w" | "0 < sint v" "sint w < 0"
    using sint_eq_0 [of v] sint_eq_0 [of w] by linarith
  then show ?thesis
  proof cases
    case 1
    then have "scaled v d = 0" by (simp only: scaled_sign)
    with 1 show ?thesis by (simp add: compare_scaled_def cmp_scaled_0)
  next
    case 2
    then have "scaled w e = 0" by (simp only: scaled_sign)
    with 2 show ?thesis by (auto simp: compare_scaled_def cmp_scaled_0 Let_def cmp_eq)
  next
    case 4
    then have "scaled v d < 0" "0 < scaled w e" by (simp_all only: scaled_sign)
    then have "scaled v d < scaled w e" by (rule less_trans)
    with 4 show ?thesis by (simp add: compare_scaled_def)
  next
    case 5
    then have "0 < scaled v d" "scaled w e < 0" by (simp_all only: scaled_sign)
    then have "scaled w e < scaled v d" by (metis less_trans)
    with 5 show ?thesis by (simp add: compare_scaled_def)
  qed (rule compare_scaled_same_sign)
qed

section \<open>Properties\<close>

text \<open>
  C32. The comparison of prices is exact. \<^verbatim>\<open>compare_scaled\<close> orders two mantissas with decimal exponents
  exactly as the rational numbers they stand for, for all 64-bit mantissas and 32-bit exponents, however
  far the exponents are apart; the 128-bit products it forms do not overflow.
\<close>

theorem compare_scaled_exact:
  "compare_scaled v d w e = cmp (of_int (sint v) * 10 powi sint d :: rat) (of_int (sint w) * 10 powi sint e) \<and>
   (v \<noteq> 0 \<and> w \<noteq> 0 \<longrightarrow>
     unat (ucast (unsigned_abs v) :: u128) *
       10 ^ (max (ilog10 (unat (unsigned_abs v))) (ilog10 (unat (unsigned_abs w))) -
         ilog10 (unat (unsigned_abs v))) < 2 ^ 128)"
proof
  show "compare_scaled v d w e = cmp (of_int (sint v) * 10 powi sint d :: rat) (of_int (sint w) * 10 powi sint e)"
    unfolding scaled_def [symmetric] by (rule compare_scaled_cmp)
  show "v \<noteq> 0 \<and> w \<noteq> 0 \<longrightarrow>
     unat (ucast (unsigned_abs v) :: u128) *
       10 ^ (max (ilog10 (unat (unsigned_abs v))) (ilog10 (unat (unsigned_abs w))) -
         ilog10 (unat (unsigned_abs v))) < 2 ^ 128"
    using rescaled_fits [of "nat \<bar>sint v\<bar>"] abs_digits [of v] abs_digits [of w]
    by (auto simp: unat_unsigned_abs)
qed

theorem compare_scaled_exact_witness:
  "compare_scaled 1 2 (- 1) 3 = Greater \<and> compare_scaled 10 (- 4) 1 (- 3) = Equal \<and>
   unat (ucast (unsigned_abs 10) :: u128) *
     10 ^ (max (ilog10 (unat (unsigned_abs 10))) (ilog10 (unat (unsigned_abs 1))) -
       ilog10 (unat (unsigned_abs 10))) < 2 ^ 128"
proof (intro conjI)
  show "compare_scaled 1 2 (- 1) 3 = Greater"
    using compare_scaled_exact [of 1 2 "- 1" 3] by (simp add: cmp_def)
  show "compare_scaled 10 (- 4) 1 (- 3) = Equal"
    using compare_scaled_exact [of 10 "- 4" 1 "- 3"] by (simp add: cmp_def power_int_minus)
  show "unat (ucast (unsigned_abs 10) :: u128) *
     10 ^ (max (ilog10 (unat (unsigned_abs 10))) (ilog10 (unat (unsigned_abs 1))) -
       ilog10 (unat (unsigned_abs 10))) < 2 ^ 128"
    by (rule compare_scaled_exact [of 10 "- 4" 1 "- 3", THEN conjunct2, THEN mp]) simp
qed

end
