(* ===== verification/Oracle_Median.thy ===== *)
theory Oracle_Median
  imports Oracle_Price "HOL-Library.Multiset" "HOL-Library.Product_Lexorder"
begin

text \<open>
  Aggregation of the prices of several sources
  (\<^verbatim>\<open>src/contract/proxy-oracle/kernel/src/proxy/aggregator\<close>): the weighted median over the ends of
  the confidence intervals, and the first price in order of priority.

  \<^item> Weights are added in 128 bits by the code, which a vector of 32-bit weights cannot overflow; the
    model adds them as natural numbers.
  \<^item> \<^verbatim>\<open>sort_unstable\<close> may leave equal entries in any order. It is an argument of the model, and
    \<open>is_sort\<close> says what the code relies on: a sorted permutation.
  \<^item> The indices of the median are compared with those in the list with every entry repeated as often
    as its weight; the result stays inside every range that a majority of the weight agrees on.
\<close>

section \<open>The weighted median\<close>

definition total_weight :: "('a \<times> u32) list \<Rightarrow> nat" where
  "total_weight items = sum_list (map (unat \<circ> snd) items)"

text \<open>The closure \<^verbatim>\<open>find_target\<close>: the first index at which the cumulative weight reaches the target.\<close>

fun find_target :: "nat \<Rightarrow> nat \<Rightarrow> nat \<Rightarrow> ('a \<times> u32) list \<Rightarrow> nat option" where
  "find_target index cumulative goal [] = None"
| "find_target index cumulative goal (item # items) =
     (let cumulative' = cumulative + unat (snd item) in
      if goal \<le> cumulative' then Some index
      else find_target (Suc index) cumulative' goal items)"

text \<open>\<^const>\<open>None\<close> is the unreachable panic of the closure.\<close>

definition median :: "('a \<times> u32) list \<Rightarrow> (nat \<times> nat) option" where
  "median items =
     (let weight = total_weight items in
      if weight = 0 then Some ((length items - 1) div 2, length items div 2)
      else
        let low_target = (weight + 1) div 2; high_target = weight div 2 + 1 in
        Option.bind (find_target 0 0 low_target items) (\<lambda>low.
        Option.bind (find_target 0 0 high_target items) (\<lambda>high.
        Some (low, high))))"

datatype MedianVariant = LowMedian | HighMedian

fun variant_median :: "MedianVariant \<Rightarrow> ('a \<times> u32) list \<Rightarrow> nat option" where
  "variant_median LowMedian items = map_option (\<lambda>(lo, hi). min lo hi) (median items)"
| "variant_median HighMedian items = map_option (\<lambda>(lo, hi). max lo hi) (median items)"

section \<open>Ends of the confidence interval\<close>

record SpecificPrice =
  sp_value :: i64
  sp_exponent :: i32
  sp_publish_time_ns :: Nanoseconds

definition i64_clamp :: "int \<Rightarrow> i64" where
  "i64_clamp x = of_int (max (- (2 ^ 63)) (min (2 ^ 63 - 1) x))"

definition sp_to_price :: "SpecificPrice \<Rightarrow> Price" where
  "sp_to_price s = \<lparr>price_value = sp_value s, price_conf = 0, price_expo = sp_exponent s,
     price_publish_time_ns = sp_publish_time_ns s\<rparr>"

definition sp_split :: "Price \<Rightarrow> SpecificPrice \<times> SpecificPrice" where
  "sp_split p =
     (let conf = min (int (unat (price_conf p))) (2 ^ 63 - 1) in
      (\<lparr>sp_value = i64_clamp (sint (price_value p) - conf), sp_exponent = price_expo p,
        sp_publish_time_ns = price_publish_time_ns p\<rparr>,
       \<lparr>sp_value = i64_clamp (sint (price_value p) + conf), sp_exponent = price_expo p,
        sp_publish_time_ns = price_publish_time_ns p\<rparr>))"

definition sp_cmp :: "SpecificPrice \<Rightarrow> SpecificPrice \<Rightarrow> Ordering" where
  "sp_cmp s t = compare_scaled (sp_value s) (sp_exponent s) (sp_value t) (sp_exponent t)"

text \<open>The order of pairs: by the price, then by the weight.\<close>

definition entry_cmp :: "SpecificPrice \<times> u32 \<Rightarrow> SpecificPrice \<times> u32 \<Rightarrow> Ordering" where
  "entry_cmp x y = (case sp_cmp (fst x) (fst y) of Equal \<Rightarrow> cmp (snd x) (snd y) | c \<Rightarrow> c)"

section \<open>Aggregators\<close>

record 's WeightedSource =
  ws_source :: 's
  ws_weight :: u32

record 's Median =
  med_sources :: "'s WeightedSource list"
  med_min_sources :: u32

record 's Priority =
  prio_sources :: "'s list"

datatype AggregateError = LengthMismatch nat nat | TooFewValidSources nat nat

datatype AggregateErrorCode = LengthMismatchCode | TooFewValidSourcesCode

fun aggregate_error_code :: "AggregateError \<Rightarrow> AggregateErrorCode" where
  "aggregate_error_code (LengthMismatch _ _) = LengthMismatchCode"
| "aggregate_error_code (TooFewValidSources _ _) = TooFewValidSourcesCode"

datatype 's Aggregator = MedianLow "'s Median" | PriorityAgg "'s Priority" | MedianHigh "'s Median"

definition median_new :: "'s WeightedSource list \<Rightarrow> 's Median" where
  "median_new sources = \<lparr>med_sources = sources, med_min_sources = 1\<rparr>"

definition equal_weights :: "'s list \<Rightarrow> 's WeightedSource list" where
  "equal_weights entries = map (\<lambda>s. \<lparr>ws_source = s, ws_weight = 1\<rparr>) entries"

definition aggregator_median_low :: "'s list \<Rightarrow> 's Aggregator" where
  "aggregator_median_low entries = MedianLow (median_new (equal_weights entries))"

definition aggregator_median_high :: "'s list \<Rightarrow> 's Aggregator" where
  "aggregator_median_high entries = MedianHigh (median_new (equal_weights entries))"

definition aggregator_priority :: "'s list \<Rightarrow> 's Aggregator" where
  "aggregator_priority entries = PriorityAgg \<lparr>prio_sources = entries\<rparr>"

fun aggregator_sources :: "'s Aggregator \<Rightarrow> 's list" where
  "aggregator_sources (MedianLow m) = map ws_source (med_sources m)"
| "aggregator_sources (PriorityAgg p) = prio_sources p"
| "aggregator_sources (MedianHigh m) = map ws_source (med_sources m)"

fun collect_values ::
    "nat \<Rightarrow> (SpecificPrice \<times> u32) list \<Rightarrow> (Price option \<times> 's WeightedSource) list \<Rightarrow>
      nat \<times> (SpecificPrice \<times> u32) list" where
  "collect_values valid values [] = (valid, values)"
| "collect_values valid values ((price, source) # rest) =
     (case (if 0 < ws_weight source then price else None) of
        Some p \<Rightarrow>
          let (lower, upper) = sp_split p in
          collect_values (Suc valid) (values @ [(lower, ws_weight source), (upper, ws_weight source)]) rest
      | None \<Rightarrow> collect_values valid values rest)"

type_synonym sort_fun = "(SpecificPrice \<times> u32) list \<Rightarrow> (SpecificPrice \<times> u32) list"

definition median_aggregate ::
    "sort_fun \<Rightarrow> MedianVariant \<Rightarrow> 's Median \<Rightarrow> Price option list \<Rightarrow> (Price, AggregateError) result" where
  "median_aggregate sort_unstable variant m prices =
     (if length prices \<noteq> length (med_sources m)
      then Err (LengthMismatch (length (med_sources m)) (length prices))
      else
        let (valid, values) = collect_values 0 [] (zip prices (med_sources m));
            min_sources = max (unat (med_min_sources m)) 1
        in
          if valid < min_sources then Err (TooFewValidSources min_sources valid)
          else
            let values' = sort_unstable values in
            case variant_median variant values' of
              Some i \<Rightarrow> if i < length values' then Ok (sp_to_price (fst (values' ! i))) else Panic
            | None \<Rightarrow> Panic)"

definition priority_aggregate :: "'s Priority \<Rightarrow> Price option list \<Rightarrow> (Price, AggregateError) result" where
  "priority_aggregate m prices =
     (if length prices \<noteq> length (prio_sources m)
      then Err (LengthMismatch (length (prio_sources m)) (length prices))
      else
        case List.map_filter id prices of
          p # _ \<Rightarrow> Ok p
        | [] \<Rightarrow> Err (TooFewValidSources 1 0))"

fun aggregate :: "sort_fun \<Rightarrow> 's Aggregator \<Rightarrow> Price option list \<Rightarrow> (Price, AggregateError) result" where
  "aggregate srt (MedianLow m) prices = median_aggregate srt LowMedian m prices"
| "aggregate srt (PriorityAgg m) prices = priority_aggregate m prices"
| "aggregate srt (MedianHigh m) prices = median_aggregate srt HighMedian m prices"

section \<open>The reference: every entry repeated by its weight\<close>

fun repeated :: "nat \<Rightarrow> ('a \<times> u32) list \<Rightarrow> nat list" where
  "repeated index [] = []"
| "repeated index (item # items) = replicate (unat (snd item)) index @ repeated (Suc index) items"

lemma total_weight_simps [simp]:
  "total_weight [] = 0" "total_weight (x # xs) = unat (snd x) + total_weight xs"
  "total_weight (xs @ ys) = total_weight xs + total_weight ys"
  by (simp_all add: total_weight_def)

lemma length_repeated [simp]: "length (repeated i items) = total_weight items"
  by (induction items arbitrary: i) auto

lemma find_target_repeated:
  assumes "c < g" "g \<le> c + total_weight items"
  shows "find_target i c g items = Some (repeated i items ! (g - c - 1))"
  using assms
proof (induction items arbitrary: i c)
  case (Cons x xs)
  show ?case
  proof (cases "g \<le> c + unat (snd x)")
    case True
    then have "g - c - 1 < unat (snd x)" using Cons.prems(1) by linarith
    with True show ?thesis by (simp add: nth_append)
  next
    case False
    then have "find_target (Suc i) (c + unat (snd x)) g xs =
        Some (repeated (Suc i) xs ! (g - (c + unat (snd x)) - 1))"
      using Cons.prems by (intro Cons.IH) simp_all
    moreover have "\<not> g - c - 1 < unat (snd x)" "g - c - 1 - unat (snd x) = g - (c + unat (snd x)) - 1"
      using False by linarith+
    ultimately show ?thesis using False by (simp add: nth_append Let_def)
  qed
qed simp

lemma repeated_weights:
  assumes "n < total_weight items"
  shows "\<exists>k < length items. repeated i items ! n = i + k \<and>
    total_weight (take k items) \<le> n \<and> n < total_weight (take (Suc k) items)"
  using assms
proof (induction items arbitrary: i n)
  case (Cons x xs)
  show ?case
  proof (cases "n < unat (snd x)")
    case True
    then show ?thesis by (intro exI [of _ 0]) (simp add: nth_append)
  next
    case False
    then have "n - unat (snd x) < total_weight xs" using Cons.prems by simp
    from Cons.IH [OF this, of "Suc i"] obtain k where "k < length xs"
      "repeated (Suc i) xs ! (n - unat (snd x)) = Suc i + k"
      "total_weight (take k xs) \<le> n - unat (snd x)" "n - unat (snd x) < total_weight (take (Suc k) xs)"
      by blast
    with False show ?thesis by (intro exI [of _ "Suc k"]) (simp add: nth_append, linarith)
  qed
qed simp

lemma median_repeated:
  assumes "total_weight items \<noteq> 0"
  shows "median items = Some (repeated 0 items ! ((total_weight items - 1) div 2),
    repeated 0 items ! (total_weight items div 2))"
proof -
  let ?w = "total_weight items"
  have "find_target 0 0 ((?w + 1) div 2) items = Some (repeated 0 items ! ((?w + 1) div 2 - 0 - 1))"
    by (rule find_target_repeated) (use assms in auto)
  moreover have "find_target 0 0 (?w div 2 + 1) items = Some (repeated 0 items ! (?w div 2 + 1 - 0 - 1))"
    by (rule find_target_repeated) (use assms in auto)
  moreover have "(?w + 1) div 2 - 0 - 1 = (?w - 1) div 2" using assms by linarith
  ultimately show ?thesis using assms by (simp add: median_def Let_def)
qed

lemma repeated_mono:
  assumes "m \<le> n" "n < total_weight items"
  shows "repeated i items ! m \<le> repeated i items ! n"
proof -
  have "sorted (repeated i items) \<and> (\<forall>x \<in> set (repeated i items). i \<le> x)"
    by (induction items arbitrary: i) (force simp: sorted_append)+
  then show ?thesis using assms by (intro sorted_nth_mono) simp_all
qed

lemma variant_median_repeated:
  assumes "total_weight items \<noteq> 0"
  shows "variant_median LowMedian items = Some (repeated 0 items ! ((total_weight items - 1) div 2))"
    and "variant_median HighMedian items = Some (repeated 0 items ! (total_weight items div 2))"
proof -
  have "repeated 0 items ! ((total_weight items - 1) div 2) \<le> repeated 0 items ! (total_weight items div 2)"
    by (rule repeated_mono) (use assms in linarith)+
  then show "variant_median LowMedian items = Some (repeated 0 items ! ((total_weight items - 1) div 2))"
    "variant_median HighMedian items = Some (repeated 0 items ! (total_weight items div 2))"
    using assms by (simp_all add: median_repeated)
qed

text \<open>At most half of the weight is before the median, and at least half up to and including it.\<close>

lemma variant_median_halves:
  assumes "total_weight items \<noteq> 0"
  shows "\<exists>i < length items. variant_median variant items = Some i \<and>
    2 * total_weight (take i items) \<le> total_weight items \<and>
    total_weight items \<le> 2 * total_weight (take (Suc i) items)"
proof -
  obtain n where n: "variant_median variant items = Some (repeated 0 items ! n)"
    "n = (total_weight items - 1) div 2 \<or> n = total_weight items div 2"
    using variant_median_repeated [OF assms] by (cases variant) auto
  have "n < total_weight items" using n(2) assms by linarith
  from repeated_weights [OF this, of 0] obtain i where i: "i < length items" "repeated 0 items ! n = i"
    "total_weight (take i items) \<le> n" "n < total_weight (take (Suc i) items)"
    by auto
  with n have "2 * total_weight (take i items) \<le> total_weight items"
    "total_weight items \<le> 2 * total_weight (take (Suc i) items)" by linarith+
  with n(1) i show ?thesis by auto
qed

section \<open>What the code relies on when it sorts\<close>

definition sp_num :: "SpecificPrice \<Rightarrow> rat" where
  "sp_num s = scaled (sp_value s) (sp_exponent s)"

definition is_sort :: "sort_fun \<Rightarrow> bool" where
  "is_sort srt \<longleftrightarrow> (\<forall>values. mset (srt values) = mset values \<and>
     sorted_wrt (\<lambda>x y. entry_cmp x y \<noteq> Greater) (srt values))"

lemma sp_cmp_num: "sp_cmp s t = cmp (sp_num s) (sp_num t)"
  by (simp add: sp_cmp_def sp_num_def compare_scaled_cmp)

lemma entry_cmp_le: "entry_cmp x y \<noteq> Greater \<Longrightarrow> sp_num (fst x) \<le> sp_num (fst y)"
  by (cases "sp_cmp (fst x) (fst y)") (auto simp: entry_cmp_def sp_cmp_num cmp_eq)

lemma is_sort_sorted: "is_sort srt \<Longrightarrow> sorted (map (sp_num \<circ> fst) (srt values))"
  unfolding is_sort_def sorted_map
  by (auto intro: sorted_wrt_mono_rel [rotated] dest: entry_cmp_le)

lemma is_sort_mset: "is_sort srt \<Longrightarrow> mset (srt values) = mset values"
  by (simp add: is_sort_def)

section \<open>Majorities\<close>

text \<open>The weight of the entries with a property.\<close>

definition weight_of :: "('a \<times> u32 \<Rightarrow> bool) \<Rightarrow> ('a \<times> u32) list \<Rightarrow> nat" where
  "weight_of P items = total_weight (filter P items)"

lemma weight_of_mset: "mset xs = mset ys \<Longrightarrow> weight_of P xs = weight_of P ys"
proof -
  assume "mset xs = mset ys"
  then have "mset (filter P xs) = mset (filter P ys)" by simp
  then have "mset (map (unat \<circ> snd) (filter P xs)) = mset (map (unat \<circ> snd) (filter P ys))"
    by (simp only: mset_map)
  then show ?thesis
    unfolding weight_of_def total_weight_def by (metis sum_mset_sum_list)
qed

lemma weight_of_simps [simp]:
  "weight_of P [] = 0" "weight_of P (x # xs) = (if P x then unat (snd x) else 0) + weight_of P xs"
  "weight_of P (xs @ ys) = weight_of P xs + weight_of P ys"
  by (simp_all add: weight_of_def)

lemma weight_of_all: "\<forall>x \<in> set xs. P x \<Longrightarrow> weight_of P xs = total_weight xs"
  by (simp add: weight_of_def)

lemma weight_of_split: "weight_of P xs + weight_of (\<lambda>x. \<not> P x) xs = total_weight xs"
  by (induction xs) auto

text \<open>The median of a sorted list lies in every interval that holds more than half of the weight.\<close>

lemma sorted_median_majority:
  assumes sorted: "sorted (map f items)" and i: "i < length items"
    and halves: "2 * total_weight (take i items) \<le> total_weight items"
      "total_weight items \<le> 2 * total_weight (take (Suc i) items)"
    and most: "total_weight items < 2 * weight_of (\<lambda>x. lo \<le> f x \<and> f x \<le> (hi :: rat)) items"
  shows "lo \<le> f (items ! i) \<and> f (items ! i) \<le> hi"
proof (rule ccontr)
  let ?in = "\<lambda>x. lo \<le> f x \<and> f x \<le> hi"
  let ?out = "\<lambda>x. \<not> ?in x"
  assume bad: "\<not> (lo \<le> f (items ! i) \<and> f (items ! i) \<le> hi)"
  have few: "2 * weight_of ?out items < total_weight items"
    using most weight_of_split [of ?in items] by linarith
  have le: "f (items ! j) \<le> f (items ! k)" if "j \<le> k" "k < length items" for j k
    using sorted_nth_mono [OF sorted that(1)] that by simp
  have parts: "weight_of ?out items = weight_of ?out (take k items) + weight_of ?out (drop k items)"
    "total_weight items = total_weight (take k items) + total_weight (drop k items)" for k
    by (simp_all flip: weight_of_simps(3) total_weight_simps(3))
  show False
  proof (cases "f (items ! i) < lo")
    case True
    have "\<forall>x \<in> set (take (Suc i) items). ?out x"
      using True i le [of _ i] by (fastforce simp: in_set_conv_nth less_Suc_eq_le)
    then have "weight_of ?out (take (Suc i) items) = total_weight (take (Suc i) items)"
      by (rule weight_of_all)
    then show False using few halves(2) parts(1) [of "Suc i"] by linarith
  next
    case False
    have "\<forall>x \<in> set (drop i items). ?out x"
    proof
      fix x
      assume "x \<in> set (drop i items)"
      then obtain j where "j < length items - i" "x = items ! (i + j)" by (auto simp: in_set_conv_nth)
      then have "f (items ! i) \<le> f x" using le [of i "i + j"] by simp
      then show "?out x" using False bad by (auto simp: not_less not_le)
    qed
    then have "weight_of ?out (drop i items) = total_weight (drop i items)"
      by (rule weight_of_all)
    then show False using few halves(1) parts [of i] by linarith
  qed
qed

section \<open>The values of the sources\<close>

definition valid_rows :: "(Price option \<times> 's WeightedSource) list \<Rightarrow> (Price \<times> u32) list" where
  "valid_rows rows = List.map_filter (\<lambda>(price, source).
     if 0 < ws_weight source then map_option (\<lambda>p. (p, ws_weight source)) price else None) rows"

definition interval_ends :: "(Price \<times> u32) list \<Rightarrow> (SpecificPrice \<times> u32) list" where
  "interval_ends rows = concat (map (\<lambda>(p, w). [(fst (sp_split p), w), (snd (sp_split p), w)]) rows)"

lemma collect_values_eq:
  "collect_values n vs rows = (n + length (valid_rows rows), vs @ interval_ends (valid_rows rows))"
proof (induction rows arbitrary: n vs)
  case (Cons row rows)
  obtain price source where row: "row = (price, source)" by (cases row)
  show ?case
    by (cases price) (auto simp: row Cons.IH valid_rows_def map_filter_simps interval_ends_def split_beta)
qed (simp add: valid_rows_def map_filter_simps interval_ends_def)

lemma valid_rows_weight: "x \<in> set (valid_rows rows) \<Longrightarrow> 0 < snd x"
  by (auto simp: valid_rows_def List.map_filter_def split: if_splits)

lemma total_weight_interval_ends: "total_weight (interval_ends rows) = 2 * total_weight rows"
  by (induction rows) (auto simp: interval_ends_def)

lemma total_weight_valid_rows: "valid_rows rows \<noteq> [] \<Longrightarrow> total_weight (valid_rows rows) \<noteq> 0"
  using valid_rows_weight [of _ rows] by (cases "valid_rows rows") (auto simp: word_less_nat_alt)

text \<open>The confidence interval of a price, and the ends the code takes, which saturate inwards.\<close>

definition inside :: "rat \<Rightarrow> rat \<Rightarrow> Price \<Rightarrow> bool" where
  "inside lo hi p \<longleftrightarrow>
     lo \<le> of_int (sint (price_value p) - int (unat (price_conf p))) * 10 powi sint (price_expo p) \<and>
     of_int (sint (price_value p) + int (unat (price_conf p))) * 10 powi sint (price_expo p) \<le> hi"

lemma sint_i64_clamp: "sint (i64_clamp x) = max (- (2 ^ 63)) (min (2 ^ 63 - 1) x)"
  by (simp add: i64_clamp_def signed_of_int signed_take_bit_int_eq_self)

lemma sint_i64_range: "- (2 ^ 63) \<le> sint (v :: i64)" "sint v \<le> 2 ^ 63 - 1"
  using sint_greater_eq [of v] sint_less [of v] by simp_all

lemma clamp_inwards:
  fixes x c :: int
  assumes "- (2 ^ 63) \<le> x" "x \<le> 2 ^ 63 - 1" "0 \<le> c"
  shows "x - c \<le> max (- (2 ^ 63)) (min (2 ^ 63 - 1) (x - min c (2 ^ 63 - 1)))"
    and "max (- (2 ^ 63)) (min (2 ^ 63 - 1) (x - min c (2 ^ 63 - 1))) \<le> x"
    and "x \<le> max (- (2 ^ 63)) (min (2 ^ 63 - 1) (x + min c (2 ^ 63 - 1)))"
    and "max (- (2 ^ 63)) (min (2 ^ 63 - 1) (x + min c (2 ^ 63 - 1))) \<le> x + c"
  using assms by (auto simp: min_def max_def)

lemma sp_split_values:
  defines "v \<equiv> \<lambda>p. sint (price_value p)" and "c \<equiv> \<lambda>p. int (unat (price_conf p))"
  shows "v p - c p \<le> sint (sp_value (fst (sp_split p)))" "sint (sp_value (fst (sp_split p))) \<le> v p"
    and "v p \<le> sint (sp_value (snd (sp_split p)))" "sint (sp_value (snd (sp_split p))) \<le> v p + c p"
  unfolding v_def c_def sp_split_def Let_def fst_conv snd_conv SpecificPrice.simps sint_i64_clamp
  by (rule clamp_inwards [OF sint_i64_range], simp)+

lemma sp_split_fields [simp]:
  "sp_exponent (fst (sp_split p)) = price_expo p" "sp_exponent (snd (sp_split p)) = price_expo p"
  "sp_publish_time_ns (fst (sp_split p)) = price_publish_time_ns p"
  "sp_publish_time_ns (snd (sp_split p)) = price_publish_time_ns p"
  by (simp_all add: sp_split_def Let_def)

lemma sp_split_inside:
  assumes "inside lo hi p"
  shows "lo \<le> sp_num (fst (sp_split p)) \<and> sp_num (fst (sp_split p)) \<le> hi"
    and "lo \<le> sp_num (snd (sp_split p)) \<and> sp_num (snd (sp_split p)) \<le> hi"
proof -
  let ?e = "10 powi sint (price_expo p) :: rat"
  have mono: "of_int a * ?e \<le> of_int b * ?e" if "a \<le> b" for a b
    using that by (intro mult_right_mono) simp_all
  note v = sp_split_values [of p]
  show "lo \<le> sp_num (fst (sp_split p)) \<and> sp_num (fst (sp_split p)) \<le> hi"
    using assms mono [OF v(1)] mono [OF order.trans [OF v(2) order.trans [OF v(3,4)]]]
    unfolding inside_def sp_num_def scaled_def sp_split_fields by linarith
  show "lo \<le> sp_num (snd (sp_split p)) \<and> sp_num (snd (sp_split p)) \<le> hi"
    using assms mono [OF v(4)] mono [OF order.trans [OF order.trans [OF v(1,2)] v(3)]]
    unfolding inside_def sp_num_def scaled_def sp_split_fields by linarith
qed

lemma weight_of_interval_ends:
  "2 * weight_of (\<lambda>(p, w). inside lo hi p) rows
    \<le> weight_of (\<lambda>x. lo \<le> sp_num (fst x) \<and> sp_num (fst x) \<le> hi) (interval_ends rows)"
proof (induction rows)
  case (Cons row rows)
  then show ?case
    using sp_split_inside [of lo hi "fst row"]
    by (cases row) (auto simp: interval_ends_def)
qed (simp add: interval_ends_def)

section \<open>Aggregation\<close>

lemma median_aggregate_errors:
  fixes prices :: "Price option list" and m :: "'s Median"
  defines "rows \<equiv> valid_rows (zip prices (med_sources m))"
  shows "length prices \<noteq> length (med_sources m) \<Longrightarrow>
      median_aggregate srt variant m prices = Err (LengthMismatch (length (med_sources m)) (length prices))"
    and "length prices = length (med_sources m) \<Longrightarrow> length rows < max (unat (med_min_sources m)) 1 \<Longrightarrow>
      median_aggregate srt variant m prices =
        Err (TooFewValidSources (max (unat (med_min_sources m)) 1) (length rows))"
  by (simp_all add: median_aggregate_def collect_values_eq rows_def Let_def)

lemma median_aggregate_Ok:
  fixes prices :: "Price option list" and m :: "'s Median"
  defines "rows \<equiv> valid_rows (zip prices (med_sources m))"
  assumes srt: "is_sort srt" and len: "length prices = length (med_sources m)"
    and min: "max (unat (med_min_sources m)) 1 \<le> length rows"
  shows "\<exists>s w. median_aggregate srt variant m prices = Ok (sp_to_price s) \<and>
    (s, w) \<in> set (interval_ends rows) \<and>
    (\<forall>lo hi. total_weight rows < 2 * weight_of (\<lambda>(p, w). inside lo hi p) rows \<longrightarrow>
      lo \<le> sp_num s \<and> sp_num s \<le> hi)"
proof -
  define vs where "vs = srt (interval_ends rows)"
  have mset: "mset vs = mset (interval_ends rows)"
    unfolding vs_def by (rule is_sort_mset [OF srt])
  have weights: "weight_of P vs = weight_of P (interval_ends rows)" for P by (rule weight_of_mset [OF mset])
  then have total: "total_weight vs = 2 * total_weight rows"
    using weights [of "\<lambda>_. True"] by (simp add: weight_of_def total_weight_interval_ends)
  moreover have "rows \<noteq> []" using min by auto
  ultimately have "total_weight vs \<noteq> 0" using total_weight_valid_rows by (simp add: rows_def)
  from variant_median_halves [OF this, of variant] obtain i where i: "i < length vs"
    "variant_median variant vs = Some i" "2 * total_weight (take i vs) \<le> total_weight vs"
    "total_weight vs \<le> 2 * total_weight (take (Suc i) vs)" by blast
  have res: "median_aggregate srt variant m prices = Ok (sp_to_price (fst (vs ! i)))"
    using len min i(1,2) by (simp add: median_aggregate_def collect_values_eq vs_def rows_def not_less Let_def)
  have mem: "vs ! i \<in> set (interval_ends rows)"
    using nth_mem [OF i(1)] mset_eq_setD [OF mset] by simp
  have "lo \<le> sp_num (fst (vs ! i)) \<and> sp_num (fst (vs ! i)) \<le> hi"
    if "total_weight rows < 2 * weight_of (\<lambda>(p, w). inside lo hi p) rows" for lo hi
  proof -
    have "total_weight vs < 2 * weight_of (\<lambda>x. lo \<le> sp_num (fst x) \<and> sp_num (fst x) \<le> hi) vs"
      using that weight_of_interval_ends [of lo hi rows] by (simp only: total weights)
    then show ?thesis
      using sorted_median_majority [of "sp_num \<circ> fst" vs i lo hi] is_sort_sorted [OF srt] i
      by (simp add: vs_def)
  qed
  with res mem show ?thesis
    by (intro exI [of _ "fst (vs ! i)"] exI [of _ "snd (vs ! i)"]) simp
qed

lemma sp_num_to_price [simp]: "scaled (price_value (sp_to_price s)) (price_expo (sp_to_price s)) = sp_num s"
  by (simp add: sp_to_price_def sp_num_def)

lemma in_interval_ends:
  "(s, w) \<in> set (interval_ends rows) \<Longrightarrow> \<exists>p. (p, w) \<in> set rows \<and> (s = fst (sp_split p) \<or> s = snd (sp_split p))"
  by (auto simp: interval_ends_def)

text \<open>An insertion sort by the code's comparison meets the contract.\<close>

fun insert_entry :: "SpecificPrice \<times> u32 \<Rightarrow> (SpecificPrice \<times> u32) list \<Rightarrow> (SpecificPrice \<times> u32) list" where
  "insert_entry x [] = [x]"
| "insert_entry x (y # ys) = (if entry_cmp x y = Greater then y # insert_entry x ys else x # y # ys)"

definition insertion_sort :: sort_fun where
  "insertion_sort values = foldr insert_entry values []"

lemma entry_cmp_pair: "entry_cmp x y = cmp (sp_num (fst x), unat (snd x)) (sp_num (fst y), unat (snd y))"
  by (simp add: entry_cmp_def sp_cmp_num cmp_def word_less_nat_alt word_unat_eq_iff)

lemma insert_entry_sorts:
  "mset (insert_entry x ys) = add_mset x (mset ys)"
  "sorted_wrt (\<lambda>x y. entry_cmp x y \<noteq> Greater) ys \<Longrightarrow>
    sorted_wrt (\<lambda>x y. entry_cmp x y \<noteq> Greater) (insert_entry x ys)"
proof -
  show mset: "mset (insert_entry x ys) = add_mset x (mset ys)" for ys
    by (induction ys) auto
  have set: "set (insert_entry x ys) = insert x (set ys)" for ys
    using arg_cong [OF mset [of ys], of set_mset] by simp
  show "sorted_wrt (\<lambda>x y. entry_cmp x y \<noteq> Greater) ys \<Longrightarrow>
    sorted_wrt (\<lambda>x y. entry_cmp x y \<noteq> Greater) (insert_entry x ys)"
    by (induction ys) (auto simp: set entry_cmp_pair cmp_eq not_less)
qed

lemma is_sort_insertion_sort: "is_sort insertion_sort"
proof -
  have "mset (insertion_sort vs) = mset vs \<and> sorted_wrt (\<lambda>x y. entry_cmp x y \<noteq> Greater) (insertion_sort vs)" for vs
    by (induction vs) (simp_all add: insertion_sort_def insert_entry_sorts)
  then show ?thesis by (simp add: is_sort_def)
qed

section \<open>Properties\<close>


text \<open>
  C34. A minority of the weight cannot move the aggregated price. Whatever order the sort leaves equal
  entries in, the median aggregation fails exactly when the numbers of prices and sources differ or
  fewer sources than required give a price with a positive weight, and never panics. Otherwise its
  result is an end of the confidence interval of one of these prices, and it lies in every interval
  which contains the confidence intervals of sources holding more than half of the weight.
\<close>

theorem median_resists_minority:
  assumes "is_sort srt"
  shows "let rows = valid_rows (zip prices (med_sources m)); need = max (unat (med_min_sources m)) 1 in
    if length prices \<noteq> length (med_sources m)
    then median_aggregate srt variant m prices = Err (LengthMismatch (length (med_sources m)) (length prices))
    else if length rows < need
    then median_aggregate srt variant m prices = Err (TooFewValidSources need (length rows))
    else \<exists>r p w. median_aggregate srt variant m prices = Ok r \<and> (p, w) \<in> set rows \<and>
      (r = sp_to_price (fst (sp_split p)) \<or> r = sp_to_price (snd (sp_split p))) \<and>
      (\<forall>lo hi. total_weight rows < 2 * weight_of (\<lambda>(p, w). inside lo hi p) rows \<longrightarrow>
        lo \<le> scaled (price_value r) (price_expo r) \<and> scaled (price_value r) (price_expo r) \<le> hi)"
proof (cases "length prices = length (med_sources m) \<and>
    max (unat (med_min_sources m)) 1 \<le> length (valid_rows (zip prices (med_sources m)))")
  case True
  then obtain s w where s: "median_aggregate srt variant m prices = Ok (sp_to_price s)"
    "(s, w) \<in> set (interval_ends (valid_rows (zip prices (med_sources m))))"
    "\<forall>lo hi. total_weight (valid_rows (zip prices (med_sources m))) <
        2 * weight_of (\<lambda>(p, w). inside lo hi p) (valid_rows (zip prices (med_sources m))) \<longrightarrow>
      lo \<le> sp_num s \<and> sp_num s \<le> hi"
    using median_aggregate_Ok [OF assms, of prices m variant] by blast
  obtain p where "(p, w) \<in> set (valid_rows (zip prices (med_sources m)))"
    "s = fst (sp_split p) \<or> s = snd (sp_split p)"
    using in_interval_ends [OF s(2)] by blast
  with s True show ?thesis
    unfolding Let_def by (auto intro!: exI [of _ "sp_to_price s"] exI [of _ p] exI [of _ w])
next
  case False
  then show ?thesis
    using median_aggregate_errors [of prices m srt variant] by (auto simp: Let_def not_le)
qed

definition demo_source :: "u32 \<Rightarrow> nat WeightedSource" where
  "demo_source w = \<lparr>ws_source = 0, ws_weight = w\<rparr>"

definition demo_price :: "i64 \<Rightarrow> u64 \<Rightarrow> Price" where
  "demo_price v c = \<lparr>price_value = v, price_conf = c, price_expo = 0, price_publish_time_ns = 0\<rparr>"

definition demo_median :: "nat Median" where
  "demo_median = \<lparr>med_sources = [demo_source 2, demo_source 2, demo_source 3], med_min_sources = 2\<rparr>"

theorem median_resists_minority_witness:
  "\<exists>r. median_aggregate insertion_sort LowMedian demo_median
      [Some (demo_price 100 2), Some (demo_price 104 1), Some (demo_price 900 0)] = Ok r \<and>
    98 \<le> scaled (price_value r) (price_expo r) \<and> scaled (price_value r) (price_expo r) \<le> 105"
proof -
  let ?ps = "[Some (demo_price 100 2), Some (demo_price 104 1), Some (demo_price 900 0)]"
  have rows: "valid_rows (zip ?ps (med_sources demo_median)) =
      [(demo_price 100 2, 2), (demo_price 104 1, 2), (demo_price 900 0, 3)]"
    by (simp add: valid_rows_def demo_median_def demo_source_def map_filter_simps)
  have "inside 98 105 (demo_price 100 2)" "inside 98 105 (demo_price 104 1)"
    by (simp_all add: inside_def demo_price_def)
  then have "7 < 2 * weight_of (\<lambda>(p, w). inside 98 105 p)
      [(demo_price 100 2, 2), (demo_price 104 1, 2), (demo_price 900 0, 3)]"
    by simp
  then show ?thesis
    using median_resists_minority [OF is_sort_insertion_sort, of ?ps demo_median LowMedian]
    unfolding rows by (auto simp: demo_median_def)
qed

end
