(* ===== verification/Oracle_Change.thy ===== *)
theory Oracle_Change
  imports Oracle_Price
begin

text \<open>
  Relative price changes (\<^verbatim>\<open>src/contract/proxy-oracle/kernel/src/proxy/circuit_breaker/math.rs\<close>).

  \<^item> The 512-bit integers come from the \<^verbatim>\<open>primitive_types\<close> crate. Their operations are the record argument
    \<open>U\<close> of the definitions; the locale \<open>u512_spec\<close> states their documented behaviour and \<open>word_u512\<close> is
    an instance on words.
  \<^item> A \<^verbatim>\<open>DecimalRepr\<close> is used through its representation only, a 512-bit fixed-point number with 128
    fractional bits.
  \<^item> The comparisons answer true when an intermediate value does not fit into 512 bits. The lemmas relate
    them to the rational numbers the prices stand for: they never miss a change, and they are exact for
    prices whose exponents are at most 80 apart.
\<close>

section \<open>512-bit integers\<close>

record U512_ops =
  u512_overflowing_mul :: "u512 \<Rightarrow> u512 \<Rightarrow> u512 \<times> bool"
  u512_overflowing_add :: "u512 \<Rightarrow> u512 \<Rightarrow> u512 \<times> bool"
  u512_sub :: "u512 \<Rightarrow> u512 \<Rightarrow> u512"
  u512_bits :: "u512 \<Rightarrow> nat"
  u512_shl :: "u512 \<Rightarrow> nat \<Rightarrow> u512"

type_synonym DecimalRepr = u512

definition decimal_ONE :: DecimalRepr where
  "decimal_ONE = 2 ^ 128"

definition decimal_ZERO :: DecimalRepr where
  "decimal_ZERO = 0"

section \<open>Scaling to a common exponent\<close>

definition i32_checked_sub :: "i32 \<Rightarrow> i32 \<Rightarrow> i32 option" where
  "i32_checked_sub a b =
     (let d = sint a - sint b in if - (2 ^ 31) \<le> d \<and> d < 2 ^ 31 then Some (of_int d) else None)"

definition u32_try_from :: "i32 \<Rightarrow> u32 option" where
  "u32_try_from a = (if 0 \<le> sint a then Some a else None)"

definition exponent_above :: "i32 \<Rightarrow> i32 \<Rightarrow> u32 option" where
  "exponent_above e common_exponent = Option.bind (i32_checked_sub e common_exponent) u32_try_from"

primrec factor_loop :: "U512_ops \<Rightarrow> nat \<Rightarrow> u512 \<Rightarrow> u512 option" where
  "factor_loop U 0 factor = Some factor"
| "factor_loop U (Suc n) factor =
     (let (next_factor, overflowed) = u512_overflowing_mul U factor 10
      in if overflowed then None else factor_loop U n next_factor)"

definition checked_scaled_magnitude :: "U512_ops \<Rightarrow> u64 \<Rightarrow> u32 \<Rightarrow> u512 option" where
  "checked_scaled_magnitude U magnitude exponent =
     (case factor_loop U (unat exponent) 1 of
        None \<Rightarrow> None
      | Some factor \<Rightarrow>
          let (scaled, overflowed) = u512_overflowing_mul U (ucast magnitude) factor
          in if overflowed then None else Some scaled)"

definition checked_shift_left :: "U512_ops \<Rightarrow> u512 \<Rightarrow> nat \<Rightarrow> u512 option" where
  "checked_shift_left U v k = (if 512 < u512_bits U v + k then None else Some (u512_shl U v k))"

definition signum :: "i64 \<Rightarrow> int" where
  "signum v = sgn (sint v)"

definition scaled_difference :: "U512_ops \<Rightarrow> Price \<Rightarrow> Price \<Rightarrow> (u512 \<times> u512) option" where
  "scaled_difference U p c =
     (let common_exponent = (if sint (price_expo p) \<le> sint (price_expo c) then price_expo p else price_expo c);
          same_sign = (signum (price_value p) = signum (price_value c)) in
      Option.bind (exponent_above (price_expo p) common_exponent) (\<lambda>p_exponent.
      Option.bind (checked_scaled_magnitude U (unsigned_abs (price_value p)) p_exponent) (\<lambda>previous.
      Option.bind (exponent_above (price_expo c) common_exponent) (\<lambda>c_exponent.
      Option.bind (checked_scaled_magnitude U (unsigned_abs (price_value c)) c_exponent) (\<lambda>current.
        if same_sign
        then Some (if current \<le> previous then u512_sub U previous current else u512_sub U current previous, previous)
        else
          let (s, overflowed) = u512_overflowing_add U previous current
          in if overflowed then None else Some (s, previous))))))"

section \<open>The comparisons\<close>

datatype StepChange = Decrease | Minor | Increase

definition compare_scaled_change :: "U512_ops \<Rightarrow> u512 \<Rightarrow> u512 \<Rightarrow> DecimalRepr \<Rightarrow> bool \<Rightarrow> bool option" where
  "compare_scaled_change U difference baseline threshold inclusive =
     Option.bind (checked_shift_left U difference 128) (\<lambda>left.
       let (right, overflowed) = u512_overflowing_mul U baseline threshold
       in if overflowed then None else Some (if inclusive then right \<le> left else right < left))"

definition unwrap_or :: "'a option \<Rightarrow> 'a \<Rightarrow> 'a" where
  "unwrap_or v d = (case v of None \<Rightarrow> d | Some x \<Rightarrow> x)"

definition compare_relative_abs_change :: "U512_ops \<Rightarrow> Price \<Rightarrow> Price \<Rightarrow> DecimalRepr \<Rightarrow> bool \<Rightarrow> bool" where
  "compare_relative_abs_change U p c threshold inclusive =
     (if price_value p = 0 then price_value c \<noteq> 0
      else case scaled_difference U p c of
          None \<Rightarrow> True
        | Some (difference, baseline) \<Rightarrow>
            unwrap_or (compare_scaled_change U difference baseline threshold inclusive) True)"

definition relative_abs_change_exceeds :: "U512_ops \<Rightarrow> Price \<Rightarrow> Price \<Rightarrow> DecimalRepr \<Rightarrow> bool" where
  "relative_abs_change_exceeds U p c max_relative_change =
     compare_relative_abs_change U p c max_relative_change False"

definition relative_abs_change_at_least :: "U512_ops \<Rightarrow> Price \<Rightarrow> Price \<Rightarrow> DecimalRepr \<Rightarrow> bool" where
  "relative_abs_change_at_least U p c min_relative_change =
     compare_relative_abs_change U p c min_relative_change True"

definition classify_step_change :: "U512_ops \<Rightarrow> Price \<Rightarrow> Price \<Rightarrow> DecimalRepr \<Rightarrow> StepChange" where
  "classify_step_change U p c min_relative_step_change =
     (case compare_scaled (price_value p) (price_expo p) (price_value c) (price_expo c) of
        Less \<Rightarrow> if relative_abs_change_at_least U p c min_relative_step_change then Increase else Minor
      | Greater \<Rightarrow> if relative_abs_change_at_least U p c min_relative_step_change then Decrease else Minor
      | Equal \<Rightarrow> Minor)"

primrec price_sum_loop :: "U512_ops \<Rightarrow> i32 \<Rightarrow> u512 \<Rightarrow> Price list \<Rightarrow> u512 option" where
  "price_sum_loop U common_exponent s [] = Some s"
| "price_sum_loop U common_exponent s (p # ps) =
     (if sint (price_value p) \<le> 0 then None
      else
        Option.bind (exponent_above (price_expo p) common_exponent) (\<lambda>exponent.
        Option.bind (checked_scaled_magnitude U (price_value p) exponent) (\<lambda>scaled.
          let (s', overflowed) = u512_overflowing_add U s scaled
          in if overflowed then None else price_sum_loop U common_exponent s' ps)))"

definition checked_price_sum :: "U512_ops \<Rightarrow> Price list \<Rightarrow> i32 \<Rightarrow> u512 option" where
  "checked_price_sum U prices common_exponent = price_sum_loop U common_exponent 0 prices"

fun min_exponent :: "i32 list \<Rightarrow> i32 option" where
  "min_exponent [] = None"
| "min_exponent (e # es) =
     (case min_exponent es of
        None \<Rightarrow> Some e
      | Some m \<Rightarrow> Some (if sint e \<le> sint m then e else m))"

definition relative_sum_change_exceeds :: "U512_ops \<Rightarrow> Price list \<Rightarrow> Price list \<Rightarrow> DecimalRepr \<Rightarrow> bool" where
  "relative_sum_change_exceeds U ps cs threshold =
     (case min_exponent (map price_expo (ps @ cs)) of
        None \<Rightarrow> False
      | Some common_exponent \<Rightarrow>
          (case checked_price_sum U ps common_exponent of
             None \<Rightarrow> True
           | Some previous \<Rightarrow>
               (case checked_price_sum U cs common_exponent of
                  None \<Rightarrow> True
                | Some current \<Rightarrow>
                    if previous = 0 then current \<noteq> 0
                    else
                      let difference =
                            (if current \<le> previous then u512_sub U previous current else u512_sub U current previous)
                      in unwrap_or (compare_scaled_change U difference previous threshold False) True)))"

section \<open>The contract of the 512-bit integers\<close>

text \<open>The number of 512-bit integers, kept folded in the proofs.\<close>

definition u512_size :: nat where
  "u512_size = 2 ^ 512"

locale u512_spec =
  fixes U :: U512_ops
  assumes mul_law: "u512_overflowing_mul U a b = (a * b, u512_size \<le> unat a * unat b)"
    and add_law: "u512_overflowing_add U a b = (a + b, u512_size \<le> unat a + unat b)"
    and sub_law: "b \<le> a \<Longrightarrow> u512_sub U a b = a - b"
    and bits_law: "u512_bits U a \<le> k \<longleftrightarrow> unat a < 2 ^ k"
    and shl_law: "k < 512 \<Longrightarrow> u512_shl U a k = a * 2 ^ k"

text \<open>The number of binary digits of a natural number.\<close>

fun bit_count :: "nat \<Rightarrow> nat" where
  "bit_count n = (if n = 0 then 0 else Suc (bit_count (n div 2)))"

declare bit_count.simps [simp del]

definition word_u512 :: U512_ops where
  "word_u512 =
     \<lparr>u512_overflowing_mul = (\<lambda>a b. (a * b, u512_size \<le> unat a * unat b)),
      u512_overflowing_add = (\<lambda>a b. (a + b, u512_size \<le> unat a + unat b)),
      u512_sub = (\<lambda>a b. a - b),
      u512_bits = (\<lambda>a. bit_count (unat a)),
      u512_shl = (\<lambda>a k. a * 2 ^ k)\<rparr>"

lemma bit_count_le: "bit_count n \<le> k \<longleftrightarrow> n < 2 ^ k"
proof (induction n arbitrary: k rule: bit_count.induct)
  case (1 n)
  show ?case
  proof (cases "n = 0 \<or> k = 0")
    case True
    then show ?thesis by (subst bit_count.simps) auto
  next
    case False
    then obtain l where "k = Suc l" by (cases k) auto
    with 1 [of l] False show ?thesis by (subst bit_count.simps) (auto simp: less_mult_imp_div_less)
  qed
qed

interpretation words512: u512_spec word_u512
  by unfold_locales (simp_all add: word_u512_def bit_count_le)

section \<open>The rational numbers behind the comparisons\<close>

definition price_num :: "Price \<Rightarrow> rat" where
  "price_num p = scaled (price_value p) (price_expo p)"

definition dec_num :: "DecimalRepr \<Rightarrow> rat" where
  "dec_num t = of_nat (unat t) / 2 ^ 128"

definition near :: "i32 \<Rightarrow> i32 \<Rightarrow> bool" where
  "near d e \<longleftrightarrow> \<bar>sint d - sint e\<bar> \<le> 80"

lemma sint_of_small: "unat (k :: i32) < 2 ^ 31 \<Longrightarrow> sint k = int (unat k)"
proof -
  assume "unat k < 2 ^ 31"
  then have "int (unat k) < int (2 ^ 31)" unfolding of_nat_less_iff .
  then have lt: "int (unat k) < 2 ^ 31" by simp
  have "signed_take_bit 31 (int (unat k)) = int (unat k)"
    by (rule signed_take_bit_int_eq_self [OF order_trans [of _ 0] lt]) simp_all
  moreover have "sint k = signed_take_bit 31 (int (unat k))" by (simp add: sint_uint)
  ultimately show ?thesis by simp
qed

lemma sint_nonneg: "0 \<le> sint (k :: i32) \<longleftrightarrow> unat k < 2 ^ 31"
proof
  assume "0 \<le> sint k"
  moreover have "sint k < 2 ^ 31" using sint_range_size [of k] by (simp add: wsst_TYs)
  moreover have "uint k = sint k mod 2 ^ 32" by (simp add: uint_sint take_bit_eq_mod)
  ultimately have "uint k < 2 ^ 31" by simp
  then have "int (unat k) < int (2 ^ 31)" by simp
  then show "unat k < 2 ^ 31" by (simp only: of_nat_less_iff)
next
  assume "unat k < 2 ^ 31"
  from sint_of_small [OF this] show "0 \<le> sint k" by simp
qed

lemma sint_of_int_range: "- (2 ^ 31) \<le> d \<Longrightarrow> d < 2 ^ 31 \<Longrightarrow> sint (of_int d :: i32) = d"
  by (simp add: int_word_sint)

lemma exponent_above_eq_Some:
  "exponent_above e c = Some k \<longleftrightarrow> sint e = sint c + int (unat k) \<and> unat k < 2 ^ 31"
proof
  assume "exponent_above e c = Some k"
  then have d: "- (2 ^ 31) \<le> sint e - sint c" "sint e - sint c < 2 ^ 31" "k = of_int (sint e - sint c)" "0 \<le> sint k"
    unfolding exponent_above_def i32_checked_sub_def u32_try_from_def Let_def bind_eq_Some_conv
    by (metis option.inject option.distinct(1))+
  then have small: "unat k < 2 ^ 31" by (simp only: sint_nonneg)
  have "sint k = sint e - sint c" unfolding d(3) by (rule sint_of_int_range [OF d(1,2)])
  with small sint_of_small [OF small] show "sint e = sint c + int (unat k) \<and> unat k < 2 ^ 31" by simp
next
  assume k: "sint e = sint c + int (unat k) \<and> unat k < 2 ^ 31"
  then have d: "sint e - sint c = sint k" using sint_of_small by simp
  have "0 \<le> sint k" using k by (simp only: sint_nonneg)
  moreover have "sint k < 2 ^ 31" using sint_range_size [of k] by (simp add: wsst_TYs)
  ultimately show "exponent_above e c = Some k"
    by (simp add: exponent_above_def i32_checked_sub_def u32_try_from_def d)
qed

lemma unat_less_size: "unat (a :: u512) < u512_size"
  using unsigned_less [of a, where ?'a = nat] by (simp add: u512_size_def)

lemma unat_mult_fits: "unat (a :: u512) * unat b < u512_size \<Longrightarrow> unat (a * b) = unat a * unat b"
  by (simp add: unat_word_ariths u512_size_def)

lemma unat_add_fits: "unat (a :: u512) + unat b < u512_size \<Longrightarrow> unat (a + b) = unat a + unat b"
  by (simp add: unat_word_ariths u512_size_def)

lemma unat_of_nat_fits: "n < u512_size \<Longrightarrow> unat (of_nat n :: u512) = n"
  by (simp add: unat_of_nat take_bit_eq_mod u512_size_def)

lemma unat_u512_10: "unat (10 :: u512) = 10"
  by simp

lemma unat_u512_p2: "k < 512 \<Longrightarrow> unat ((2 :: u512) ^ k) = 2 ^ k"
  using unat_of_nat_fits [of "2 ^ k"] power_strict_increasing [of k 512 "2 :: nat"]
  by (simp add: u512_size_def)

lemma u512_eqI: "unat (a :: u512) = unat b \<Longrightarrow> a = b"
  by (rule unsigned_word_eqI)

lemma abs_scaled: "\<bar>scaled v e\<bar> = of_nat (unat (unsigned_abs v)) * 10 powi sint e"
  unfolding scaled_magnitude unat_unsigned_abs by (simp add: abs_mult)

lemma abs_diff_scaled:
  "\<bar>scaled w e - scaled v d\<bar> =
    (if signum v = signum w then \<bar>\<bar>scaled w e\<bar> - \<bar>scaled v d\<bar>\<bar> else \<bar>scaled v d\<bar> + \<bar>scaled w e\<bar>)"
proof -
  have "signum v = signum w \<longleftrightarrow> sgn (scaled v d) = sgn (scaled w e)"
    using scaled_sign [of v d] scaled_sign [of w e] sint_eq_0 [of v] sint_eq_0 [of w]
    by (auto simp: signum_def sgn_if)
  then show ?thesis by (auto simp: sgn_if abs_if split: if_splits)
qed

lemma abs_diff_scale: "0 < (g :: rat) \<Longrightarrow> \<bar>x - y\<bar> * g = \<bar>x * g - y * g\<bar>"
  by (simp add: abs_mult flip: left_diff_distrib)

definition exceeds :: "bool \<Rightarrow> rat \<Rightarrow> rat \<Rightarrow> bool" where
  "exceeds inclusive limit v \<longleftrightarrow> (if inclusive then limit \<le> v else limit < v)"

definition moved :: "bool \<Rightarrow> DecimalRepr \<Rightarrow> Price \<Rightarrow> Price \<Rightarrow> bool" where
  "moved inclusive t p c \<longleftrightarrow> exceeds inclusive (dec_num t * \<bar>price_num p\<bar>) \<bar>price_num c - price_num p\<bar>"

lemma exceeds_scale:
  assumes "0 < g" "of_nat (unat (d :: u512)) * g = D" "of_nat (unat (b :: u512)) * g = B"
  shows "(if inclusive then unat b * unat t \<le> unat d * 2 ^ 128 else unat b * unat t < unat d * 2 ^ 128) \<longleftrightarrow>
    exceeds inclusive (dec_num t * B) D"
proof -
  have "dec_num t * B = of_nat (unat b * unat t) * (g / 2 ^ 128)"
    by (simp add: dec_num_def flip: assms(3))
  moreover have "D = of_nat (unat d * 2 ^ 128) * (g / 2 ^ 128)"
    by (simp flip: assms(2))
  moreover have "0 < g / 2 ^ 128" using assms(1) by simp
  ultimately show ?thesis
    by (simp only: exceeds_def mult_le_cancel_right_pos mult_less_cancel_right_pos of_nat_le_iff of_nat_less_iff)
qed

text \<open>Sums of prices.\<close>

definition sum_num :: "Price list \<Rightarrow> rat" where
  "sum_num ps = sum_list (map price_num ps)"

definition sum_moved :: "DecimalRepr \<Rightarrow> Price list \<Rightarrow> Price list \<Rightarrow> bool" where
  "sum_moved t ps cs \<longleftrightarrow> dec_num t * sum_num ps < \<bar>sum_num cs - sum_num ps\<bar>"

lemma price_num_pos: "0 < sint (price_value p) \<Longrightarrow> price_num p = of_nat (unat (price_value p)) * 10 powi sint (price_expo p)"
proof -
  assume "0 < sint (price_value p)"
  then have "unsigned_abs (price_value p) = price_value p" by (simp add: unsigned_abs_def)
  moreover have "0 < price_num p" using \<open>0 < sint (price_value p)\<close> by (simp only: price_num_def scaled_sign)
  ultimately show ?thesis using abs_scaled [of "price_value p" "price_expo p"]
    by (simp add: price_num_def del: of_nat_unat)
qed

lemma min_exponent_eq_None: "min_exponent es = None \<longleftrightarrow> es = []"
  by (cases es) (auto split: option.splits)

lemma min_exponent_eq_Some: "min_exponent es = Some m \<Longrightarrow> m \<in> set es \<and> (\<forall>e \<in> set es. sint m \<le> sint e)"
proof (induction es arbitrary: m)
  case (Cons e es)
  show ?case
  proof (cases "min_exponent es")
    case None
    with Cons.prems show ?thesis by (simp add: min_exponent_eq_None)
  next
    case (Some l)
    with Cons.IH [OF Some] Cons.prems show ?thesis by (auto split: if_splits)
  qed
qed simp

context u512_spec
begin

lemma mul_10: "u512_overflowing_mul U f 10 = (f * 10, u512_size \<le> unat f * 10)"
  by (simp only: mul_law unat_u512_10)

lemma factor_loop_eq_Some:
  "0 < unat f \<Longrightarrow> factor_loop U n f = Some g \<longleftrightarrow> unat g = unat f * 10 ^ n"
proof (induction n arbitrary: f)
  case 0
  then show ?case by (auto intro: u512_eqI)
next
  case (Suc n)
  show ?case
  proof (cases "unat f * 10 < u512_size")
    case True
    then have "unat (f * 10) = unat f * 10" using unat_mult_fits [of f 10] by (simp only: unat_u512_10)
    with True Suc show ?thesis by (simp add: mul_10 ac_simps)
  next
    case False
    have "unat g < u512_size" by (rule unat_less_size)
    moreover have "unat f * 10 \<le> unat f * 10 * 10 ^ n" by simp
    moreover have "unat f * 10 ^ Suc n = unat f * 10 * 10 ^ n" by simp
    ultimately have "unat g \<noteq> unat f * 10 ^ Suc n" using False by linarith
    with False show ?thesis by (simp add: mul_10)
  qed
qed

lemma checked_scaled_magnitude_eq_Some:
  "checked_scaled_magnitude U m e = Some g \<longleftrightarrow>
    10 ^ unat e < u512_size \<and> unat g = unat m * 10 ^ unat e"
proof (cases "factor_loop U (unat e) 1")
  case None
  have "\<not> 10 ^ unat e < u512_size"
  proof
    assume "10 ^ unat e < u512_size"
    then have "unat (of_nat (10 ^ unat e) :: u512) = 10 ^ unat e" by (rule unat_of_nat_fits)
    then show False using None factor_loop_eq_Some [of 1 "unat e" "of_nat (10 ^ unat e)"] by simp
  qed
  with None show ?thesis by (simp add: checked_scaled_magnitude_def)
next
  case (Some f)
  then have f: "unat f = 10 ^ unat e" using factor_loop_eq_Some [of 1 "unat e" f] by simp
  have lt: "10 ^ unat e < u512_size" using unat_less_size [of f] f by simp
  have m: "unat (ucast m :: u512) = unat m" by (simp add: unat_ucast_up)
  have "unat g < u512_size" using unat_less_size [of g] by simp
  with Some f lt m show ?thesis
    using unat_mult_fits [of "ucast m" f]
    by (auto simp: checked_scaled_magnitude_def mul_law not_le intro: u512_eqI)
qed

lemma checked_shift_left_eq_Some:
  assumes "k < 512"
  shows "checked_shift_left U v k = Some l \<longleftrightarrow> unat l = unat v * 2 ^ k"
proof -
  have "u512_bits U v + k \<le> 512 \<longleftrightarrow> unat v < 2 ^ (512 - k)"
    using bits_law [of v "512 - k"] assms by (simp add: le_diff_conv2)
  also have "\<dots> \<longleftrightarrow> unat v * 2 ^ k < 2 ^ (512 - k) * 2 ^ k" by simp
  also have "(2 :: nat) ^ (512 - k) * 2 ^ k = u512_size" using assms by (simp add: u512_size_def flip: power_add)
  finally have bits: "u512_bits U v + k \<le> 512 \<longleftrightarrow> unat v * 2 ^ k < u512_size" .
  note pow = unat_u512_p2 [OF assms]
  have "unat l < u512_size" using unat_less_size [of l] by simp
  then show ?thesis
    using bits unat_mult_fits [of v "2 ^ k"] pow shl_law [OF assms, of v]
    by (auto simp: checked_shift_left_def not_less intro: u512_eqI)
qed

lemma compare_scaled_change_eq_Some:
  "compare_scaled_change U d b t inclusive = Some r \<longleftrightarrow>
    unat d * 2 ^ 128 < u512_size \<and> unat b * unat t < u512_size \<and>
    r = (if inclusive then unat b * unat t \<le> unat d * 2 ^ 128 else unat b * unat t < unat d * 2 ^ 128)"
proof (cases "checked_shift_left U d 128")
  case None
  have "\<not> unat d * 2 ^ 128 < u512_size"
  proof
    assume fits: "unat d * 2 ^ 128 < u512_size"
    then have "unat (of_nat (unat d * 2 ^ 128) :: u512) = unat d * 2 ^ 128" by (rule unat_of_nat_fits)
    then show False using None checked_shift_left_eq_Some [of 128 d "of_nat (unat d * 2 ^ 128)"] by simp
  qed
  with None show ?thesis by (simp add: compare_scaled_change_def)
next
  case (Some l)
  then have l: "unat l = unat d * 2 ^ 128" using checked_shift_left_eq_Some [of 128 d l] by simp
  have "unat d * 2 ^ 128 < u512_size" using unat_less_size [of l] l by simp
  with Some l show ?thesis
    using unat_mult_fits [of b t]
    by (auto simp: compare_scaled_change_def mul_law not_le word_le_nat_alt word_less_nat_alt)
qed

lemma magnitude_num:
  assumes "exponent_above e E = Some k" "checked_scaled_magnitude U m k = Some g"
  shows "of_nat (unat g) * 10 powi sint E = (of_nat (unat m) * 10 powi sint e :: rat)"
proof -
  have "unat g = unat m * 10 ^ unat k" "sint e = sint E + int (unat k)"
    using assms by (simp_all only: exponent_above_eq_Some checked_scaled_magnitude_eq_Some)
  then show ?thesis by (simp add: power_int_add del: of_nat_unat)
qed

lemma magnitude_Some:
  assumes "sint E \<le> sint e" "sint e - sint E \<le> 80"
  shows "\<exists>k g. exponent_above e E = Some k \<and> checked_scaled_magnitude U m k = Some g \<and> unat g < 2 ^ 330"
proof -
  define k where "k = nat (sint e - sint E)"
  have k: "k \<le> 80" "sint e = sint E + int k" using assms by (simp_all add: k_def)
  have "unat (of_nat k :: u32) = k" using k(1) by (simp add: unat_of_nat take_bit_nat_eq_self)
  with k have e: "exponent_above e E = Some (of_nat k)"
    unfolding exponent_above_eq_Some by simp
  have "(10 :: nat) ^ k \<le> 10 ^ 80" using k(1) by (intro power_increasing) simp_all
  also have "(10 :: nat) ^ 80 < 2 ^ 266" by simp
  finally have k10: "(10 :: nat) ^ k < 2 ^ 266" .
  have m64: "unat m < 2 ^ 64" using u64_bound [of m] by simp
  have "unat m * 10 ^ k \<le> 2 ^ 64 * 10 ^ k" using m64 by (intro mult_le_mono1) simp
  also have "\<dots> < 2 ^ 64 * 2 ^ 266" using k10 by (intro mult_strict_left_mono) simp_all
  also have "(2 :: nat) ^ 64 * 2 ^ 266 = 2 ^ 330" by (simp only: flip: power_add) simp
  finally have lt: "unat m * 10 ^ k < 2 ^ 330" .
  have small: "n < u512_size" if "n < 2 ^ 330" for n
    using that power_strict_increasing [of 330 512 "2 :: nat"] by (simp add: u512_size_def)
  have "checked_scaled_magnitude U m (of_nat k) = Some (of_nat (unat m * 10 ^ k))"
    unfolding checked_scaled_magnitude_eq_Some \<open>unat (of_nat k :: u32) = k\<close>
    using unat_of_nat_fits [OF small [OF lt]] small [of "10 ^ k"] k10 power_strict_increasing [of 266 330 "2 :: nat"]
    by linarith
  with e unat_of_nat_fits [OF small [OF lt]] lt show ?thesis by metis
qed

lemma unat_abs_sub:
  "(of_nat (unat (if c \<le> p then u512_sub U p c else u512_sub U c p)) :: rat) =
    \<bar>of_nat (unat c) - of_nat (unat p)\<bar>"
  by (auto simp: sub_law unat_sub word_le_nat_alt of_nat_diff simp del: of_nat_unat)

lemma scaled_difference_num:
  assumes "scaled_difference U p c = Some (d, b)"
  shows "\<exists>g > 0. of_nat (unat d) * g = \<bar>price_num c - price_num p\<bar> \<and> of_nat (unat b) * g = \<bar>price_num p\<bar>"
proof -
  define E where "E = (if sint (price_expo p) \<le> sint (price_expo c) then price_expo p else price_expo c)"
  define g :: rat where "g = 10 powi sint E"
  have g: "0 < g" by (simp add: g_def)
  obtain k m l n where p: "exponent_above (price_expo p) E = Some k"
      "checked_scaled_magnitude U (unsigned_abs (price_value p)) k = Some m"
    and c: "exponent_above (price_expo c) E = Some l"
      "checked_scaled_magnitude U (unsigned_abs (price_value c)) l = Some n"
    and r: "(if signum (price_value p) = signum (price_value c)
        then Some (if n \<le> m then u512_sub U m n else u512_sub U n m, m)
        else if u512_size \<le> unat m + unat n then None else Some (m + n, m)) = Some (d, b)"
    using assms unfolding scaled_difference_def Let_def E_def [symmetric] bind_eq_Some_conv add_law split_conv
    by blast
  have b: "b = m" using r by (simp split: if_splits)
  have m: "of_nat (unat m) * g = \<bar>price_num p\<bar>" and n: "of_nat (unat n) * g = \<bar>price_num c\<bar>"
    unfolding g_def price_num_def abs_scaled by (rule magnitude_num p c)+
  have "of_nat (unat d) * g = \<bar>price_num c - price_num p\<bar>"
  proof (cases "signum (price_value p) = signum (price_value c)")
    case True
    then have X: "(if n \<le> m then u512_sub U m n else u512_sub U n m) = d"
      using r [unfolded b] by (simp only: simp_thms if_True option.inject prod.inject)
    have "of_nat (unat d) * g = \<bar>of_nat (unat n) - of_nat (unat m)\<bar> * g"
      by (rule arg_cong [OF unat_abs_sub [of n m, unfolded X]])
    also have "\<dots> = \<bar>\<bar>price_num c\<bar> - \<bar>price_num p\<bar>\<bar>"
      by (simp only: abs_diff_scale [OF g] m n)
    finally show ?thesis using True by (simp add: price_num_def abs_diff_scaled)
  next
    case False
    then have "unat m + unat n < u512_size" "d = m + n"
      using r by (auto simp: not_le split: if_splits)
    then have "of_nat (unat d) * g = \<bar>price_num p\<bar> + \<bar>price_num c\<bar>"
      by (simp add: unat_add_fits distrib_right m n del: of_nat_unat)
    then show ?thesis using False by (simp add: price_num_def abs_diff_scaled)
  qed
  with g m b show ?thesis by blast
qed

lemma scaled_difference_Some:
  assumes "near (price_expo p) (price_expo c)"
  shows "\<exists>d b. scaled_difference U p c = Some (d, b) \<and> unat d < 2 ^ 331 \<and> unat b < 2 ^ 331"
proof -
  define E where "E = (if sint (price_expo p) \<le> sint (price_expo c) then price_expo p else price_expo c)"
  have "sint E \<le> sint (price_expo p)" "sint (price_expo p) - sint E \<le> 80"
      "sint E \<le> sint (price_expo c)" "sint (price_expo c) - sint E \<le> 80"
    using assms by (auto simp: E_def near_def)
  then obtain k m l n where p: "exponent_above (price_expo p) E = Some k"
      "checked_scaled_magnitude U (unsigned_abs (price_value p)) k = Some m" "unat m < 2 ^ 330"
    and c: "exponent_above (price_expo c) E = Some l"
      "checked_scaled_magnitude U (unsigned_abs (price_value c)) l = Some n" "unat n < 2 ^ 330"
    using magnitude_Some by meson
  have sum331: "unat m + unat n < 2 ^ 331"
  proof -
    have "unat m + unat n < 2 ^ 330 + 2 ^ 330" using p(3) c(3) by (rule add_strict_mono)
    also have "(2 :: nat) ^ 330 + 2 ^ 330 = 2 ^ 331" by simp
    finally show ?thesis .
  qed
  have "(2 :: nat) ^ 331 < u512_size" unfolding u512_size_def by (rule power_strict_increasing) simp_all
  with sum331 have fits: "unat m + unat n < u512_size" by (rule less_trans)
  have "scaled_difference U p c =
      Some (if signum (price_value p) = signum (price_value c)
            then if n \<le> m then u512_sub U m n else u512_sub U n m else m + n, m)"
    using fits unfolding scaled_difference_def Let_def E_def [symmetric]
    by (simp add: p c add_law)
  moreover have "unat (m + n) < 2 ^ 331" unfolding unat_add_fits [OF fits] by (rule sum331)
  moreover have "unat (if n \<le> m then u512_sub U m n else u512_sub U n m) < 2 ^ 331"
    using sum331 by (auto simp: sub_law unat_sub word_le_nat_alt)
  moreover have "unat m < 2 ^ 331" using sum331 by linarith
  ultimately show ?thesis by simp
qed

lemma compare_scaled_change_num:
  assumes "0 < g" "of_nat (unat d) * g = D" "of_nat (unat b) * g = B"
  shows "exceeds inclusive (dec_num t * B) D \<Longrightarrow> unwrap_or (compare_scaled_change U d b t inclusive) True"
    and "unat d < 2 ^ 384 \<Longrightarrow> unat b < 2 ^ 383 \<Longrightarrow> unat t \<le> 2 ^ 128 \<Longrightarrow>
      unwrap_or (compare_scaled_change U d b t inclusive) True \<longleftrightarrow> exceeds inclusive (dec_num t * B) D"
proof -
  note eq = compare_scaled_change_eq_Some [of d b t inclusive, unfolded exceeds_scale [OF assms, of inclusive t]]
  show "unwrap_or (compare_scaled_change U d b t inclusive) True" if "exceeds inclusive (dec_num t * B) D"
  proof (cases "compare_scaled_change U d b t inclusive")
    case (Some r)
    with eq [of r] have r by (simp only: that simp_thms)
    with Some show ?thesis by (simp add: unwrap_or_def)
  qed (simp add: unwrap_or_def)
  assume d: "unat d < 2 ^ 384" and b: "unat b < 2 ^ 383" and t: "unat t \<le> 2 ^ 128"
  have "unat d * 2 ^ 128 < 2 ^ 384 * 2 ^ 128" using d by (intro mult_strict_right_mono) simp_all
  also have "(2 :: nat) ^ 384 * 2 ^ 128 = u512_size" unfolding u512_size_def by (simp only: flip: power_add) simp
  finally have left: "unat d * 2 ^ 128 < u512_size" .
  have "unat b * unat t \<le> unat b * 2 ^ 128" using t by (rule mult_le_mono2)
  also have "\<dots> < 2 ^ 383 * 2 ^ 128" using b by (intro mult_strict_right_mono) simp_all
  also have "(2 :: nat) ^ 383 * 2 ^ 128 < u512_size" unfolding u512_size_def by simp
  finally have right: "unat b * unat t < u512_size" .
  show "unwrap_or (compare_scaled_change U d b t inclusive) True \<longleftrightarrow> exceeds inclusive (dec_num t * B) D"
    using left right eq [of "exceeds inclusive (dec_num t * B) D"] by (simp add: unwrap_or_def)
qed

lemma price_num_0: "price_num p = 0 \<longleftrightarrow> price_value p = 0"
  by (simp add: price_num_def scaled_sign)

lemma compare_relative_closed:
  assumes "moved inclusive t p c" "price_num c \<noteq> price_num p"
  shows "compare_relative_abs_change U p c t inclusive"
proof (cases "price_value p = 0")
  case True
  then show ?thesis
    using assms(2) price_num_0 [of p] price_num_0 [of c] by (simp add: compare_relative_abs_change_def)
next
  case False
  show ?thesis
  proof (cases "scaled_difference U p c")
    case None
    with False show ?thesis by (simp add: compare_relative_abs_change_def)
  next
    case (Some db)
    then obtain d b g where "db = (d, b)" and g: "0 < g"
        "of_nat (unat d) * g = \<bar>price_num c - price_num p\<bar>" "of_nat (unat b) * g = \<bar>price_num p\<bar>"
      using scaled_difference_num by (metis surj_pair)
    then show ?thesis
      using Some False compare_scaled_change_num(1) [OF g, of inclusive t] assms(1)
      by (simp add: compare_relative_abs_change_def moved_def)
  qed
qed

lemma compare_relative_exact:
  assumes "near (price_expo p) (price_expo c)" "unat t \<le> 2 ^ 128" "inclusive \<Longrightarrow> price_num c \<noteq> price_num p"
  shows "compare_relative_abs_change U p c t inclusive \<longleftrightarrow> moved inclusive t p c"
proof (cases "price_value p = 0")
  case True
  then have "price_num p = 0" by (simp add: price_num_0)
  then show ?thesis
    using True assms(3) price_num_0 [of c] by (auto simp: compare_relative_abs_change_def moved_def exceeds_def)
next
  case False
  obtain d b where db: "scaled_difference U p c = Some (d, b)" "unat d < 2 ^ 331" "unat b < 2 ^ 331"
    using scaled_difference_Some [OF assms(1)] by blast
  obtain g where g: "0 < g"
      "of_nat (unat d) * g = \<bar>price_num c - price_num p\<bar>" "of_nat (unat b) * g = \<bar>price_num p\<bar>"
    using scaled_difference_num [OF db(1)] by blast
  have mono: "(2 :: nat) ^ 331 \<le> 2 ^ k" if "331 \<le> k" for k using that by (intro power_increasing) simp_all
  have "unat d < 2 ^ 384" "unat b < 2 ^ 383" using db(2,3) mono [of 384] mono [of 383] by linarith+
  then show ?thesis
    using False db(1) compare_scaled_change_num(2) [OF g, of t inclusive] assms(2)
    by (simp add: compare_relative_abs_change_def moved_def)
qed

lemma price_sum_loop_num:
  "price_sum_loop U E s ps = Some s' \<Longrightarrow>
    of_nat (unat s') * 10 powi sint E = of_nat (unat s) * 10 powi sint E + sum_num ps"
proof (induction ps arbitrary: s)
  case (Cons p ps)
  obtain k m where p: "0 < sint (price_value p)" "exponent_above (price_expo p) E = Some k"
      "checked_scaled_magnitude U (price_value p) k = Some m"
    and s: "unat s + unat m < u512_size" "price_sum_loop U E (s + m) ps = Some s'"
    using Cons.prems by (auto simp: bind_eq_Some_conv add_law not_le split: if_splits)
  have "of_nat (unat m) * 10 powi sint E = price_num p"
    unfolding price_num_pos [OF p(1)] by (rule magnitude_num p)+
  then show ?case
    using Cons.IH [OF s(2)] by (simp add: sum_num_def unat_add_fits [OF s(1)] distrib_right del: of_nat_unat)
qed (simp add: sum_num_def)

lemma price_sum_loop_Some:
  assumes "\<forall>p \<in> set ps. 0 < sint (price_value p) \<and> sint E \<le> sint (price_expo p) \<and> sint (price_expo p) - sint E \<le> 80"
    and "unat s + length ps * 2 ^ 330 < u512_size"
  shows "\<exists>s'. price_sum_loop U E s ps = Some s' \<and> unat s' \<le> unat s + length ps * 2 ^ 330"
  using assms
proof (induction ps arbitrary: s)
  case (Cons p ps)
  obtain k m where p: "exponent_above (price_expo p) E = Some k"
      "checked_scaled_magnitude U (price_value p) k = Some m" "unat m < 2 ^ 330"
    using magnitude_Some [of E "price_expo p" "price_value p"] Cons.prems(1) by auto
  have len: "length (p # ps) * (2 :: nat) ^ 330 = 2 ^ 330 + length ps * 2 ^ 330" by simp
  have fits: "unat s + unat m < u512_size" using Cons.prems(2) p(3) unfolding len by linarith
  have le: "unat (s + m) + length ps * 2 ^ 330 \<le> unat s + length (p # ps) * 2 ^ 330"
    using p(3) unfolding unat_add_fits [OF fits] len by linarith
  then obtain s' where s': "price_sum_loop U E (s + m) ps = Some s'"
      "unat s' \<le> unat (s + m) + length ps * 2 ^ 330"
    using Cons.IH [of "s + m"] Cons.prems by auto
  have "price_sum_loop U E s (p # ps) = Some s'"
    using Cons.prems(1) p fits s'(1) by (simp add: add_law)
  moreover have "unat s' \<le> unat s + length (p # ps) * 2 ^ 330" using s'(2) le by (rule order_trans)
  ultimately show ?case by blast
qed simp

lemma relative_sum_closed:
  assumes "sum_moved t ps cs"
  shows "relative_sum_change_exceeds U ps cs t"
proof (cases "min_exponent (map price_expo (ps @ cs))")
  case None
  then have "ps = []" "cs = []" by (simp_all add: min_exponent_eq_None)
  with assms show ?thesis by (simp add: sum_moved_def sum_num_def)
next
  case (Some E)
  show ?thesis
  proof (cases "checked_price_sum U ps E = None \<or> checked_price_sum U cs E = None")
    case True
    with Some show ?thesis by (auto simp: relative_sum_change_exceeds_def split: option.splits)
  next
    case False
    then obtain p c where pc: "checked_price_sum U ps E = Some p" "checked_price_sum U cs E = Some c" by auto
    define g :: rat where "g = 10 powi sint E"
    have g: "0 < g" by (simp add: g_def)
    have p: "of_nat (unat p) * g = sum_num ps" and c: "of_nat (unat c) * g = sum_num cs"
      using pc [unfolded checked_price_sum_def, THEN price_sum_loop_num] by (simp_all add: g_def del: of_nat_unat)
    let ?d = "if c \<le> p then u512_sub U p c else u512_sub U c p"
    have d: "of_nat (unat ?d) * g = \<bar>sum_num cs - sum_num ps\<bar>"
      unfolding unat_abs_sub abs_diff_scale [OF g] p c by (rule refl)
    have "p = 0 \<Longrightarrow> c \<noteq> 0"
      using assms p c by (auto simp: sum_moved_def)
    moreover have "unwrap_or (compare_scaled_change U ?d p t False) True"
      by (rule compare_scaled_change_num(1) [OF g d p]) (use assms in \<open>simp add: sum_moved_def exceeds_def\<close>)
    ultimately show ?thesis using Some pc by (simp add: relative_sum_change_exceeds_def Let_def)
  qed
qed

lemma relative_sum_exact:
  assumes pos: "\<forall>p \<in> set (ps @ cs). 0 < sint (price_value p)"
    and near: "\<forall>p \<in> set (ps @ cs). \<forall>q \<in> set (ps @ cs). near (price_expo p) (price_expo q)"
    and len: "length ps \<le> 2 ^ 32" "length cs \<le> 2 ^ 32" and t: "unat t \<le> 2 ^ 128"
  shows "relative_sum_change_exceeds U ps cs t \<longleftrightarrow> sum_moved t ps cs"
proof (cases "min_exponent (map price_expo (ps @ cs))")
  case None
  then have "ps = []" "cs = []" by (simp_all add: min_exponent_eq_None)
  then show ?thesis by (simp add: relative_sum_change_exceeds_def sum_moved_def sum_num_def)
next
  case (Some E)
  have above: "\<forall>p \<in> set (ps @ cs). 0 < sint (price_value p) \<and> sint E \<le> sint (price_expo p) \<and>
      sint (price_expo p) - sint E \<le> 80"
  proof (intro ballI conjI)
    fix p assume p: "p \<in> set (ps @ cs)"
    then show "0 < sint (price_value p)" using pos by blast
    obtain q where "q \<in> set (ps @ cs)" "price_expo q = E" using min_exponent_eq_Some [OF Some] by auto
    with near p have "near (price_expo p) E" by blast
    then show "sint (price_expo p) - sint E \<le> 80" by (simp add: near_def)
    show "sint E \<le> sint (price_expo p)" using min_exponent_eq_Some [OF Some] p by auto
  qed
  have bound: "\<exists>s. checked_price_sum U xs E = Some s \<and> unat s \<le> 2 ^ 362"
    if xs: "set xs \<subseteq> set (ps @ cs)" "length xs \<le> 2 ^ 32" for xs
  proof -
    have "length xs * 2 ^ 330 \<le> 2 ^ 32 * 2 ^ 330" using xs(2) by (rule mult_le_mono1)
    also have "(2 :: nat) ^ 32 * 2 ^ 330 = 2 ^ 362" by (simp only: flip: power_add) simp
    finally have le: "length xs * 2 ^ 330 \<le> 2 ^ 362" .
    moreover have "(2 :: nat) ^ 362 < u512_size" unfolding u512_size_def by (rule power_strict_increasing) simp_all
    ultimately have "unat (0 :: u512) + length xs * 2 ^ 330 < u512_size" by simp
    then obtain s where "price_sum_loop U E 0 xs = Some s" "unat s \<le> unat (0 :: u512) + length xs * 2 ^ 330"
      using price_sum_loop_Some [of xs E 0] above xs(1) by blast
    with le show ?thesis by (auto simp: checked_price_sum_def)
  qed
  obtain p c where pc: "checked_price_sum U ps E = Some p" "unat p \<le> 2 ^ 362"
      "checked_price_sum U cs E = Some c" "unat c \<le> 2 ^ 362"
    using bound [of ps] bound [of cs] len by auto
  define g :: rat where "g = 10 powi sint E"
  have g: "0 < g" by (simp add: g_def)
  have p: "of_nat (unat p) * g = sum_num ps" and c: "of_nat (unat c) * g = sum_num cs"
    using pc(1,3) [unfolded checked_price_sum_def, THEN price_sum_loop_num] by (simp_all add: g_def del: of_nat_unat)
  let ?d = "if c \<le> p then u512_sub U p c else u512_sub U c p"
  have d: "of_nat (unat ?d) * g = \<bar>sum_num cs - sum_num ps\<bar>"
    unfolding unat_abs_sub abs_diff_scale [OF g] p c by (rule refl)
  have "unat ?d \<le> 2 ^ 362" using pc(2,4) by (auto simp: sub_law unat_sub word_le_nat_alt)
  moreover have "(2 :: nat) ^ 362 < 2 ^ 383" "(2 :: nat) ^ 362 < 2 ^ 384" by (intro power_strict_increasing; simp)+
  ultimately have lt: "unat ?d < 2 ^ 384" "unat p < 2 ^ 383" using pc(2) by linarith+
  have "unwrap_or (compare_scaled_change U ?d p t False) True \<longleftrightarrow> sum_moved t ps cs"
    unfolding compare_scaled_change_num(2) [OF g d p lt t] by (simp add: sum_moved_def exceeds_def)
  moreover have "c \<noteq> 0 \<longleftrightarrow> sum_moved t ps cs" if "p = 0"
  proof -
    have "sum_num ps = 0" using p that by simp
    moreover have "sum_num cs = 0 \<longleftrightarrow> c = 0" using g by (simp add: unsigned_eq_0_iff flip: c)
    ultimately show ?thesis by (simp add: sum_moved_def)
  qed
  ultimately show ?thesis using Some pc(1,3) by (simp add: relative_sum_change_exceeds_def Let_def)
qed

lemma classify_step_change_cmp:
  "classify_step_change U p c t =
    (if price_num p < price_num c then if compare_relative_abs_change U p c t True then Increase else Minor
     else if price_num c < price_num p then if compare_relative_abs_change U p c t True then Decrease else Minor
     else Minor)"
  by (simp add: classify_step_change_def compare_scaled_cmp relative_abs_change_at_least_def cmp_def
    flip: price_num_def)

lemma classify_closed:
  assumes "moved True t p c"
  shows "price_num p < price_num c \<Longrightarrow> classify_step_change U p c t = Increase"
    and "price_num c < price_num p \<Longrightarrow> classify_step_change U p c t = Decrease"
  using compare_relative_closed [OF assms] by (auto simp: classify_step_change_cmp)

lemma classify_exact:
  assumes "near (price_expo p) (price_expo c)" "unat t \<le> 2 ^ 128"
  shows "classify_step_change U p c t = Increase \<longleftrightarrow> price_num p < price_num c \<and> moved True t p c"
    and "classify_step_change U p c t = Decrease \<longleftrightarrow> price_num c < price_num p \<and> moved True t p c"
  using compare_relative_exact [OF assms, of True] by (auto simp: classify_step_change_cmp)

end

end
