(* ===== verification/Oracle_Rule.thy ===== *)
theory Oracle_Rule
  imports Oracle_Change
begin

text \<open>
  The histories and the rules of the circuit breakers
  (\<^verbatim>\<open>src/contract/proxy-oracle/kernel/src/proxy/circuit_breaker/ring_buffer.rs\<close>, \<^verbatim>\<open>rule.rs\<close>, \<^verbatim>\<open>rule/\<close> and
  \<^verbatim>\<open>observation.rs\<close>).

  \<^item> A ring buffer holds at most its capacity of entries, oldest first.
  \<^item> Lengths and positions are natural numbers: they are bounded by the 32-bit capacity, and where a
    product of two 32-bit numbers would not fit into a 32-bit \<^verbatim>\<open>usize\<close> the code answers as it does for an
    offset beyond the history.
  \<^item> The predicate \<open>violates\<close> states over the rational numbers which histories a rule is meant to refuse.
\<close>

section \<open>Ring buffers\<close>

record 'a RingBuffer =
  rb_capacity :: u32
  rb_entries :: "'a list"

datatype RingBufferParseError = EntriesExceedCapacity

definition rb_try_from :: "'a RingBuffer \<Rightarrow> ('a RingBuffer, RingBufferParseError) result" where
  "rb_try_from v =
     (if unat (rb_capacity v) < length (rb_entries v) then Err EntriesExceedCapacity else Ok v)"

definition rb_new :: "u32 \<Rightarrow> 'a RingBuffer" where
  "rb_new c = \<lparr>rb_capacity = c, rb_entries = []\<rparr>"

definition rb_push :: "'a \<Rightarrow> 'a RingBuffer \<Rightarrow> 'a RingBuffer" where
  "rb_push item r =
     (if unat (rb_capacity r) = 0 then r
      else
        let kept = (if length (rb_entries r) = unat (rb_capacity r) then tl (rb_entries r) else rb_entries r)
        in r\<lparr>rb_entries := kept @ [item]\<rparr>)"

definition rb_set_capacity :: "u32 \<Rightarrow> 'a RingBuffer \<Rightarrow> 'a RingBuffer" where
  "rb_set_capacity c r =
     (let excess = length (rb_entries r) - unat c
      in r\<lparr>rb_capacity := c, rb_entries := (tl ^^ excess) (rb_entries r)\<rparr>)"

definition rb_clear :: "'a RingBuffer \<Rightarrow> 'a RingBuffer" where
  "rb_clear r = r\<lparr>rb_entries := []\<rparr>"

definition rb_get :: "'a RingBuffer \<Rightarrow> nat \<Rightarrow> 'a option" where
  "rb_get r i = (if i < length (rb_entries r) then Some (rb_entries r ! i) else None)"

definition rb_last :: "'a RingBuffer \<Rightarrow> 'a option" where
  "rb_last r = (if rb_entries r = [] then None else Some (last (rb_entries r)))"

definition rb_len :: "'a RingBuffer \<Rightarrow> nat" where
  "rb_len r = length (rb_entries r)"

definition rb_is_empty :: "'a RingBuffer \<Rightarrow> bool" where
  "rb_is_empty r \<longleftrightarrow> rb_entries r = []"

section \<open>Rules\<close>

record Observation =
  obs_price :: Price
  observed_at_ns :: Nanoseconds

record StepwiseChange =
  sc_max_relative_change :: DecimalRepr

record MonotonicRun =
  max_streak :: u32
  min_relative_step_change :: DecimalRepr

record WindowedChangeDelta =
  window_len :: u32
  lookback_windows :: u32
  max_relative_mean_change :: DecimalRepr

record CumulativeChange =
  cc_baseline :: Price
  cc_max_relative_change :: DecimalRepr

datatype CircuitBreaker =
    BreakStepwise StepwiseChange
  | BreakMonotonic MonotonicRun
  | BreakWindowed WindowedChangeDelta
  | BreakCumulative CumulativeChange

definition stepwise_should_trip :: "U512_ops \<Rightarrow> StepwiseChange \<Rightarrow> Observation RingBuffer \<Rightarrow> bool" where
  "stepwise_should_trip U rule history =
     (if rb_len history < 2 then False
      else
        case rb_get history (rb_len history - 2) of
          None \<Rightarrow> False
        | Some previous \<Rightarrow>
            (case rb_get history (rb_len history - 1) of
               None \<Rightarrow> False
             | Some current \<Rightarrow>
                 relative_abs_change_exceeds U (obs_price previous) (obs_price current)
                   (sc_max_relative_change rule)))"

primrec run_loop ::
  "U512_ops \<Rightarrow> MonotonicRun \<Rightarrow> Observation RingBuffer \<Rightarrow> nat \<Rightarrow> StepChange option \<Rightarrow> u32 \<Rightarrow> bool" where
  "run_loop U rule history 0 direction streak = False"
| "run_loop U rule history (Suc i) direction streak =
     (case (rb_get history i, rb_get history (Suc i)) of
        (Some previous, Some current) \<Rightarrow>
          let step_change =
                classify_step_change U (obs_price previous) (obs_price current) (min_relative_step_change rule)
          in if step_change = Minor then False
             else if (case direction of Some d \<Rightarrow> d \<noteq> step_change | None \<Rightarrow> False) then False
             else
               let streak' = saturating_add streak 1
               in if max_streak rule \<le> streak' then True
                  else run_loop U rule history i (Some step_change) streak'
      | _ \<Rightarrow> False)"

definition monotonic_should_trip :: "U512_ops \<Rightarrow> MonotonicRun \<Rightarrow> Observation RingBuffer \<Rightarrow> bool" where
  "monotonic_should_trip U rule history =
     (if max_streak rule = 0 \<or> rb_len history < 2 then False
      else run_loop U rule history (rb_len history - 1) None 0)"

definition windowed_should_trip :: "U512_ops \<Rightarrow> WindowedChangeDelta \<Rightarrow> Observation RingBuffer \<Rightarrow> bool" where
  "windowed_should_trip U rule history =
     (let window = unat (window_len rule); lookback = unat (lookback_windows rule) in
      if window < 2 \<or> lookback = 0 then False
      else if rb_len history < window then False
      else
        let current_start = rb_len history - window; lookback_offset = lookback * window in
        if current_start < lookback_offset then False
        else
          let previous_start = current_start - lookback_offset;
              previous = map obs_price (take window (drop previous_start (rb_entries history)));
              current = map obs_price (take window (drop current_start (rb_entries history)))
          in relative_sum_change_exceeds U previous current (max_relative_mean_change rule))"

definition cumulative_should_trip :: "U512_ops \<Rightarrow> CumulativeChange \<Rightarrow> Observation RingBuffer \<Rightarrow> bool" where
  "cumulative_should_trip U rule history =
     (case rb_last history of
        None \<Rightarrow> False
      | Some observation \<Rightarrow>
          relative_abs_change_exceeds U (cc_baseline rule) (obs_price observation) (cc_max_relative_change rule))"

fun should_trip :: "U512_ops \<Rightarrow> CircuitBreaker \<Rightarrow> Observation RingBuffer \<Rightarrow> bool" where
  "should_trip U (BreakStepwise rule) history = stepwise_should_trip U rule history"
| "should_trip U (BreakMonotonic rule) history = monotonic_should_trip U rule history"
| "should_trip U (BreakWindowed rule) history = windowed_should_trip U rule history"
| "should_trip U (BreakCumulative rule) history = cumulative_should_trip U rule history"

definition valid_threshold :: "DecimalRepr \<Rightarrow> bool" where
  "valid_threshold t \<longleftrightarrow> t \<noteq> decimal_ZERO \<and> t \<le> decimal_ONE"

fun is_valid_for :: "CircuitBreaker \<Rightarrow> Nanoseconds \<Rightarrow> u32 \<Rightarrow> bool" where
  "is_valid_for (BreakStepwise rule) interval history_len \<longleftrightarrow>
     2 \<le> history_len \<and> valid_threshold (sc_max_relative_change rule)"
| "is_valid_for (BreakMonotonic rule) interval history_len \<longleftrightarrow>
     0 < max_streak rule \<and> max_streak rule < history_len \<and> interval = 0 \<and>
     valid_threshold (min_relative_step_change rule)"
| "is_valid_for (BreakWindowed rule) interval history_len \<longleftrightarrow>
     2 \<le> window_len rule \<and> 0 < lookback_windows rule \<and>
     (case Option.bind (checked_add (lookback_windows rule) 1) (\<lambda>windows. checked_mul (window_len rule) windows) of
        Some required \<Rightarrow> required \<le> history_len
      | None \<Rightarrow> False) \<and>
     valid_threshold (max_relative_mean_change rule)"
| "is_valid_for (BreakCumulative rule) interval history_len \<longleftrightarrow>
     1 \<le> history_len \<and> has_strictly_positive_confidence_interval (cc_baseline rule) \<and>
     valid_threshold (cc_max_relative_change rule)"

section \<open>What the buffer keeps\<close>

lemma tl_funpow: "(tl ^^ n) xs = drop n xs"
  by (induction n arbitrary: xs) (simp_all add: drop_Suc funpow_Suc_right del: funpow.simps)

lemma rb_capacity_simps [simp]:
  "rb_capacity (rb_new c) = c" "rb_capacity (rb_push x r) = rb_capacity r"
  "rb_capacity (rb_set_capacity c r) = c" "rb_entries (rb_new c) = []"
  by (simp_all add: rb_new_def rb_push_def rb_set_capacity_def Let_def)

lemma rb_entries_push:
  "length (rb_entries r) \<le> unat (rb_capacity r) \<Longrightarrow>
    rb_entries (rb_push x r) =
      drop (Suc (length (rb_entries r)) - unat (rb_capacity r)) (rb_entries r @ [x])"
  by (auto simp: rb_push_def Let_def drop_Suc tl_append split: list.splits)

lemma rb_entries_set_capacity:
  "rb_entries (rb_set_capacity c r) = drop (length (rb_entries r) - unat c) (rb_entries r)"
  by (simp add: rb_set_capacity_def Let_def tl_funpow)

lemma rb_try_from_Ok: "rb_try_from r = Ok r \<longleftrightarrow> length (rb_entries r) \<le> unat (rb_capacity r)"
  by (simp add: rb_try_from_def not_less)

lemma newest_append:
  "drop (length (drop (length ys - c) ys) + length xs - c) (drop (length ys - c) ys @ xs) =
    drop (length ys + length xs - c) (ys @ xs)"
proof (cases "length ys \<le> c")
  case False
  then have "drop (length ys - c) ys @ xs = drop (length ys - c) (ys @ xs)" by simp
  with False show ?thesis by (simp only: drop_drop) (simp add: add.commute)
qed simp

lemma rb_capacity_pushes: "rb_capacity (fold rb_push xs r) = rb_capacity r"
  by (induction xs arbitrary: r) simp_all

lemma rb_entries_pushes:
  "length (rb_entries r) \<le> unat (rb_capacity r) \<Longrightarrow>
    rb_entries (fold rb_push xs r) =
      drop (length (rb_entries r) + length xs - unat (rb_capacity r)) (rb_entries r @ xs)"
proof (induction xs arbitrary: r)
  case (Cons x xs)
  let ?r = "rb_push x r"
  have es: "rb_entries ?r = drop (length (rb_entries r @ [x]) - unat (rb_capacity r)) (rb_entries r @ [x])"
    using rb_entries_push [OF Cons.prems, of x] by simp
  then have "length (rb_entries ?r) \<le> unat (rb_capacity ?r)" by simp
  from Cons.IH [OF this] show ?case
    unfolding es rb_capacity_simps newest_append by simp
qed simp

section \<open>What the rules refuse\<close>

definition rises :: "DecimalRepr \<Rightarrow> Price \<Rightarrow> Price \<Rightarrow> bool" where
  "rises t p c \<longleftrightarrow> price_num p < price_num c \<and> moved True t p c"

definition falls :: "DecimalRepr \<Rightarrow> Price \<Rightarrow> Price \<Rightarrow> bool" where
  "falls t p c \<longleftrightarrow> price_num c < price_num p \<and> moved True t p c"

text \<open>The last \<open>s\<close> steps of a list of prices.\<close>

definition last_steps :: "nat \<Rightarrow> (Price \<Rightarrow> Price \<Rightarrow> bool) \<Rightarrow> Price list \<Rightarrow> bool" where
  "last_steps s f ps \<longleftrightarrow> s < length ps \<and> (\<forall>k < s. f (ps ! (length ps - 2 - k)) (ps ! (length ps - 1 - k)))"

fun violates :: "CircuitBreaker \<Rightarrow> Price list \<Rightarrow> bool" where
  "violates (BreakStepwise rule) ps \<longleftrightarrow> last_steps 1 (moved False (sc_max_relative_change rule)) ps"
| "violates (BreakMonotonic rule) ps \<longleftrightarrow>
     0 < max_streak rule \<and>
     (last_steps (unat (max_streak rule)) (rises (min_relative_step_change rule)) ps \<or>
      last_steps (unat (max_streak rule)) (falls (min_relative_step_change rule)) ps)"
| "violates (BreakWindowed rule) ps \<longleftrightarrow>
     (let w = unat (window_len rule); l = unat (lookback_windows rule); n = length ps in
      2 \<le> w \<and> 0 < l \<and> (l + 1) * w \<le> n \<and>
      sum_moved (max_relative_mean_change rule) (take w (drop (n - (l + 1) * w) ps)) (drop (n - w) ps))"
| "violates (BreakCumulative rule) ps \<longleftrightarrow>
     ps \<noteq> [] \<and> moved False (cc_max_relative_change rule) (cc_baseline rule) (last ps)"

fun rule_threshold :: "CircuitBreaker \<Rightarrow> DecimalRepr" where
  "rule_threshold (BreakStepwise rule) = sc_max_relative_change rule"
| "rule_threshold (BreakMonotonic rule) = min_relative_step_change rule"
| "rule_threshold (BreakWindowed rule) = max_relative_mean_change rule"
| "rule_threshold (BreakCumulative rule) = cc_max_relative_change rule"

fun rule_prices :: "CircuitBreaker \<Rightarrow> Price list \<Rightarrow> Price set" where
  "rule_prices (BreakCumulative rule) ps = insert (cc_baseline rule) (set ps)"
| "rule_prices _ ps = set ps"

text \<open>The circumstances under which the 512-bit arithmetic of a rule is exact.\<close>

definition representable :: "CircuitBreaker \<Rightarrow> Price list \<Rightarrow> bool" where
  "representable b ps \<longleftrightarrow>
     unat (rule_threshold b) \<le> 2 ^ 128 \<and>
     (\<forall>p \<in> rule_prices b ps. \<forall>q \<in> rule_prices b ps. near (price_expo p) (price_expo q)) \<and>
     (\<forall>p \<in> set ps. 0 < sint (price_value p))"

lemma moved_False_differs: "moved False t p c \<Longrightarrow> price_num c \<noteq> price_num p"
proof
  assume "moved False t p c" "price_num c = price_num p"
  moreover have "0 \<le> dec_num t * \<bar>price_num p\<bar>" by (simp add: dec_num_def del: of_nat_unat)
  ultimately show False by (simp add: moved_def exceeds_def)
qed

lemma ex_step_change: "(\<exists>d. d \<noteq> Minor \<and> R d) \<longleftrightarrow> R Increase \<or> R Decrease"
  by (metis StepChange.distinct(1,5) StepChange.exhaust)

lemma all_less_pos: "0 < (n :: nat) \<Longrightarrow> (\<forall>k < n. P k) \<longleftrightarrow> P 0 \<and> (\<forall>k < n - 1. P (Suc k))"
  by (cases n) (simp_all add: All_less_Suc2)

context u512_spec
begin

text \<open>The loop over the steps, newest first, finds a run in one direction.\<close>

lemma run_loop_iff:
  assumes "i < length (rb_entries h)" "streak < max_streak rule" "direction \<noteq> Some Minor"
  shows "run_loop U rule h i direction streak \<longleftrightarrow>
    unat (max_streak rule) - unat streak \<le> i \<and>
    (\<exists>d. d \<noteq> Minor \<and> (direction = None \<or> direction = Some d) \<and>
      (\<forall>k < unat (max_streak rule) - unat streak.
        classify_step_change U (obs_price (rb_entries h ! (i - 1 - k))) (obs_price (rb_entries h ! (i - k)))
          (min_relative_step_change rule) = d))"
  using assms
proof (induction i arbitrary: direction streak)
  case 0
  then show ?case by (simp add: word_less_nat_alt)
next
  case (Suc i)
  let ?c = "\<lambda>k. classify_step_change U (obs_price (rb_entries h ! (Suc i - 1 - k)))
    (obs_price (rb_entries h ! (Suc i - k))) (min_relative_step_change rule)"
  let ?r = "unat (max_streak rule) - unat streak"
  have streak: "unat (saturating_add streak 1) = unat streak + 1"
    using Suc.prems(2) u32_bound [of "max_streak rule"] by (simp add: word_nat)
  have r: "0 < ?r" using Suc.prems(2) by (simp add: word_less_nat_alt)
  have all: "(\<forall>k < ?r. ?c k = d) \<longleftrightarrow> ?c 0 = d \<and> (\<forall>k < ?r - 1. ?c (Suc k) = d)" for d
    by (rule all_less_pos [OF r])
  show ?case
  proof (cases "?c 0 = Minor \<or> (direction \<noteq> None \<and> direction \<noteq> Some (?c 0))")
    case True
    then have "\<not> run_loop U rule h (Suc i) direction streak"
      using Suc.prems(1) by (auto simp: rb_get_def Let_def split: option.splits)
    with True all show ?thesis by auto
  next
    case ok: False
    show ?thesis
    proof (cases "max_streak rule \<le> saturating_add streak 1")
      case True
      then have "?r = 1" using r streak by (simp add: word_le_nat_alt)
      with True ok Suc.prems(1) show ?thesis
        by (auto simp: rb_get_def Let_def split: option.splits)
    next
      case False
      then have "saturating_add streak 1 < max_streak rule" by simp
      moreover have "unat (max_streak rule) - unat (saturating_add streak 1) = ?r - 1"
        using streak by simp
      moreover have "run_loop U rule h (Suc i) direction streak =
          run_loop U rule h i (Some (?c 0)) (saturating_add streak 1)"
        using False ok Suc.prems(1) by (auto simp: rb_get_def Let_def split: option.splits)
      ultimately show ?thesis
        using Suc.IH [of "saturating_add streak 1" "Some (?c 0)"] Suc.prems(1) ok r all by auto
    qed
  qed
qed

lemma stepwise_should_trip_iff:
  "stepwise_should_trip U rule h \<longleftrightarrow>
    last_steps 1 (\<lambda>p c. relative_abs_change_exceeds U p c (sc_max_relative_change rule))
      (map obs_price (rb_entries h))"
  by (auto simp: stepwise_should_trip_def last_steps_def rb_len_def rb_get_def not_less)

lemma monotonic_should_trip_iff:
  "monotonic_should_trip U rule h \<longleftrightarrow>
    0 < max_streak rule \<and>
    (\<exists>d. d \<noteq> Minor \<and>
      last_steps (unat (max_streak rule)) (\<lambda>p c. classify_step_change U p c (min_relative_step_change rule) = d)
        (map obs_price (rb_entries h)))"
proof (cases "max_streak rule = 0 \<or> length (rb_entries h) < 2")
  case True
  then have "\<not> (0 < max_streak rule \<and> unat (max_streak rule) < length (rb_entries h))"
    by (auto simp: word_less_nat_alt)
  with True show ?thesis by (auto simp: monotonic_should_trip_def last_steps_def rb_len_def)
next
  case False
  let ?n = "length (rb_entries h)" and ?s = "unat (max_streak rule)"
  have pos: "0 < max_streak rule" "?n - 1 < ?n" "?s \<le> ?n - 1 \<longleftrightarrow> ?s < ?n"
    using False by (auto simp: word_greater_zero_iff)
  have "?s < ?n \<Longrightarrow> k < ?s \<Longrightarrow>
      map obs_price (rb_entries h) ! (length (map obs_price (rb_entries h)) - 2 - k) =
        obs_price (rb_entries h ! (?n - 1 - 1 - k)) \<and>
      map obs_price (rb_entries h) ! (length (map obs_price (rb_entries h)) - 1 - k) =
        obs_price (rb_entries h ! (?n - 1 - k))" for k
    by simp
  then show ?thesis
    using False pos run_loop_iff [OF pos(2,1), of None]
    by (simp add: monotonic_should_trip_def last_steps_def rb_len_def) blast
qed

lemma windowed_should_trip_iff:
  "windowed_should_trip U rule h \<longleftrightarrow>
    (let w = unat (window_len rule); l = unat (lookback_windows rule);
         ps = map obs_price (rb_entries h); n = length ps in
     2 \<le> w \<and> 0 < l \<and> (l + 1) * w \<le> n \<and>
     relative_sum_change_exceeds U (take w (drop (n - (l + 1) * w) ps)) (drop (n - w) ps)
       (max_relative_mean_change rule))"
  by (auto simp: windowed_should_trip_def Let_def rb_len_def not_less take_map drop_map algebra_simps)

lemma last_steps_mono:
  "last_steps s f ps \<Longrightarrow> (\<And>p c. f p c \<Longrightarrow> g p c) \<Longrightarrow> last_steps s g ps"
  by (auto simp: last_steps_def)

lemma last_steps_cong:
  assumes "\<And>p c. p \<in> set ps \<Longrightarrow> c \<in> set ps \<Longrightarrow> f p c \<longleftrightarrow> g p c"
  shows "last_steps s f ps \<longleftrightarrow> last_steps s g ps"
  unfolding last_steps_def by (intro conj_cong refl all_cong assms nth_mem) auto

lemma should_trip_closed:
  assumes "violates b (map obs_price (rb_entries h))"
  shows "should_trip U b h"
proof (cases b)
  case (BreakStepwise rule)
  then show ?thesis
    using assms compare_relative_closed moved_False_differs
    by (auto simp: stepwise_should_trip_iff relative_abs_change_exceeds_def intro: last_steps_mono)
next
  case (BreakMonotonic rule)
  let ?run = "\<lambda>f. last_steps (unat (max_streak rule)) f (map obs_price (rb_entries h))"
  let ?t = "min_relative_step_change rule"
  have "?run (rises ?t) \<Longrightarrow> ?run (\<lambda>p c. classify_step_change U p c ?t = Increase)"
    "?run (falls ?t) \<Longrightarrow> ?run (\<lambda>p c. classify_step_change U p c ?t = Decrease)"
    by (erule last_steps_mono, simp add: classify_closed rises_def falls_def)+
  then show ?thesis
    using assms BreakMonotonic by (auto simp: monotonic_should_trip_iff)
next
  case (BreakWindowed rule)
  then show ?thesis using assms by (auto simp: windowed_should_trip_iff Let_def intro: relative_sum_closed)
next
  case (BreakCumulative rule)
  then show ?thesis
    using assms compare_relative_closed moved_False_differs
    by (auto simp: cumulative_should_trip_def rb_last_def relative_abs_change_exceeds_def last_map)
qed

lemma should_trip_exact:
  assumes "representable b (map obs_price (rb_entries h))" "length (rb_entries h) \<le> 2 ^ 32"
  shows "should_trip U b h \<longleftrightarrow> violates b (map obs_price (rb_entries h))"
proof (cases b)
  case (BreakStepwise rule)
  then have "should_trip U b h \<longleftrightarrow> last_steps 1 (moved False (sc_max_relative_change rule)) (map obs_price (rb_entries h))"
    unfolding BreakStepwise should_trip.simps stepwise_should_trip_iff relative_abs_change_exceeds_def
    using assms(1) BreakStepwise by (intro last_steps_cong compare_relative_exact) (auto simp: representable_def)
  with BreakStepwise show ?thesis by simp
next
  case (BreakMonotonic rule)
  let ?ps = "map obs_price (rb_entries h)" and ?t = "min_relative_step_change rule"
  let ?run = "\<lambda>d. last_steps (unat (max_streak rule)) (\<lambda>p c. classify_step_change U p c ?t = d) ?ps"
  have "?run Increase \<longleftrightarrow> last_steps (unat (max_streak rule)) (rises ?t) ?ps"
    "?run Decrease \<longleftrightarrow> last_steps (unat (max_streak rule)) (falls ?t) ?ps"
    unfolding rises_def falls_def
    by (intro last_steps_cong classify_exact; use assms(1) BreakMonotonic in \<open>auto simp: representable_def\<close>)+
  moreover have "(\<exists>d. d \<noteq> Minor \<and> ?run d) \<longleftrightarrow> ?run Increase \<or> ?run Decrease"
    by (rule ex_step_change)
  ultimately show ?thesis using BreakMonotonic by (simp add: monotonic_should_trip_iff)
next
  case (BreakWindowed rule)
  let ?ps = "map obs_price (rb_entries h)"
  have "relative_sum_change_exceeds U (take w (drop i ?ps)) (drop j ?ps) (max_relative_mean_change rule) \<longleftrightarrow>
      sum_moved (max_relative_mean_change rule) (take w (drop i ?ps)) (drop j ?ps)" for w i j
    by (rule relative_sum_exact)
      (use assms BreakWindowed in \<open>auto simp: representable_def dest!: in_set_takeD in_set_dropD\<close>)
  then show ?thesis using BreakWindowed by (simp add: windowed_should_trip_iff Let_def)
next
  case (BreakCumulative rule)
  show ?thesis
  proof (cases "rb_entries h = []")
    case False
    then have "last (rb_entries h) \<in> set (rb_entries h)" by simp
    then show ?thesis
      using compare_relative_exact [of "cc_baseline rule" "obs_price (last (rb_entries h))" "cc_max_relative_change rule" False]
        assms(1) BreakCumulative False
      by (auto simp: cumulative_should_trip_def rb_last_def relative_abs_change_exceeds_def last_map representable_def)
  qed (use BreakCumulative in \<open>simp add: cumulative_should_trip_def rb_last_def\<close>)
qed

end

lemma valid_threshold_le: "valid_threshold t \<Longrightarrow> unat t \<le> 2 ^ 128"
  using unat_u512_p2 [of 128] by (simp add: valid_threshold_def decimal_ONE_def word_le_nat_alt)

lemma rule_threshold_le: "is_valid_for b interval n \<Longrightarrow> unat (rule_threshold b) \<le> 2 ^ 128"
  by (cases b) (auto intro: valid_threshold_le [simplified])

section \<open>Properties\<close>

text \<open>
  C36. A ring buffer keeps the newest entries. After any sequence of pushes into a new buffer it holds the
  last \<open>c\<close> pushed items in order, where \<open>c\<close> is its capacity; changing the capacity keeps the newest ones
  that fit; the newest item is the last one; and every such buffer is accepted when it is read back from
  storage.
\<close>

theorem ring_buffer_newest:
  "rb_entries (fold rb_push xs (rb_new c)) = drop (length xs - unat c) xs \<and>
   rb_entries (rb_set_capacity c' (fold rb_push xs (rb_new c))) = drop (length xs - min (unat c) (unat c')) xs \<and>
   rb_last (fold rb_push xs (rb_new c)) = (if xs = [] \<or> c = 0 then None else Some (last xs)) \<and>
   rb_try_from (fold rb_push xs (rb_new c)) = Ok (fold rb_push xs (rb_new c)) \<and>
   rb_try_from (rb_set_capacity c' (fold rb_push xs (rb_new c))) =
     Ok (rb_set_capacity c' (fold rb_push xs (rb_new c)))"
proof -
  have es: "rb_entries (fold rb_push xs (rb_new c)) = drop (length xs - unat c) xs"
    using rb_entries_pushes [of "rb_new c" xs] by simp
  have cap: "rb_capacity (fold rb_push xs (rb_new c)) = c"
    by (simp add: rb_capacity_pushes)
  have es': "rb_entries (rb_set_capacity c' (fold rb_push xs (rb_new c))) =
      drop (length xs - min (unat c) (unat c')) xs"
  proof -
    have "length xs - (length xs - unat c) - unat c' + (length xs - unat c) = length xs - min (unat c) (unat c')"
      by (auto simp: min_def)
    then show ?thesis by (simp only: rb_entries_set_capacity es drop_drop length_drop)
  qed
  have "rb_last (fold rb_push xs (rb_new c)) = (if xs = [] \<or> c = 0 then None else Some (last xs))"
  proof -
    have "drop (length xs - unat c) xs = [] \<longleftrightarrow> xs = [] \<or> c = 0"
      using unat_gt_0 [of c] by (cases xs) auto
    moreover have "drop (length xs - unat c) xs \<noteq> [] \<Longrightarrow> last (drop (length xs - unat c) xs) = last xs"
      by (simp add: last_drop)
    ultimately show ?thesis by (simp add: rb_last_def es)
  qed
  moreover have "length xs - (length xs - unat c) \<le> unat c"
      "length xs - (length xs - min (unat c) (unat c')) \<le> unat c'" by linarith+
  ultimately show ?thesis by (simp add: es es' rb_try_from_Ok cap)
qed

text \<open>
  C35. The circuit breaker rules are exact and fail closed. Over the rational numbers the prices and the
  thresholds stand for: a stepwise rule trips when the last price moved by more than the threshold
  relative to the one before, a run rule when the last \<open>max_streak\<close> steps all rose, or all fell, by at
  least the threshold, a window rule when the sums of the two windows differ by more than the threshold,
  and a cumulative rule when the last price differs from the baseline by more than the threshold. A rule
  trips on every such history, whatever overflows; it trips on no other when it passes validation, the
  prices are positive and their exponents are at most 80 apart.
\<close>

theorem breaker_rules_exact:
  assumes "u512_spec U" and "rb_try_from h = Ok h"
  shows "(violates b (map obs_price (rb_entries h)) \<longrightarrow> should_trip U b h) \<and>
    (is_valid_for b interval (rb_capacity h) \<and>
     (\<forall>p \<in> set (map obs_price (rb_entries h)). 0 < sint (price_value p)) \<and>
     (\<forall>p \<in> rule_prices b (map obs_price (rb_entries h)). \<forall>q \<in> rule_prices b (map obs_price (rb_entries h)).
        \<bar>sint (price_expo p) - sint (price_expo q)\<bar> \<le> 80) \<longrightarrow>
     (should_trip U b h \<longleftrightarrow> violates b (map obs_price (rb_entries h))))"
proof (intro conjI impI)
  show "should_trip U b h" if "violates b (map obs_price (rb_entries h))"
    using that by (rule u512_spec.should_trip_closed [OF assms(1)])
  assume valid: "is_valid_for b interval (rb_capacity h) \<and>
     (\<forall>p \<in> set (map obs_price (rb_entries h)). 0 < sint (price_value p)) \<and>
     (\<forall>p \<in> rule_prices b (map obs_price (rb_entries h)). \<forall>q \<in> rule_prices b (map obs_price (rb_entries h)).
        \<bar>sint (price_expo p) - sint (price_expo q)\<bar> \<le> 80)"
  then have "representable b (map obs_price (rb_entries h))"
    unfolding representable_def near_def using rule_threshold_le by blast
  moreover have "length (rb_entries h) \<le> 2 ^ 32"
    using assms(2) u32_bound [of "rb_capacity h"] by (simp add: rb_try_from_Ok)
  ultimately show "should_trip U b h \<longleftrightarrow> violates b (map obs_price (rb_entries h))"
    by (rule u512_spec.should_trip_exact [OF assms(1)])
qed

definition demo_observation :: "i64 \<Rightarrow> Observation" where
  "demo_observation v =
     \<lparr>obs_price = \<lparr>price_value = v, price_conf = 0, price_expo = 0, price_publish_time_ns = 0\<rparr>,
      observed_at_ns = 0\<rparr>"

definition demo_history :: "Observation RingBuffer" where
  "demo_history = \<lparr>rb_capacity = 5, rb_entries = [demo_observation 100, demo_observation 120]\<rparr>"

theorem breaker_rules_exact_witness:
  "should_trip word_u512 (BreakStepwise \<lparr>sc_max_relative_change = 2 ^ 124\<rparr>) demo_history \<and>
   \<not> should_trip word_u512 (BreakStepwise \<lparr>sc_max_relative_change = 2 ^ 126\<rparr>) demo_history"
proof
  note demo = demo_history_def demo_observation_def
  have num: "price_num \<lparr>price_value = v, price_conf = 0, price_expo = 0, price_publish_time_ns = 0\<rparr> = of_int (sint v)"
    for v
    by (simp add: price_num_def scaled_def del: of_int_sint)
  have dec: "dec_num (2 ^ k) = 2 ^ k / 2 ^ 128" if "k < 512" for k
    using unat_u512_p2 [OF that] by (simp add: dec_num_def del: of_nat_unat)
  have dec: "dec_num 21267647932558653966460912964485513216 = 1 / 16" "dec_num 85070591730234615865843651857942052864 = 1 / 4"
    using dec [of 124] dec [of 126] by simp_all
  have ok: "rb_try_from demo_history = Ok demo_history" by (simp add: rb_try_from_def demo)
  have "violates (BreakStepwise \<lparr>sc_max_relative_change = 2 ^ 124\<rparr>) (map obs_price (rb_entries demo_history))"
    by (simp add: demo last_steps_def moved_def exceeds_def num dec del: of_int_sint)
  then show "should_trip word_u512 (BreakStepwise \<lparr>sc_max_relative_change = 2 ^ 124\<rparr>) demo_history"
    using breaker_rules_exact [OF words512.u512_spec_axioms ok] by blast
  have "is_valid_for (BreakStepwise \<lparr>sc_max_relative_change = 2 ^ 126\<rparr>) 0 (rb_capacity demo_history)"
    using unat_u512_p2 [of 128] unat_u512_p2 [of 126]
    by (simp add: demo valid_threshold_def decimal_ZERO_def decimal_ONE_def word_le_nat_alt)
  moreover have "\<not> violates (BreakStepwise \<lparr>sc_max_relative_change = 2 ^ 126\<rparr>) (map obs_price (rb_entries demo_history))"
    by (simp add: demo last_steps_def moved_def exceeds_def num dec del: of_int_sint)
  ultimately show "\<not> should_trip word_u512 (BreakStepwise \<lparr>sc_max_relative_change = 2 ^ 126\<rparr>) demo_history"
    using breaker_rules_exact [OF words512.u512_spec_axioms ok,
        of "BreakStepwise \<lparr>sc_max_relative_change = 2 ^ 126\<rparr>" 0]
    by (simp add: demo)
qed

end
