(* ===== verification/Oracle_Breaker.thy ===== *)
theory Oracle_Breaker
  imports Oracle_Rule
begin

text \<open>
  The circuit breaker set of the proxy oracle
  (\<^verbatim>\<open>src/contract/proxy-oracle/kernel/src/proxy/circuit_breaker/set.rs\<close>, \<^verbatim>\<open>status.rs\<close> and \<^verbatim>\<open>error.rs\<close>).

  \<^item> The B-tree map of breakers is the list of its entries, which the standard library keeps sorted by key.
  \<^item> The set is modelled with the closed enumeration of rules, as the contracts store it.
  \<^item> A method with \<^verbatim>\<open>&mut self\<close> returns its result together with the set after it.
  \<^item> Account identifiers and the metadata of a manual trip are only passed on into events.
\<close>

section \<open>Data\<close>

datatype CircuitBreakerStatus =
    ArmedAfter (timestamp_ns: Nanoseconds)
  | StatusTripped (tripped_at_ns: Nanoseconds) (price_update: Observation)

record CircuitBreakerState =
  state_breaker :: CircuitBreaker
  is_enforced :: bool
  breaker_status :: CircuitBreakerStatus

record CircuitBreakerSetConfig =
  config_sample_interval_ns :: Nanoseconds
  config_history_len :: u32

type_synonym AccountId = string

datatype CircuitBreakerEvent =
    ManualTripSet bool AccountId "8 word list option"
  | ConfigSet CircuitBreakerSetConfig
  | Added u32 CircuitBreaker
  | Removed u32
  | EnforcementSet u32 bool
  | Rearmed u32 Nanoseconds
  | Tripped u32 Nanoseconds Observation bool

record 'a CircuitBreakerOutcome =
  outcome_value :: 'a
  outcome_events :: "CircuitBreakerEvent list"

datatype PriceBlockedReason = ManuallyTripped | BreakerTripped "u32 list"

type_synonym PriceAcceptance = "(Price, PriceBlockedReason) result"

record CircuitBreakerSet =
  sample_interval_ns :: Nanoseconds
  accepted_history :: "Observation RingBuffer"
  observed_history :: "Observation RingBuffer"
  breaker_next_id :: u32
  is_manually_tripped :: bool
  set_breakers :: "(u32 \<times> CircuitBreakerState) list"

datatype CircuitBreakerSetParseError =
    BreakerIdOutOfRange | HistoryCapacityMismatch | ParseInvalidConfiguration

datatype CircuitBreakerError =
    TooManyBreakers
  | BreakerNotFound u32
  | UnexpectedBreakerId u32 u32
  | InvalidPrice
  | InvalidConfiguration

datatype BreakerErrorCode =
    CodeTooManyBreakers | CodeBreakerNotFound | CodeUnexpectedBreakerId | CodeInvalidPrice | CodeInvalidConfiguration

fun breaker_error_code :: "CircuitBreakerError \<Rightarrow> BreakerErrorCode" where
  "breaker_error_code TooManyBreakers = CodeTooManyBreakers"
| "breaker_error_code (BreakerNotFound _) = CodeBreakerNotFound"
| "breaker_error_code (UnexpectedBreakerId _ _) = CodeUnexpectedBreakerId"
| "breaker_error_code InvalidPrice = CodeInvalidPrice"
| "breaker_error_code InvalidConfiguration = CodeInvalidConfiguration"

section \<open>The map of breakers\<close>

fun bt_insert :: "u32 \<Rightarrow> 'v \<Rightarrow> (u32 \<times> 'v) list \<Rightarrow> (u32 \<times> 'v) list" where
  "bt_insert k v [] = [(k, v)]"
| "bt_insert k v ((k', v') # m) =
     (if k < k' then (k, v) # (k', v') # m
      else if k = k' then (k, v) # m
      else (k', v') # bt_insert k v m)"

definition bt_remove :: "u32 \<Rightarrow> (u32 \<times> 'v) list \<Rightarrow> (u32 \<times> 'v) list" where
  "bt_remove k m = filter (\<lambda>(k', v). k' \<noteq> k) m"

definition bt_modify :: "u32 \<Rightarrow> ('v \<Rightarrow> 'v) \<Rightarrow> (u32 \<times> 'v) list \<Rightarrow> (u32 \<times> 'v) list" where
  "bt_modify k f m = map (\<lambda>(k', v). (k', if k' = k then f v else v)) m"

section \<open>Breaker states\<close>

definition state_new :: "CircuitBreaker \<Rightarrow> CircuitBreakerState" where
  "state_new b = \<lparr>state_breaker = b, is_enforced = True, breaker_status = ArmedAfter 0\<rparr>"

definition state_is_blocking :: "CircuitBreakerState \<Rightarrow> bool" where
  "state_is_blocking s \<longleftrightarrow>
     is_enforced s \<and> (case breaker_status s of StatusTripped _ _ \<Rightarrow> True | ArmedAfter _ \<Rightarrow> False)"

definition is_armed_at :: "Nanoseconds \<Rightarrow> CircuitBreakerState \<Rightarrow> bool" where
  "is_armed_at now s \<longleftrightarrow> (case breaker_status s of ArmedAfter t \<Rightarrow> t \<le> now | StatusTripped _ _ \<Rightarrow> False)"

record ProposedPriceAcceptance =
  proposed_update :: Observation
  proposed_history :: "Observation RingBuffer"

definition proposed_new :: "Observation RingBuffer \<Rightarrow> Observation \<Rightarrow> ProposedPriceAcceptance" where
  "proposed_new history update = \<lparr>proposed_update = update, proposed_history = rb_push update history\<rparr>"

definition trip ::
  "u32 \<Rightarrow> Observation \<Rightarrow> Nanoseconds \<Rightarrow> CircuitBreakerState \<Rightarrow> CircuitBreakerEvent \<times> CircuitBreakerState" where
  "trip breaker_id update now s =
     (Tripped breaker_id now update (is_enforced s), s\<lparr>breaker_status := StatusTripped now update\<rparr>)"

definition apply_armed_transition ::
  "U512_ops \<Rightarrow> u32 \<Rightarrow> ProposedPriceAcceptance \<Rightarrow> Nanoseconds \<Rightarrow> CircuitBreakerState \<Rightarrow>
    CircuitBreakerEvent option \<times> CircuitBreakerState" where
  "apply_armed_transition U breaker_id proposed now s =
     (if is_armed_at now s \<and> should_trip U (state_breaker s) (proposed_history proposed)
      then let (event, s') = trip breaker_id (proposed_update proposed) now s in (Some event, s')
      else (None, s))"

section \<open>The set\<close>

definition set_new :: "CircuitBreakerSetConfig \<Rightarrow> CircuitBreakerSet" where
  "set_new config =
     \<lparr>sample_interval_ns = config_sample_interval_ns config,
      accepted_history = rb_new (config_history_len config),
      observed_history = rb_new (config_history_len config),
      breaker_next_id = 0, is_manually_tripped = False, set_breakers = []\<rparr>"

definition set_empty :: CircuitBreakerSet where
  "set_empty = set_new \<lparr>config_sample_interval_ns = 0, config_history_len = 0\<rparr>"

definition validate_structure :: "CircuitBreakerSet \<Rightarrow> (unit, CircuitBreakerSetParseError) result" where
  "validate_structure v =
     (if (case set_breakers v of [] \<Rightarrow> False | _ \<Rightarrow> breaker_next_id v \<le> fst (last (set_breakers v)))
      then Err BreakerIdOutOfRange
      else if rb_capacity (accepted_history v) \<noteq> rb_capacity (observed_history v)
      then Err HistoryCapacityMismatch
      else Ok ())"

definition set_try_from :: "CircuitBreakerSet \<Rightarrow> (CircuitBreakerSet, CircuitBreakerSetParseError) result" where
  "set_try_from v = and_then (validate_structure v) (\<lambda>_. Ok v)"

definition outcome_with :: "CircuitBreakerEvent list \<Rightarrow> unit CircuitBreakerOutcome" where
  "outcome_with events = \<lparr>outcome_value = (), outcome_events = events\<rparr>"

definition set_manual_trip ::
  "bool \<Rightarrow> AccountId \<Rightarrow> 8 word list option \<Rightarrow> CircuitBreakerSet \<Rightarrow> unit CircuitBreakerOutcome \<times> CircuitBreakerSet" where
  "set_manual_trip b actor metadata s =
     (if is_manually_tripped s = b then (outcome_with [], s)
      else (outcome_with [ManualTripSet b actor metadata], s\<lparr>is_manually_tripped := b\<rparr>))"

definition add_state ::
  "u32 \<Rightarrow> CircuitBreaker \<Rightarrow> CircuitBreakerSet \<Rightarrow> (unit, CircuitBreakerError) result \<times> CircuitBreakerSet" where
  "add_state breaker_id b s =
     (if breaker_id \<noteq> breaker_next_id s
      then (Err (UnexpectedBreakerId (breaker_next_id s) breaker_id), s)
      else
        case checked_add (breaker_next_id s) 1 of
          None \<Rightarrow> (Err TooManyBreakers, s)
        | Some n \<Rightarrow>
            (Ok (), s\<lparr>breaker_next_id := n, set_breakers := bt_insert breaker_id (state_new b) (set_breakers s)\<rparr>))"

definition set_remove ::
  "u32 \<Rightarrow> CircuitBreakerSet \<Rightarrow> (unit CircuitBreakerOutcome, CircuitBreakerError) result \<times> CircuitBreakerSet" where
  "set_remove breaker_id s =
     (case map_of (set_breakers s) breaker_id of
        None \<Rightarrow> (Err (BreakerNotFound breaker_id), s)
      | Some _ \<Rightarrow>
          (Ok (outcome_with [Removed breaker_id]), s\<lparr>set_breakers := bt_remove breaker_id (set_breakers s)\<rparr>))"

definition current_config :: "CircuitBreakerSet \<Rightarrow> CircuitBreakerSetConfig" where
  "current_config s =
     \<lparr>config_sample_interval_ns = sample_interval_ns s, config_history_len = rb_capacity (accepted_history s)\<rparr>"

definition breakers_valid_for :: "CircuitBreakerSetConfig \<Rightarrow> CircuitBreakerSet \<Rightarrow> bool" where
  "breakers_valid_for config s \<longleftrightarrow>
     list_all (\<lambda>(_, b). is_valid_for (state_breaker b) (config_sample_interval_ns config) (config_history_len config))
       (set_breakers s)"

definition set_validate :: "CircuitBreakerSet \<Rightarrow> (unit, CircuitBreakerSetParseError) result" where
  "set_validate s =
     (let config = current_config s in
      if rb_capacity (observed_history s) \<noteq> config_history_len config \<or> \<not> breakers_valid_for config s
      then Err ParseInvalidConfiguration
      else Ok ())"

definition set_config ::
  "CircuitBreakerSetConfig \<Rightarrow> CircuitBreakerSet \<Rightarrow>
    (unit CircuitBreakerOutcome, CircuitBreakerError) result \<times> CircuitBreakerSet" where
  "set_config config s =
     (if \<not> breakers_valid_for config s then (Err InvalidConfiguration, s)
      else if config = current_config s then (Ok (outcome_with []), s)
      else
        (Ok (outcome_with [ConfigSet config]),
         s\<lparr>sample_interval_ns := config_sample_interval_ns config,
           accepted_history := rb_set_capacity (config_history_len config) (accepted_history s),
           observed_history := rb_set_capacity (config_history_len config) (observed_history s)\<rparr>))"

definition set_add ::
  "u32 \<Rightarrow> CircuitBreaker \<Rightarrow> CircuitBreakerSet \<Rightarrow>
    (unit CircuitBreakerOutcome, CircuitBreakerError) result \<times> CircuitBreakerSet" where
  "set_add breaker_id b s =
     (let config = current_config s in
      if \<not> is_valid_for b (config_sample_interval_ns config) (config_history_len config)
      then (Err InvalidConfiguration, s)
      else
        case add_state breaker_id b s of
          (r, s') \<Rightarrow> (and_then r (\<lambda>_. Ok (outcome_with [Added breaker_id b])), s'))"

definition set_enforced ::
  "u32 \<Rightarrow> bool \<Rightarrow> CircuitBreakerSet \<Rightarrow>
    (unit CircuitBreakerOutcome, CircuitBreakerError) result \<times> CircuitBreakerSet" where
  "set_enforced breaker_id e s =
     (case map_of (set_breakers s) breaker_id of
        None \<Rightarrow> (Err (BreakerNotFound breaker_id), s)
      | Some b \<Rightarrow>
          if is_enforced b = e then (Ok (outcome_with []), s)
          else
            (Ok (outcome_with [EnforcementSet breaker_id e]),
             s\<lparr>set_breakers := bt_modify breaker_id (\<lambda>b. b\<lparr>is_enforced := e\<rparr>) (set_breakers s)\<rparr>))"

definition set_rearm ::
  "u32 \<Rightarrow> Nanoseconds \<Rightarrow> CircuitBreakerSet \<Rightarrow>
    (unit CircuitBreakerOutcome, CircuitBreakerError) result \<times> CircuitBreakerSet" where
  "set_rearm breaker_id armed_after_ns s =
     (case map_of (set_breakers s) breaker_id of
        None \<Rightarrow> (Err (BreakerNotFound breaker_id), s)
      | Some b \<Rightarrow>
          if breaker_status b = ArmedAfter armed_after_ns then (Ok (outcome_with []), s)
          else
            (Ok (outcome_with [Rearmed breaker_id armed_after_ns]),
             s\<lparr>set_breakers :=
                 bt_modify breaker_id (\<lambda>b. b\<lparr>breaker_status := ArmedAfter armed_after_ns\<rparr>) (set_breakers s)\<rparr>))"

definition blocking_breaker_ids :: "CircuitBreakerSet \<Rightarrow> u32 list" where
  "blocking_breaker_ids s =
     List.map_filter (\<lambda>(i, b). if state_is_blocking b then Some i else None) (set_breakers s)"

definition set_is_blocking :: "CircuitBreakerSet \<Rightarrow> bool" where
  "set_is_blocking s \<longleftrightarrow>
     is_manually_tripped s \<or> list_ex (\<lambda>(_, b). state_is_blocking b) (set_breakers s)"

definition blocking_reason :: "CircuitBreakerSet \<Rightarrow> PriceBlockedReason option" where
  "blocking_reason s =
     (if is_manually_tripped s then Some ManuallyTripped
      else if blocking_breaker_ids s \<noteq> [] then Some (BreakerTripped (blocking_breaker_ids s))
      else None)"

definition should_persist_sample :: "Nanoseconds \<Rightarrow> CircuitBreakerSet \<Rightarrow> bool" where
  "should_persist_sample now s =
     (case rb_last (observed_history s) of
        None \<Rightarrow> True
      | Some newest \<Rightarrow> sample_interval_ns s \<le> saturating_sub now (observed_at_ns newest))"

definition history_should_advance :: "Price \<Rightarrow> Observation RingBuffer \<Rightarrow> bool" where
  "history_should_advance p history =
     (case rb_last history of
        None \<Rightarrow> True
      | Some newest \<Rightarrow> price_publish_time_ns (obs_price newest) < price_publish_time_ns p)"

primrec transitions_loop ::
  "U512_ops \<Rightarrow> ProposedPriceAcceptance \<Rightarrow> Nanoseconds \<Rightarrow> (u32 \<times> CircuitBreakerState) list \<Rightarrow>
    CircuitBreakerEvent list \<times> u32 list \<times> (u32 \<times> CircuitBreakerState) list" where
  "transitions_loop U proposed now [] = ([], [], [])"
| "transitions_loop U proposed now (entry # rest) =
     (let (breaker_id, b) = entry;
          (event, b') = apply_armed_transition U breaker_id proposed now b;
          (events, ids, rest') = transitions_loop U proposed now rest
      in (case event of Some e \<Rightarrow> e # events | None \<Rightarrow> events,
          if state_is_blocking b' then breaker_id # ids else ids,
          (breaker_id, b') # rest'))"

definition apply_armed_breaker_transitions ::
  "U512_ops \<Rightarrow> ProposedPriceAcceptance \<Rightarrow> Nanoseconds \<Rightarrow> CircuitBreakerSet \<Rightarrow>
    PriceAcceptance CircuitBreakerOutcome \<times> CircuitBreakerSet" where
  "apply_armed_breaker_transitions U proposed now s =
     (let (events, ids, breakers) = transitions_loop U proposed now (set_breakers s);
          v = (if ids = [] then Ok (obs_price (proposed_update proposed)) else Err (BreakerTripped ids))
      in (\<lparr>outcome_value = v, outcome_events = events\<rparr>, s\<lparr>set_breakers := breakers\<rparr>))"

definition try_accept_price ::
  "U512_ops \<Rightarrow> Price \<Rightarrow> Nanoseconds \<Rightarrow> CircuitBreakerSet \<Rightarrow>
    (PriceAcceptance CircuitBreakerOutcome, CircuitBreakerError) result \<times> CircuitBreakerSet" where
  "try_accept_price U p now s =
     (if \<not> has_strictly_positive_confidence_interval p then (Err InvalidPrice, s)
      else
        let update = \<lparr>obs_price = p, observed_at_ns = now\<rparr>;
            accepted_should_advance = history_should_advance p (accepted_history s);
            persist = should_persist_sample now s;
            observed_should_advance = history_should_advance p (observed_history s);
            s1 = (if persist \<and> observed_should_advance
                  then s\<lparr>observed_history := rb_push update (observed_history s)\<rparr> else s)
        in
        if is_manually_tripped s1
        then (Ok \<lparr>outcome_value = Err ManuallyTripped, outcome_events = []\<rparr>, s1)
        else if blocking_breaker_ids s1 \<noteq> []
        then (Ok \<lparr>outcome_value = Err (BreakerTripped (blocking_breaker_ids s1)), outcome_events = []\<rparr>, s1)
        else
          let proposed = proposed_new (accepted_history s1) update;
              (acceptance, s2) = apply_armed_breaker_transitions U proposed now s1;
              accepted = (case outcome_value acceptance of Ok _ \<Rightarrow> True | _ \<Rightarrow> False);
              s3 = (if accepted \<and> persist \<and> accepted_should_advance
                    then s2\<lparr>accepted_history := proposed_history proposed\<rparr> else s2)
          in (Ok acceptance, s3))"

section \<open>Well-formed sets\<close>

definition published :: "Observation \<Rightarrow> Nanoseconds" where
  "published obs = price_publish_time_ns (obs_price obs)"

definition history_ok :: "Observation RingBuffer \<Rightarrow> bool" where
  "history_ok h \<longleftrightarrow>
     length (rb_entries h) \<le> unat (rb_capacity h) \<and>
     sorted_wrt (\<lambda>a b. published a < published b) (rb_entries h) \<and>
     (\<forall>obs \<in> set (rb_entries h). has_strictly_positive_confidence_interval (obs_price obs))"

definition set_ok :: "CircuitBreakerSet \<Rightarrow> bool" where
  "set_ok s \<longleftrightarrow>
     sorted_wrt (<) (map fst (set_breakers s)) \<and>
     (\<forall>k \<in> fst ` set (set_breakers s). k < breaker_next_id s) \<and>
     rb_capacity (observed_history s) = rb_capacity (accepted_history s) \<and>
     history_ok (accepted_history s) \<and> history_ok (observed_history s) \<and>
     breakers_valid_for (current_config s) s"

inductive set_step :: "U512_ops \<Rightarrow> CircuitBreakerSet \<Rightarrow> CircuitBreakerSet \<Rightarrow> bool" for U where
  step_manual: "set_step U s (snd (set_manual_trip b actor metadata s))"
| step_add: "set_step U s (snd (set_add i b s))"
| step_remove: "set_step U s (snd (set_remove i s))"
| step_enforced: "set_step U s (snd (set_enforced i e s))"
| step_rearm: "set_step U s (snd (set_rearm i t s))"
| step_config: "set_step U s (snd (set_config config s))"
| step_accept: "set_step U s (snd (try_accept_price U p now s))"

lemma sorted_wrt_drop: "sorted_wrt R xs \<Longrightarrow> sorted_wrt R (drop n xs)"
  by (metis append_take_drop_id sorted_wrt_append)

lemma history_ok_new: "history_ok (rb_new c)"
  by (simp add: history_ok_def)

lemma history_ok_set_capacity: "history_ok h \<Longrightarrow> history_ok (rb_set_capacity c h)"
  by (auto simp: history_ok_def rb_entries_set_capacity sorted_wrt_drop dest: in_set_dropD)

lemma history_ok_push:
  assumes "history_ok h" "has_strictly_positive_confidence_interval (obs_price obs)"
    "history_should_advance (obs_price obs) h"
  shows "history_ok (rb_push obs h)"
proof -
  have before: "\<forall>x \<in> set (rb_entries h). published x < published obs"
  proof (cases "rb_entries h" rule: rev_cases)
    case (snoc ys y)
    then have "published y < published obs"
      using assms(3) by (simp add: history_should_advance_def rb_last_def published_def)
    moreover have "\<forall>x \<in> set ys. published x < published y"
      using assms(1) snoc by (auto simp: history_ok_def sorted_wrt_append)
    ultimately show ?thesis using snoc by auto
  qed simp
  have es: "rb_entries (rb_push obs h) =
      drop (Suc (length (rb_entries h)) - unat (rb_capacity h)) (rb_entries h @ [obs])"
    using assms(1) by (simp add: history_ok_def rb_entries_push)
  have "length (rb_entries (rb_push obs h)) \<le> unat (rb_capacity (rb_push obs h))" unfolding es by simp
  moreover have "sorted_wrt (\<lambda>a b. published a < published b) (rb_entries (rb_push obs h))"
    unfolding es using assms(1) before
    by (intro sorted_wrt_drop) (simp add: history_ok_def sorted_wrt_append)
  moreover have "set (rb_entries (rb_push obs h)) \<subseteq> insert obs (set (rb_entries h))"
    unfolding es using set_drop_subset by fastforce
  ultimately show ?thesis using assms(1,2) unfolding history_ok_def by blast
qed

lemma bt_insert_above:
  "\<forall>k' \<in> fst ` set m. k' < k \<Longrightarrow> bt_insert k v m = m @ [(k, v)]"
  by (induction m) auto

lemma fst_bt_modify [simp]: "map fst (bt_modify k f m) = map fst m"
  by (auto simp: bt_modify_def)

lemma fst_transitions_loop [simp]: "map fst (snd (snd (transitions_loop U pr now bs))) = map fst bs"
  by (induction bs) (auto simp: Let_def split: prod.splits)

text \<open>The transitions are those of the single breakers, in the order of the identifiers.\<close>

lemma transitions_loop_eq:
  "transitions_loop U pr now bs =
    (List.map_filter (\<lambda>(i, b). fst (apply_armed_transition U i pr now b)) bs,
     map fst (filter (\<lambda>(i, b). state_is_blocking (snd (apply_armed_transition U i pr now b))) bs),
     map (\<lambda>(i, b). (i, snd (apply_armed_transition U i pr now b))) bs)"
  by (induction bs) (auto simp: Let_def List.map_filter_def split: prod.splits option.splits)

lemma apply_armed_transition_fields:
  "state_breaker (snd (apply_armed_transition U i pr now b)) = state_breaker b"
  "is_enforced (snd (apply_armed_transition U i pr now b)) = is_enforced b"
  by (simp_all add: apply_armed_transition_def trip_def)

lemma blocking_breaker_ids_eq:
  "blocking_breaker_ids s = map fst (filter (\<lambda>(i, b). state_is_blocking b) (set_breakers s))"
  unfolding blocking_breaker_ids_def
  by (induction "set_breakers s" arbitrary: s) (auto simp: List.map_filter_def comp_def split_def)

lemma blocking_breaker_ids_observed [simp]:
  "blocking_breaker_ids (s\<lparr>observed_history := h\<rparr>) = blocking_breaker_ids s"
  by (simp add: blocking_breaker_ids_def)

lemma set_is_blocking_iff: "set_is_blocking s \<longleftrightarrow> is_manually_tripped s \<or> blocking_breaker_ids s \<noteq> []"
  by (auto simp: set_is_blocking_def blocking_breaker_ids_eq list_ex_iff filter_empty_conv)

section \<open>The decision on a price\<close>

text \<open>The set after the observation is recorded, and the history a rule is asked about.\<close>

definition observed_after :: "Price \<Rightarrow> Nanoseconds \<Rightarrow> CircuitBreakerSet \<Rightarrow> CircuitBreakerSet" where
  "observed_after p now s =
     (if should_persist_sample now s \<and> history_should_advance p (observed_history s)
      then s\<lparr>observed_history := rb_push \<lparr>obs_price = p, observed_at_ns = now\<rparr> (observed_history s)\<rparr> else s)"

definition candidate_history :: "Price \<Rightarrow> Nanoseconds \<Rightarrow> CircuitBreakerSet \<Rightarrow> Observation RingBuffer" where
  "candidate_history p now s = rb_push \<lparr>obs_price = p, observed_at_ns = now\<rparr> (accepted_history s)"

definition trips_now :: "U512_ops \<Rightarrow> Price \<Rightarrow> Nanoseconds \<Rightarrow> CircuitBreakerSet \<Rightarrow> CircuitBreakerState \<Rightarrow> bool" where
  "trips_now U p now s b \<longleftrightarrow> is_armed_at now b \<and> should_trip U (state_breaker b) (candidate_history p now s)"

definition breakers_after ::
  "U512_ops \<Rightarrow> Price \<Rightarrow> Nanoseconds \<Rightarrow> CircuitBreakerSet \<Rightarrow> (u32 \<times> CircuitBreakerState) list" where
  "breakers_after U p now s =
     map (\<lambda>(i, b). (i, if trips_now U p now s b
        then b\<lparr>breaker_status := StatusTripped now \<lparr>obs_price = p, observed_at_ns = now\<rparr>\<rparr> else b)) (set_breakers s)"

definition tripping_ids :: "U512_ops \<Rightarrow> Price \<Rightarrow> Nanoseconds \<Rightarrow> CircuitBreakerSet \<Rightarrow> u32 list" where
  "tripping_ids U p now s = map fst (filter (\<lambda>(i, b). is_enforced b \<and> trips_now U p now s b) (set_breakers s))"

definition trip_events :: "U512_ops \<Rightarrow> Price \<Rightarrow> Nanoseconds \<Rightarrow> CircuitBreakerSet \<Rightarrow> CircuitBreakerEvent list" where
  "trip_events U p now s =
     map (\<lambda>(i, b). Tripped i now \<lparr>obs_price = p, observed_at_ns = now\<rparr> (is_enforced b))
       (filter (\<lambda>(i, b). trips_now U p now s b) (set_breakers s))"

lemma observed_after_fields [simp]:
  "set_breakers (observed_after p now s) = set_breakers s"
  "accepted_history (observed_after p now s) = accepted_history s"
  "is_manually_tripped (observed_after p now s) = is_manually_tripped s"
  "breaker_next_id (observed_after p now s) = breaker_next_id s"
  "sample_interval_ns (observed_after p now s) = sample_interval_ns s"
  "blocking_breaker_ids (observed_after p now s) = blocking_breaker_ids s"
  "rb_capacity (observed_history (observed_after p now s)) = rb_capacity (observed_history s)"
  by (simp_all add: observed_after_def blocking_breaker_ids_def)

lemma proposed_new_fields [simp]:
  "proposed_update (proposed_new h update) = update" "proposed_history (proposed_new h update) = rb_push update h"
  by (simp_all add: proposed_new_def)

lemma try_accept_price_invalid:
  "\<not> has_strictly_positive_confidence_interval p \<Longrightarrow> try_accept_price U p now s = (Err InvalidPrice, s)"
  by (simp add: try_accept_price_def)

lemma try_accept_price_blocked:
  assumes "has_strictly_positive_confidence_interval p" "blocking_reason s = Some r"
  shows "try_accept_price U p now s =
    (Ok \<lparr>outcome_value = Err r, outcome_events = []\<rparr>, observed_after p now s)"
proof -
  have "try_accept_price U p now s =
    (let s1 = observed_after p now s in
     if is_manually_tripped s1 then (Ok \<lparr>outcome_value = Err ManuallyTripped, outcome_events = []\<rparr>, s1)
     else (Ok \<lparr>outcome_value = Err (BreakerTripped (blocking_breaker_ids s1)), outcome_events = []\<rparr>, s1))"
    using assms by (auto simp: try_accept_price_def Let_def blocking_reason_def observed_after_def split: if_splits)
  then show ?thesis using assms(2) by (auto simp: Let_def blocking_reason_def split: if_splits)
qed

lemma apply_armed_transition_eq:
  "apply_armed_transition U i (proposed_new (accepted_history s) \<lparr>obs_price = p, observed_at_ns = now\<rparr>) now b =
    (if trips_now U p now s b
     then (Some (Tripped i now \<lparr>obs_price = p, observed_at_ns = now\<rparr> (is_enforced b)),
       b\<lparr>breaker_status := StatusTripped now \<lparr>obs_price = p, observed_at_ns = now\<rparr>\<rparr>)
     else (None, b))"
  by (simp add: apply_armed_transition_def trips_now_def candidate_history_def proposed_new_def trip_def)

lemma transitions_decided:
  assumes "blocking_breaker_ids s = []"
  shows "transitions_loop U (proposed_new (accepted_history s) \<lparr>obs_price = p, observed_at_ns = now\<rparr>) now (set_breakers s) =
    (trip_events U p now s, tripping_ids U p now s, breakers_after U p now s)"
proof -
  have none: "\<forall>(i, b) \<in> set bs. \<not> state_is_blocking b \<Longrightarrow>
      transitions_loop U (proposed_new (accepted_history s) \<lparr>obs_price = p, observed_at_ns = now\<rparr>) now bs =
        (map (\<lambda>(i, b). Tripped i now \<lparr>obs_price = p, observed_at_ns = now\<rparr> (is_enforced b))
           (filter (\<lambda>(i, b). trips_now U p now s b) bs),
         map fst (filter (\<lambda>(i, b). is_enforced b \<and> trips_now U p now s b) bs),
         map (\<lambda>(i, b). (i, if trips_now U p now s b
           then b\<lparr>breaker_status := StatusTripped now \<lparr>obs_price = p, observed_at_ns = now\<rparr>\<rparr> else b)) bs)" for bs
    by (induction bs)
      (auto simp: Let_def apply_armed_transition_eq state_is_blocking_def split: prod.splits if_splits)
  show ?thesis
    unfolding trip_events_def tripping_ids_def breakers_after_def
    by (rule none) (use assms in \<open>auto simp: blocking_breaker_ids_eq filter_empty_conv\<close>)
qed

lemma try_accept_price_decided:
  assumes "has_strictly_positive_confidence_interval p" "blocking_reason s = None"
  shows "try_accept_price U p now s =
    (Ok \<lparr>outcome_value = (if tripping_ids U p now s = [] then Ok p else Err (BreakerTripped (tripping_ids U p now s))),
         outcome_events = trip_events U p now s\<rparr>,
     (observed_after p now s)\<lparr>set_breakers := breakers_after U p now s,
       accepted_history :=
         if tripping_ids U p now s = [] \<and> should_persist_sample now s \<and> history_should_advance p (accepted_history s)
         then candidate_history p now s else accepted_history s\<rparr>)"
proof -
  have free: "\<not> is_manually_tripped s" "blocking_breaker_ids s = []"
    using assms(2) by (auto simp: blocking_reason_def split: if_splits)
  let ?pr = "proposed_new (accepted_history s) \<lparr>obs_price = p, observed_at_ns = now\<rparr>"
  have "try_accept_price U p now s =
    (let (acceptance, s2) = apply_armed_breaker_transitions U ?pr now (observed_after p now s);
         accepted = (case outcome_value acceptance of Ok _ \<Rightarrow> True | _ \<Rightarrow> False)
     in (Ok acceptance,
       if accepted \<and> should_persist_sample now s \<and> history_should_advance p (accepted_history s)
       then s2\<lparr>accepted_history := proposed_history ?pr\<rparr> else s2))"
    using assms(1) free
    by (simp add: try_accept_price_def Let_def observed_after_def split: prod.split)
  also have "apply_armed_breaker_transitions U ?pr now (observed_after p now s) =
    (\<lparr>outcome_value = (if tripping_ids U p now s = [] then Ok p else Err (BreakerTripped (tripping_ids U p now s))),
      outcome_events = trip_events U p now s\<rparr>, (observed_after p now s)\<lparr>set_breakers := breakers_after U p now s\<rparr>)"
    by (simp add: apply_armed_breaker_transitions_def transitions_decided [OF free(2)] Let_def)
  finally show ?thesis by (simp add: Let_def candidate_history_def)
qed

lemma blocking_after:
  assumes "blocking_reason s = None"
  shows "blocking_breaker_ids (t\<lparr>set_breakers := breakers_after U p now s, accepted_history := h\<rparr>) = tripping_ids U p now s"
proof -
  have "\<forall>(i, b) \<in> set (set_breakers s). \<not> state_is_blocking b"
    using assms by (auto simp: blocking_reason_def blocking_breaker_ids_eq filter_empty_conv split: if_splits)
  then show ?thesis
    unfolding blocking_breaker_ids_eq tripping_ids_def breakers_after_def
    by (auto simp: filter_map comp_def split_def state_is_blocking_def intro!: filter_cong arg_cong [where f = "map fst"])
qed

lemma blocking_reason_None: "blocking_reason s = None \<longleftrightarrow> \<not> set_is_blocking s"
  by (auto simp: blocking_reason_def set_is_blocking_iff)

section \<open>Every operation keeps a set well-formed\<close>

lemma breakers_valid_for_modify:
  "(\<And>b. state_breaker (f b) = state_breaker b) \<Longrightarrow>
    breakers_valid_for config (s\<lparr>set_breakers := bt_modify i f (set_breakers s)\<rparr>) \<longleftrightarrow> breakers_valid_for config s"
  by (auto simp: breakers_valid_for_def bt_modify_def list_all_iff split: prod.splits if_splits)

lemma set_ok_modify:
  assumes "set_ok s" "\<And>b. state_breaker (f b) = state_breaker b"
  shows "set_ok (s\<lparr>set_breakers := bt_modify i f (set_breakers s)\<rparr>)"
proof -
  have "fst ` set (bt_modify i f (set_breakers s)) = fst ` set (set_breakers s)"
    by (metis fst_bt_modify set_map)
  moreover have "current_config (s\<lparr>set_breakers := bt_modify i f (set_breakers s)\<rparr>) = current_config s"
    by (simp add: current_config_def)
  ultimately show ?thesis
    using assms breakers_valid_for_modify [of f "current_config s" i s] by (simp add: set_ok_def)
qed

lemma set_ok_new: "set_ok (set_new config)"
  by (simp add: set_ok_def set_new_def history_ok_new breakers_valid_for_def)

lemma set_ok_manual: "set_ok s \<Longrightarrow> set_ok (snd (set_manual_trip b actor metadata s))"
  by (simp add: set_manual_trip_def set_ok_def breakers_valid_for_def current_config_def)

lemma add_state_Ok:
  assumes "set_ok s" "add_state i b s = (Ok (), s')"
  shows "i = breaker_next_id s \<and> unat (breaker_next_id s') = Suc (unat i) \<and>
    s' = s\<lparr>breaker_next_id := breaker_next_id s', set_breakers := set_breakers s @ [(i, state_new b)]\<rparr>"
  using assms by (auto simp: add_state_def set_ok_def bt_insert_above word_nat split: if_splits option.splits)

lemma set_ok_add: "set_ok s \<Longrightarrow> set_ok (snd (set_add i b s))"
proof -
  assume ok: "set_ok s"
  show ?thesis
  proof (cases "\<exists>s'. snd (set_add i b s) = s' \<and> add_state i b s = (Ok (), s') \<and>
      is_valid_for b (sample_interval_ns s) (rb_capacity (accepted_history s))")
    case True
    then obtain s' where s': "snd (set_add i b s) = s'" "add_state i b s = (Ok (), s')"
      "is_valid_for b (sample_interval_ns s) (rb_capacity (accepted_history s))" by blast
    define n where "n = breaker_next_id s'"
    note added = add_state_Ok [OF ok s'(2), folded n_def]
    note a = added [THEN conjunct1] added [THEN conjunct2, THEN conjunct1] added [THEN conjunct2, THEN conjunct2]
    have below: "\<forall>k \<in> fst ` set (set_breakers s). k < i" using ok a(1) by (simp add: set_ok_def)
    moreover have "k < i \<Longrightarrow> k < n" "i < n" for k using a(2) by (simp_all add: word_less_nat_alt)
    ultimately show ?thesis
      unfolding s'(1) a(3) using ok s'(3)
      by (auto simp: set_ok_def sorted_wrt_append breakers_valid_for_def current_config_def state_new_def)
  next
    case False
    then have "snd (set_add i b s) = s"
      by (auto simp: set_add_def add_state_def current_config_def Let_def split: if_splits option.splits prod.splits)
    with ok show ?thesis by simp
  qed
qed

lemma set_ok_remove: "set_ok s \<Longrightarrow> set_ok (snd (set_remove i s))"
  by (auto simp: set_remove_def set_ok_def bt_remove_def breakers_valid_for_def current_config_def list_all_iff
    sorted_wrt_map sorted_wrt_filter split: option.splits)

lemma set_ok_enforced: "set_ok s \<Longrightarrow> set_ok (snd (set_enforced i e s))"
  by (auto simp: set_enforced_def intro: set_ok_modify split: option.splits)

lemma set_ok_rearm: "set_ok s \<Longrightarrow> set_ok (snd (set_rearm i t s))"
  by (auto simp: set_rearm_def intro: set_ok_modify split: option.splits)

lemma set_ok_config: "set_ok s \<Longrightarrow> set_ok (snd (set_config config s))"
  by (auto simp: set_config_def set_ok_def history_ok_set_capacity breakers_valid_for_def current_config_def)

lemma set_ok_observed:
  assumes "set_ok s" "has_strictly_positive_confidence_interval p"
  shows "set_ok (observed_after p now s)"
proof -
  have "history_ok (observed_history (observed_after p now s))"
    using assms by (auto simp: observed_after_def set_ok_def history_ok_push)
  then show ?thesis
    using assms by (simp add: set_ok_def breakers_valid_for_def current_config_def)
qed

lemma breakers_after_fields:
  "map fst (breakers_after U p now s) = map fst (set_breakers s)"
  "breakers_valid_for config (t\<lparr>set_breakers := breakers_after U p now s, accepted_history := h\<rparr>) \<longleftrightarrow>
    breakers_valid_for config s"
  by (simp_all add: breakers_after_def breakers_valid_for_def list.pred_map comp_def split_def
    if_distrib [of state_breaker] cong: if_cong)

lemma set_ok_accept:
  assumes ok: "set_ok s"
  shows "set_ok (snd (try_accept_price U p now s))"
proof (cases "has_strictly_positive_confidence_interval p")
  case pos: True
  note obs = set_ok_observed [OF ok pos, of now]
  show ?thesis
  proof (cases "blocking_reason s")
    case (Some r)
    with pos obs show ?thesis by (simp add: try_accept_price_blocked)
  next
    case None
    let ?h = "if tripping_ids U p now s = [] \<and> should_persist_sample now s \<and> history_should_advance p (accepted_history s)
      then candidate_history p now s else accepted_history s"
    have h: "history_ok ?h" "rb_capacity ?h = rb_capacity (accepted_history s)"
      using ok pos by (auto simp: set_ok_def candidate_history_def history_ok_push)
    have keys: "fst ` set (breakers_after U p now s) = fst ` set (set_breakers s)"
      using breakers_after_fields(1) [of U p now s] by (metis set_map)
    have "current_config ((observed_after p now s)\<lparr>set_breakers := breakers_after U p now s, accepted_history := ?h\<rparr>) =
        current_config s"
      using h(2) by (simp add: current_config_def)
    then show ?thesis
      using obs h keys ok unfolding try_accept_price_decided [OF pos None] snd_conv set_ok_def
      by (simp add: breakers_after_fields)
  qed
qed (simp add: try_accept_price_invalid ok)

interpretation breaker_sets: state_machine "\<lambda>s. \<exists>config. s = set_new config" "set_step U" set_ok for U
proof
  show "set_ok s" if "\<exists>config. s = set_new config" for s using that set_ok_new by blast
  show "set_ok s'" if "set_ok s" "set_step U s s'" for s s'
    using that(2,1)
    by cases (auto intro: set_ok_manual set_ok_add set_ok_remove set_ok_enforced set_ok_rearm set_ok_config set_ok_accept)
qed

lemma set_ok_validate:
  assumes "set_ok s"
  shows "set_validate s = Ok ()" "set_try_from s = Ok s"
    "rb_try_from (accepted_history s) = Ok (accepted_history s)"
    "rb_try_from (observed_history s) = Ok (observed_history s)"
    "distinct (map fst (set_breakers s))"
proof -
  show "set_validate s = Ok ()"
    using assms by (simp add: set_validate_def set_ok_def current_config_def Let_def)
  have "\<not> breaker_next_id s \<le> fst (last (set_breakers s))" if "set_breakers s \<noteq> []"
    using assms last_in_set [OF that] by (simp add: set_ok_def not_le)
  then show "set_try_from s = Ok s"
    using assms by (auto simp: set_try_from_def validate_structure_def set_ok_def split: list.splits)
  show "rb_try_from (accepted_history s) = Ok (accepted_history s)"
    "rb_try_from (observed_history s) = Ok (observed_history s)"
    using assms by (auto simp: set_ok_def history_ok_def rb_try_from_Ok)
  show "distinct (map fst (set_breakers s))"
    using assms strict_sorted_iff [of "map fst (set_breakers s)"] by (simp add: set_ok_def)
qed

section \<open>Tripped breakers\<close>

text \<open>Every operation but those that lift the breaker \<open>i\<close>: removing, rearming or no longer enforcing it.\<close>

inductive step_without_reset :: "U512_ops \<Rightarrow> u32 \<Rightarrow> CircuitBreakerSet \<Rightarrow> CircuitBreakerSet \<Rightarrow> bool" for U i where
  keep_manual: "step_without_reset U i s (snd (set_manual_trip b actor metadata s))"
| keep_add: "step_without_reset U i s (snd (set_add j b s))"
| keep_remove: "j \<noteq> i \<Longrightarrow> step_without_reset U i s (snd (set_remove j s))"
| keep_enforced: "j \<noteq> i \<or> e \<Longrightarrow> step_without_reset U i s (snd (set_enforced j e s))"
| keep_rearm: "j \<noteq> i \<Longrightarrow> step_without_reset U i s (snd (set_rearm j t s))"
| keep_config: "step_without_reset U i s (snd (set_config config s))"
| keep_accept: "step_without_reset U i s (snd (try_accept_price U p now s))"

definition blocks :: "u32 \<Rightarrow> CircuitBreakerSet \<Rightarrow> bool" where
  "blocks i s \<longleftrightarrow> (\<exists>b. (i, b) \<in> set (set_breakers s) \<and> state_is_blocking b)"

lemma blocks_iff: "blocks i s \<longleftrightarrow> i \<in> set (blocking_breaker_ids s)"
  by (force simp: blocks_def blocking_breaker_ids_eq)

lemma blocks_reason:
  "blocks i s \<Longrightarrow>
    \<exists>r. blocking_reason s = Some r \<and> (r = ManuallyTripped \<or> r = BreakerTripped (blocking_breaker_ids s))"
  by (cases "is_manually_tripped s"; cases "blocking_breaker_ids s") (simp_all add: blocking_reason_def blocks_iff)

lemma blocks_modify:
  assumes "blocks i s" "\<And>b. j = i \<Longrightarrow> state_is_blocking b \<Longrightarrow> state_is_blocking (f b)"
  shows "blocks i (s\<lparr>set_breakers := bt_modify j f (set_breakers s)\<rparr>)"
proof -
  obtain b where b: "(i, b) \<in> set (set_breakers s)" "state_is_blocking b" using assms(1) by (auto simp: blocks_def)
  then have "(i, if i = j then f b else b) \<in> set (bt_modify j f (set_breakers s))"
    by (force simp: bt_modify_def)
  then show ?thesis using b(2) assms(2) by (auto simp: blocks_def)
qed

lemma step_without_reset_is_step: "step_without_reset U i s s' \<Longrightarrow> set_step U s s'"
  by (cases rule: step_without_reset.cases) (auto intro: set_step.intros)

lemma set_add_entries:
  "set_ok s \<Longrightarrow> set (set_breakers s) \<subseteq> set (set_breakers (snd (set_add j b s)))"
  by (auto simp: set_add_def add_state_def Let_def bt_insert_above set_ok_def split: option.splits prod.splits if_splits)

lemma blocks_accept:
  assumes "blocks i s"
  shows "blocks i (snd (try_accept_price U p now s))"
proof (cases "has_strictly_positive_confidence_interval p")
  case True
  obtain r where "blocking_reason s = Some r"
    using blocks_reason [OF assms] by blast
  with assms True show ?thesis by (simp add: try_accept_price_blocked blocks_def)
qed (simp add: try_accept_price_invalid assms)

lemma blocks_step:
  assumes "step_without_reset U i s s'" "set_ok s" "blocks i s"
  shows "blocks i s'"
  using assms(1)
proof cases
  case (keep_manual b actor metadata)
  then show ?thesis using assms(3) by (simp add: set_manual_trip_def blocks_def)
next
  case (keep_add j b)
  then show ?thesis using assms(3) set_add_entries [OF assms(2)] unfolding blocks_def by blast
next
  case (keep_remove j)
  then show ?thesis using assms(3) by (auto simp: set_remove_def blocks_def bt_remove_def split: option.splits)
next
  case (keep_enforced j e)
  then show ?thesis
    using assms(3) by (auto simp: set_enforced_def state_is_blocking_def intro!: blocks_modify split: option.splits)
next
  case (keep_rearm j t)
  then show ?thesis
    using assms(3) by (auto simp: set_rearm_def intro!: blocks_modify split: option.splits)
next
  case (keep_config config)
  then show ?thesis using assms(3) by (auto simp: set_config_def blocks_def)
next
  case (keep_accept p now)
  then show ?thesis using blocks_accept [OF assms(3)] by simp
qed

interpretation tripped: state_machine "\<lambda>s. set_ok s \<and> blocks i s" "step_without_reset U i" "\<lambda>s. set_ok s \<and> blocks i s"
  for U i
  by unfold_locales (auto intro: blocks_step breaker_sets.step_inv step_without_reset_is_step)

section \<open>Properties\<close>

text \<open>
  C39. A circuit breaker set stays well-formed. After any sequence of its operations on a new set, failed
  ones included: the set passes \<^verbatim>\<open>validate\<close>, so every rule fits the sampling configuration; the set and
  both histories are accepted when they are read back from storage; the identifiers of the breakers are
  distinct and the next one is unused; both histories hold valid prices with strictly increasing
  publish times; and an operation that reports an error leaves the set as it was.
\<close>

theorem breaker_set_sound:
  assumes "(set_step U)\<^sup>*\<^sup>* (set_new config) s"
  shows "set_validate s = Ok () \<and> set_try_from s = Ok s \<and>
    rb_try_from (accepted_history s) = Ok (accepted_history s) \<and>
    rb_try_from (observed_history s) = Ok (observed_history s) \<and>
    distinct (map fst (set_breakers s)) \<and> map_of (set_breakers s) (breaker_next_id s) = None \<and>
    (\<forall>h \<in> {accepted_history s, observed_history s}.
      sorted_wrt (\<lambda>a b. price_publish_time_ns (obs_price a) < price_publish_time_ns (obs_price b)) (rb_entries h) \<and>
      (\<forall>obs \<in> set (rb_entries h). has_strictly_positive_confidence_interval (obs_price obs))) \<and>
    (fst (set_add i b s) = Err e \<longrightarrow> snd (set_add i b s) = s) \<and>
    (fst (set_remove i s) = Err e \<longrightarrow> snd (set_remove i s) = s) \<and>
    (fst (set_enforced i f s) = Err e \<longrightarrow> snd (set_enforced i f s) = s) \<and>
    (fst (set_rearm i now s) = Err e \<longrightarrow> snd (set_rearm i now s) = s) \<and>
    (fst (set_config config' s) = Err e \<longrightarrow> snd (set_config config' s) = s) \<and>
    (fst (try_accept_price U p now s) = Err e \<longrightarrow> snd (try_accept_price U p now s) = s)"
proof -
  have ok: "set_ok s" by (rule breaker_sets.reachable_inv [OF _ assms]) blast
  have unused: "map_of (set_breakers s) (breaker_next_id s) = None"
    using ok by (force simp: set_ok_def map_of_eq_None_iff)
  have "fst (try_accept_price U p now s) = Err e \<Longrightarrow> snd (try_accept_price U p now s) = s"
    by (cases "has_strictly_positive_confidence_interval p"; cases "blocking_reason s")
      (simp_all add: try_accept_price_invalid try_accept_price_blocked try_accept_price_decided)
  moreover have "fst (set_add i b s) = Err e \<Longrightarrow> snd (set_add i b s) = s"
    by (auto simp: set_add_def add_state_def Let_def split: option.splits if_splits)
  moreover have "fst (set_remove i s) = Err e \<Longrightarrow> snd (set_remove i s) = s"
      "fst (set_enforced i f s) = Err e \<Longrightarrow> snd (set_enforced i f s) = s"
      "fst (set_rearm i now s) = Err e \<Longrightarrow> snd (set_rearm i now s) = s"
      "fst (set_config config' s) = Err e \<Longrightarrow> snd (set_config config' s) = s"
    by (auto simp: set_remove_def set_enforced_def set_rearm_def set_config_def split: option.splits if_splits)
  moreover have "history_ok (accepted_history s)" "history_ok (observed_history s)"
    using ok by (simp_all add: set_ok_def)
  ultimately show ?thesis
    using set_ok_validate [OF ok] unused by (simp add: history_ok_def published_def)
qed

definition demo_config :: CircuitBreakerSetConfig where
  "demo_config = \<lparr>config_sample_interval_ns = 0, config_history_len = 5\<rparr>"

definition demo_breaker :: CircuitBreaker where
  "demo_breaker = BreakCumulative
     \<lparr>cc_baseline = \<lparr>price_value = 100, price_conf = 1, price_expo = 0, price_publish_time_ns = 0\<rparr>,
      cc_max_relative_change = 1\<rparr>"

definition demo_set :: CircuitBreakerSet where
  "demo_set = snd (set_add 0 demo_breaker (set_new demo_config))"

lemma demo_valid: "is_valid_for demo_breaker 0 5"
  by (simp add: demo_breaker_def has_strictly_positive_confidence_interval_def valid_threshold_def decimal_ZERO_def
    decimal_ONE_def)

lemma demo_set_eq:
  "demo_set =
    \<lparr>sample_interval_ns = 0, accepted_history = rb_new 5, observed_history = rb_new 5, breaker_next_id = 1,
     is_manually_tripped = False, set_breakers = [(0, state_new demo_breaker)]\<rparr>"
  by (simp add: demo_set_def set_add_def current_config_def set_new_def demo_config_def demo_valid add_state_def
    checked_add_def)

theorem breaker_set_sound_witness:
  "set_breakers demo_set = [(0, state_new demo_breaker)] \<and> set_validate demo_set = Ok () \<and>
   set_try_from demo_set = Ok demo_set \<and>
   fst (set_remove 7 demo_set) = Err (BreakerNotFound 7) \<and> snd (set_remove 7 demo_set) = demo_set"
proof -
  have "(set_step word_u512)\<^sup>*\<^sup>* (set_new demo_config) demo_set"
    unfolding demo_set_def by (rule r_into_rtranclp) (rule step_add)
  moreover have "fst (set_remove 7 demo_set) = Err (BreakerNotFound 7)" by (simp add: demo_set_eq set_remove_def)
  ultimately show ?thesis
    using breaker_set_sound [of word_u512 demo_config demo_set 7 demo_breaker "BreakerNotFound 7" True 0 demo_config
        "\<lparr>price_value = 100, price_conf = 1, price_expo = 0, price_publish_time_ns = 0\<rparr>"]
    by (simp add: demo_set_eq)
qed

text \<open>
  C38. A tripped breaker blocks until it is reset. Once an enforced breaker of a reachable set has tripped,
  whatever sequence of operations follows, as long as none of them removes, rearms or stops enforcing this
  breaker: the breaker stays among the blocking ones, every valid price offered is refused with the
  reason the set reports, no event is emitted, and the accepted history does not change.
\<close>

theorem tripped_breaker_blocks:
  assumes "(set_step U)\<^sup>*\<^sup>* (set_new config) s" "i \<in> set (blocking_breaker_ids s)"
    and "(step_without_reset U i)\<^sup>*\<^sup>* s s'"
  shows "i \<in> set (blocking_breaker_ids s') \<and> set_is_blocking s' \<and>
    (\<exists>r. blocking_reason s' = Some r \<and>
      (r = ManuallyTripped \<or> r = BreakerTripped (blocking_breaker_ids s')) \<and>
      (has_strictly_positive_confidence_interval p \<longrightarrow>
        fst (try_accept_price U p now s') = Ok \<lparr>outcome_value = Err r, outcome_events = []\<rparr>)) \<and>
    accepted_history (snd (try_accept_price U p now s')) = accepted_history s'"
proof -
  have "set_ok s" by (rule breaker_sets.reachable_inv [OF _ assms(1)]) blast
  with assms(2,3) have ids: "i \<in> set (blocking_breaker_ids s')"
    using tripped.reachable_inv [of s i U s'] by (simp add: blocks_iff)
  then obtain r where r: "blocking_reason s' = Some r" "r = ManuallyTripped \<or> r = BreakerTripped (blocking_breaker_ids s')"
    using blocks_reason [of i s'] by (auto simp: blocks_iff)
  have "accepted_history (snd (try_accept_price U p now s')) = accepted_history s'"
    by (cases "has_strictly_positive_confidence_interval p")
      (simp_all add: try_accept_price_invalid try_accept_price_blocked [OF _ r(1)])
  moreover have "set_is_blocking s'" using ids by (auto simp: set_is_blocking_iff)
  ultimately show ?thesis using ids r by (auto simp: try_accept_price_blocked)
qed

definition breaker_price :: "i64 \<Rightarrow> Price" where
  "breaker_price v = \<lparr>price_value = v, price_conf = 0, price_expo = 0, price_publish_time_ns = 1\<rparr>"

text \<open>A cumulative rule trips on a price that doubled.\<close>

lemma demo_positive: "has_strictly_positive_confidence_interval (breaker_price 200)"
  by (simp add: has_strictly_positive_confidence_interval_def breaker_price_def)

lemma demo_trips: "should_trip word_u512 demo_breaker (rb_push \<lparr>obs_price = breaker_price 200, observed_at_ns = 3\<rparr> (rb_new 5))"
proof (rule words512.should_trip_closed)
  show "violates demo_breaker
      (map obs_price (rb_entries (rb_push \<lparr>obs_price = breaker_price 200, observed_at_ns = 3\<rparr> (rb_new 5))))"
    by (simp add: demo_breaker_def breaker_price_def rb_push_def rb_new_def moved_def exceeds_def price_num_def scaled_def
      dec_num_def del: of_int_sint)
qed

theorem tripped_breaker_blocks_witness:
  "\<exists>s. (set_step word_u512)\<^sup>*\<^sup>* (set_new demo_config) s \<and> blocking_breaker_ids s = [0] \<and>
     accepted_history (snd (try_accept_price word_u512 (breaker_price 200) 4 s)) = accepted_history s \<and>
     fst (try_accept_price word_u512 (breaker_price 200) 4 s) =
       Ok \<lparr>outcome_value = Err (BreakerTripped [0]), outcome_events = []\<rparr>"
proof -
  define s where "s = snd (try_accept_price word_u512 (breaker_price 200) 3 demo_set)"
  have "set_step word_u512 (set_new demo_config) demo_set" unfolding demo_set_def by (rule step_add)
  moreover have "set_step word_u512 demo_set s" unfolding s_def by (rule step_accept)
  ultimately have reach: "(set_step word_u512)\<^sup>*\<^sup>* (set_new demo_config) s"
    by (rule converse_rtranclp_into_rtranclp [OF _ r_into_rtranclp])
  have trips: "trips_now word_u512 (breaker_price 200) 3 demo_set (state_new demo_breaker)"
    using demo_trips by (simp add: trips_now_def candidate_history_def demo_set_eq state_new_def is_armed_at_def)
  have "blocking_reason demo_set = None"
    by (simp add: blocking_reason_def demo_set_eq blocking_breaker_ids_eq state_new_def state_is_blocking_def)
  then have s: "set_breakers s = breakers_after word_u512 (breaker_price 200) 3 demo_set"
      "is_manually_tripped s = False"
    by (simp_all add: s_def try_accept_price_decided [OF demo_positive] demo_set_eq)
  then have ids: "blocking_breaker_ids s = [0]"
    using trips by (simp add: blocking_breaker_ids_eq breakers_after_def demo_set_eq state_is_blocking_def state_new_def)
  moreover have "blocking_reason s = Some (BreakerTripped [0])" using ids s(2) by (simp add: blocking_reason_def)
  ultimately show ?thesis
    using tripped_breaker_blocks [OF reach, of 0 s "breaker_price 200" 4] reach demo_positive by auto
qed

end
