(* ===== verification/Oracle_Proxy.thy ===== *)
theory Oracle_Proxy
  imports Oracle_Median Oracle_Breaker
begin

text \<open>
  The resolution of a proxy price (\<^verbatim>\<open>src/contract/proxy-oracle/kernel/src/proxy/mod.rs\<close>): the prices of the
  sources are filtered, aggregated and offered to the circuit breakers.
\<close>

section \<open>Resolution\<close>

record 's Proxy =
  proxy_aggregator :: "'s Aggregator"
  proxy_freshness_filter :: FreshnessFilter

datatype ResolveError = Aggregation AggregateError | CircuitBreakerFailed CircuitBreakerError

definition proxy_median_low :: "'s list \<Rightarrow> FreshnessFilter \<Rightarrow> 's Proxy" where
  "proxy_median_low sources f =
     \<lparr>proxy_aggregator = aggregator_median_low sources, proxy_freshness_filter = f\<rparr>"

definition proxy_priority :: "'s list \<Rightarrow> FreshnessFilter \<Rightarrow> 's Proxy" where
  "proxy_priority sources f =
     \<lparr>proxy_aggregator = aggregator_priority sources, proxy_freshness_filter = f\<rparr>"

definition with_freshness_filter :: "FreshnessFilter \<Rightarrow> 's Proxy \<Rightarrow> 's Proxy" where
  "with_freshness_filter f proxy = proxy\<lparr>proxy_freshness_filter := f\<rparr>"

definition option_filter :: "('a \<Rightarrow> bool) \<Rightarrow> 'a option \<Rightarrow> 'a option" where
  "option_filter f v = (case v of Some x \<Rightarrow> if f x then Some x else None | None \<Rightarrow> None)"

definition proxy_aggregate ::
  "sort_fun \<Rightarrow> 's Proxy \<Rightarrow> Price option list \<Rightarrow> Nanoseconds \<Rightarrow> (Price, AggregateError) result" where
  "proxy_aggregate srt proxy prices now =
     aggregate srt (proxy_aggregator proxy)
       (map (\<lambda>price.
          option_filter (\<lambda>p. freshness_accepts (proxy_freshness_filter proxy) p now)
            (option_filter has_strictly_positive_confidence_interval price)) prices)"

definition resolve ::
  "U512_ops \<Rightarrow> sort_fun \<Rightarrow> 's Proxy \<Rightarrow> Price option list \<Rightarrow> Nanoseconds \<Rightarrow> CircuitBreakerSet \<Rightarrow>
    (PriceAcceptance CircuitBreakerOutcome, ResolveError) result \<times> CircuitBreakerSet" where
  "resolve U srt proxy prices now breakers =
     (case proxy_aggregate srt proxy prices now of
        Ok p \<Rightarrow>
          (case try_accept_price U p now breakers of
             (r, breakers') \<Rightarrow> (map_err CircuitBreakerFailed r, breakers'))
      | Err e \<Rightarrow> (Err (Aggregation e), breakers)
      | Panic \<Rightarrow> (Panic, breakers))"

section \<open>What is resolved\<close>

text \<open>A price a source supplied that passes both filters.\<close>

definition usable :: "'s Proxy \<Rightarrow> Nanoseconds \<Rightarrow> Price \<Rightarrow> bool" where
  "usable proxy now p \<longleftrightarrow>
     has_strictly_positive_confidence_interval p \<and> freshness_accepts (proxy_freshness_filter proxy) p now"

text \<open>The aggregated price is a usable one, or an end of its confidence interval.\<close>

definition taken_from :: "Price \<Rightarrow> Price \<Rightarrow> bool" where
  "taken_from p q \<longleftrightarrow> q = p \<or> q = sp_to_price (fst (sp_split p)) \<or> q = sp_to_price (snd (sp_split p))"

lemma filtered_Some:
  "Some p \<in> set (map (\<lambda>price.
      option_filter (\<lambda>p. freshness_accepts (proxy_freshness_filter proxy) p now)
        (option_filter has_strictly_positive_confidence_interval price)) prices) \<longleftrightarrow>
    Some p \<in> set prices \<and> usable proxy now p"
  by (force simp: option_filter_def usable_def split: option.splits if_splits)

lemma valid_rows_member:
  "(p, w) \<in> set (valid_rows (zip prices sources)) \<Longrightarrow> Some p \<in> set prices"
  by (auto simp: valid_rows_def List.map_filter_def dest: set_zip_leftD split: option.splits if_splits)

lemma median_aggregate_cases:
  assumes "is_sort srt"
  shows "(\<exists>q p. median_aggregate srt variant m prices = Ok q \<and> Some p \<in> set prices \<and> taken_from p q) \<or>
    (\<exists>e. median_aggregate srt variant m prices = Err e)"
proof (cases "length prices = length (med_sources m) \<and>
    max (unat (med_min_sources m)) 1 \<le> length (valid_rows (zip prices (med_sources m)))")
  case True
  then obtain s w where s: "median_aggregate srt variant m prices = Ok (sp_to_price s)"
      "(s, w) \<in> set (interval_ends (valid_rows (zip prices (med_sources m))))"
    using median_aggregate_Ok [OF assms, of prices m variant] by blast
  then obtain p where "(p, w) \<in> set (valid_rows (zip prices (med_sources m)))"
      "s = fst (sp_split p) \<or> s = snd (sp_split p)"
    using in_interval_ends by blast
  then show ?thesis using s(1) valid_rows_member unfolding taken_from_def by blast
next
  case False
  then show ?thesis using median_aggregate_errors [of prices m srt variant] by (meson not_less)
qed

lemma priority_aggregate_cases:
  "(\<exists>p. priority_aggregate m prices = Ok p \<and> Some p \<in> set prices) \<or> (\<exists>e. priority_aggregate m prices = Err e)"
proof (cases "List.map_filter id prices")
  case (Cons p ps)
  then have "p \<in> set (List.map_filter id prices)" by simp
  then have "Some p \<in> set prices" by (auto simp: List.map_filter_def)
  with Cons show ?thesis by (simp add: priority_aggregate_def)
qed (simp add: priority_aggregate_def)

lemma aggregate_cases:
  assumes "is_sort srt"
  shows "(\<exists>q p. aggregate srt a prices = Ok q \<and> Some p \<in> set prices \<and> taken_from p q) \<or>
    (\<exists>e. aggregate srt a prices = Err e)"
proof (cases a)
  case (PriorityAgg m)
  then show ?thesis using priority_aggregate_cases [of m prices] by (auto simp: taken_from_def)
qed (use median_aggregate_cases [OF assms] in simp_all)

lemma proxy_aggregate_cases:
  assumes "is_sort srt"
  shows "(\<exists>q p. proxy_aggregate srt proxy prices now = Ok q \<and> Some p \<in> set prices \<and> usable proxy now p \<and> taken_from p q) \<or>
    (\<exists>e. proxy_aggregate srt proxy prices now = Err e)"
proof -
  let ?ps = "map (\<lambda>price.
      option_filter (\<lambda>p. freshness_accepts (proxy_freshness_filter proxy) p now)
        (option_filter has_strictly_positive_confidence_interval price)) prices"
  have "(\<exists>q p. aggregate srt (proxy_aggregator proxy) ?ps = Ok q \<and> Some p \<in> set ?ps \<and> taken_from p q) \<or>
      (\<exists>e. aggregate srt (proxy_aggregator proxy) ?ps = Err e)"
    by (rule aggregate_cases [OF assms])
  then show ?thesis unfolding proxy_aggregate_def filtered_Some by blast
qed

lemma positive_interval:
  assumes "has_strictly_positive_confidence_interval p"
  shows "int (unat (price_conf p)) < sint (price_value p)"
proof -
  have p: "0 \<le> sint (price_value p)" "unat (price_conf p) < unat (price_value p)"
    using assms by (simp_all add: has_strictly_positive_confidence_interval_def word_less_nat_alt)
  have "unsigned_abs (price_value p) = price_value p" using p(1) by (simp add: unsigned_abs_def)
  then have "unat (price_value p) = nat (sint (price_value p))"
    using unat_unsigned_abs [of "price_value p"] p(1) by simp
  with p show ?thesis by (simp add: zless_nat_eq_int_zless)
qed

lemma taken_from_positive:
  assumes "taken_from p q" "has_strictly_positive_confidence_interval p"
  shows "has_strictly_positive_confidence_interval q"
proof -
  have pos: "has_strictly_positive_confidence_interval (sp_to_price s)" if "0 < sint (sp_value s)" for s
  proof -
    have "sp_value s \<noteq> 0" using that by auto
    with that show ?thesis
      by (simp add: has_strictly_positive_confidence_interval_def sp_to_price_def word_greater_zero_iff)
  qed
  have "0 < sint (sp_value (fst (sp_split p)))" "0 < sint (sp_value (snd (sp_split p)))"
    using positive_interval [OF assms(2)] sp_split_values [of p] by linarith+
  with assms pos show ?thesis unfolding taken_from_def by blast
qed

lemma taken_from_fields:
  "taken_from p q \<Longrightarrow> price_expo q = price_expo p \<and> price_publish_time_ns q = price_publish_time_ns p"
  by (auto simp: taken_from_def sp_to_price_def)

text \<open>A resolution either fails in the aggregation or offers a usable price to the breakers.\<close>

lemma resolve_cases:
  assumes "is_sort srt"
  shows "(\<exists>q p. resolve U srt proxy prices now s = (case try_accept_price U q now s of (r, s') \<Rightarrow> (map_err CircuitBreakerFailed r, s')) \<and>
      Some p \<in> set prices \<and> usable proxy now p \<and> taken_from p q \<and> has_strictly_positive_confidence_interval q) \<or>
    (\<exists>e. resolve U srt proxy prices now s = (Err (Aggregation e), s))"
  using proxy_aggregate_cases [OF assms, of proxy prices now]
proof (elim disjE exE conjE)
  fix q p assume "proxy_aggregate srt proxy prices now = Ok q" "Some p \<in> set prices" "usable proxy now p" "taken_from p q"
  moreover from this have "has_strictly_positive_confidence_interval q"
    by (auto simp: usable_def intro: taken_from_positive)
  ultimately show ?thesis unfolding resolve_def by auto
qed (simp add: resolve_def)

section \<open>Properties\<close>

text \<open>
  C37. Every price the proxy accepts has passed all its guards. When a resolution against a reachable
  circuit breaker set accepts a price: no manual trip and no tripped breaker blocked the set; the price
  has the publish time and the exponent of one supplied price that is fresh, with a confidence interval
  above zero, and it is this price or an end of its interval, so it is positive; and with this price
  appended to the accepted history no enforced and armed breaker sees its limit violated, over the
  rational numbers. A resolution that fails leaves the breakers as they were, fails in the aggregation
  only, and no resolution panics.
\<close>

theorem resolved_price_guarded:
  assumes "u512_spec U" "is_sort srt" "(set_step U)\<^sup>*\<^sup>* (set_new config) s"
  shows "(\<forall>out s' q. resolve U srt proxy prices now s = (Ok out, s') \<and> outcome_value out = Ok q \<longrightarrow>
      \<not> set_is_blocking s \<and> \<not> set_is_blocking s' \<and> has_strictly_positive_confidence_interval q \<and>
      (\<exists>p. Some p \<in> set prices \<and> has_strictly_positive_confidence_interval p \<and>
        freshness_accepts (proxy_freshness_filter proxy) p now \<and>
        price_publish_time_ns q = price_publish_time_ns p \<and> price_expo q = price_expo p \<and>
        (q = p \<or> q = sp_to_price (fst (sp_split p)) \<or> q = sp_to_price (snd (sp_split p)))) \<and>
      (\<forall>(i, b) \<in> set (set_breakers s). is_enforced b \<and> is_armed_at now b \<longrightarrow>
        \<not> violates (state_breaker b)
            (map obs_price (rb_entries (rb_push \<lparr>obs_price = q, observed_at_ns = now\<rparr> (accepted_history s)))))) \<and>
    (\<forall>e s'. resolve U srt proxy prices now s = (Err e, s') \<longrightarrow> s' = s \<and> (\<exists>a. e = Aggregation a)) \<and>
    (\<forall>s'. resolve U srt proxy prices now s \<noteq> (Panic, s'))"
proof -
  have ok: "set_ok s" by (rule breaker_sets.reachable_inv [OF _ assms(3)]) blast
  consider (offered) q p where
      "resolve U srt proxy prices now s = (case try_accept_price U q now s of (r, s') \<Rightarrow> (map_err CircuitBreakerFailed r, s'))"
      "Some p \<in> set prices" "usable proxy now p" "taken_from p q" "has_strictly_positive_confidence_interval q"
    | (failed) e where "resolve U srt proxy prices now s = (Err (Aggregation e), s)"
    using resolve_cases [OF assms(2), of U proxy prices now s] by blast
  then show ?thesis
  proof cases
    case (offered q p)
    show ?thesis
    proof (cases "blocking_reason s")
      case (Some r)
      then show ?thesis by (simp add: offered(1) try_accept_price_blocked [OF offered(5)])
    next
      case None
      note decided = try_accept_price_decided [OF offered(5) None, of U now]
      show ?thesis
      proof (cases "tripping_ids U q now s = []")
        case True
        have limits: "\<not> violates (state_breaker b) (map obs_price (rb_entries (candidate_history q now s)))"
          if "(i, b) \<in> set (set_breakers s)" "is_enforced b" "is_armed_at now b" for i b
          using True that u512_spec.should_trip_closed [OF assms(1)]
          by (auto simp: tripping_ids_def filter_empty_conv trips_now_def)
        have "\<not> set_is_blocking s" using None by (simp add: blocking_reason_None)
        moreover have "\<not> set_is_blocking (snd (try_accept_price U q now s))"
          unfolding decided snd_conv set_is_blocking_iff blocking_after [OF None]
          using True \<open>\<not> set_is_blocking s\<close> by (simp add: set_is_blocking_iff)
        ultimately show ?thesis
          using offered True decided limits taken_from_fields [OF offered(4)]
          unfolding usable_def taken_from_def candidate_history_def by auto
      next
        case False
        then show ?thesis by (simp add: offered(1) decided)
      qed
    qed
  qed simp
qed

definition demo_proxy :: "nat Proxy" where
  "demo_proxy = proxy_priority [0, 1] \<lparr>max_age_ns = Some 10, max_clock_drift_ns = None\<rparr>"

lemma demo_holds:
  "\<not> should_trip word_u512 demo_breaker (rb_push \<lparr>obs_price = breaker_price 100, observed_at_ns = 3\<rparr> (rb_new 5))"
proof -
  let ?h = "rb_push \<lparr>obs_price = breaker_price 100, observed_at_ns = 3\<rparr> (rb_new 5)"
  have "representable demo_breaker (map obs_price (rb_entries ?h))"
    by (simp add: representable_def demo_breaker_def breaker_price_def rb_push_def rb_new_def near_def)
  then have "should_trip word_u512 demo_breaker ?h \<longleftrightarrow> violates demo_breaker (map obs_price (rb_entries ?h))"
    by (rule words512.should_trip_exact) (simp add: rb_push_def rb_new_def)
  moreover have "\<not> violates demo_breaker (map obs_price (rb_entries ?h))"
    by (simp add: demo_breaker_def breaker_price_def rb_push_def rb_new_def moved_def exceeds_def price_num_def scaled_def
      dec_num_def del: of_int_sint)
  ultimately show ?thesis by simp
qed

theorem resolved_price_guarded_witness:
  "(\<exists>out s'. resolve word_u512 insertion_sort demo_proxy [None, Some (breaker_price 100)] 3 demo_set = (Ok out, s') \<and>
     outcome_value out = Ok (breaker_price 100) \<and> \<not> set_is_blocking s') \<and>
   set_breakers demo_set = [(0, state_new demo_breaker)] \<and>
   \<not> violates demo_breaker
       (map obs_price (rb_entries (rb_push \<lparr>obs_price = breaker_price 100, observed_at_ns = 3\<rparr> (accepted_history demo_set))))"
proof -
  have reach: "(set_step word_u512)\<^sup>*\<^sup>* (set_new demo_config) demo_set"
    unfolding demo_set_def by (rule r_into_rtranclp) (rule step_add)
  have p: "has_strictly_positive_confidence_interval (breaker_price 100)"
    by (simp add: has_strictly_positive_confidence_interval_def breaker_price_def)
  have agg: "proxy_aggregate insertion_sort demo_proxy [None, Some (breaker_price 100)] 3 = Ok (breaker_price 100)"
    using p by (simp add: proxy_aggregate_def demo_proxy_def proxy_priority_def aggregator_priority_def
      priority_aggregate_def option_filter_def freshness_accepts_def breaker_price_def saturating_sub_def
      List.map_filter_def)
  have none: "blocking_reason demo_set = None"
    by (simp add: blocking_reason_def demo_set_eq blocking_breaker_ids_eq state_new_def state_is_blocking_def)
  have "tripping_ids word_u512 (breaker_price 100) 3 demo_set = []"
    using demo_holds by (simp add: tripping_ids_def trips_now_def candidate_history_def demo_set_eq state_new_def)
  then obtain out s' where r: "resolve word_u512 insertion_sort demo_proxy [None, Some (breaker_price 100)] 3 demo_set = (Ok out, s')"
      "outcome_value out = Ok (breaker_price 100)"
    using try_accept_price_decided [OF p none, of word_u512 3] by (simp add: resolve_def agg)
  note guarded = resolved_price_guarded [OF words512.u512_spec_axioms is_sort_insertion_sort reach,
      of demo_proxy "[None, Some (breaker_price 100)]" 3]
  have armed: "set_breakers demo_set = [(0, state_new demo_breaker)]" "is_enforced (state_new demo_breaker)"
      "is_armed_at 3 (state_new demo_breaker)" "state_breaker (state_new demo_breaker) = demo_breaker"
    by (simp_all add: demo_set_eq state_new_def is_armed_at_def)
  from guarded [THEN conjunct1, rule_format, OF conjI [OF r]] r armed show ?thesis by simp
qed

end
