(* ===== verification/Primitives_Decimal.thy ===== *)
theory Primitives_Decimal
  imports Rust_Prelude
begin

text \<open>
  The fixed-point decimals of the primitives (\<^verbatim>\<open>src/primitives/src/number.rs\<close>): a 512-bit integer that counts
  units of 2 to the power -128.

  \<^item> The 512-bit integers come from the \<^verbatim>\<open>primitive_types\<close> crate; their operations are the record argument \<open>D\<close>
    and the locale \<open>decimal_spec\<close> states their documented behaviour. The operators \<^verbatim>\<open>+\<close>, \<^verbatim>\<open>-\<close>, \<^verbatim>\<open>*\<close> and \<^verbatim>\<open>/\<close>
    panic on overflow or a zero divisor, which is the value \<^term>\<open>None\<close>; shifts drop the bits that leave the word.
  \<^item> The loop of the power of ten is a partial function: \<^term>\<open>None\<close> would be a loop that does not end.
\<close>

section \<open>512-bit integers\<close>

record Decimal_ops =
  d_add :: "u512 \<Rightarrow> u512 \<Rightarrow> u512 option"
  d_sub :: "u512 \<Rightarrow> u512 \<Rightarrow> u512 option"
  d_mul :: "u512 \<Rightarrow> u512 \<Rightarrow> u512 option"
  d_div :: "u512 \<Rightarrow> u512 \<Rightarrow> u512 option"
  d_overflowing_mul :: "u512 \<Rightarrow> u512 \<Rightarrow> u512 \<times> bool"
  d_shl :: "u512 \<Rightarrow> nat \<Rightarrow> u512"
  d_shr :: "u512 \<Rightarrow> nat \<Rightarrow> u512"
  d_bits :: "u512 \<Rightarrow> nat"
  d_trailing_zeros :: "u512 \<Rightarrow> nat"
  d_leading_zeros :: "u512 \<Rightarrow> nat"

text \<open>The result of an operator: a panic where it has none.\<close>

definition or_panic :: "'a option \<Rightarrow> ('a, unit) result" where
  "or_panic v = (case v of Some x \<Rightarrow> Ok x | None \<Rightarrow> Panic)"

section \<open>Decimals\<close>

record Decimal =
  dec_repr :: u512

definition FRACTIONAL_BITS :: nat where
  "FRACTIONAL_BITS = 128"

definition FRACTIONAL_DECIMAL_DIGITS :: nat where
  "FRACTIONAL_DECIMAL_DIGITS = 38"

definition WHOLE_DECIMAL_DIGITS :: nat where
  "WHOLE_DECIMAL_DIGITS = 115"

definition dec_ONE :: Decimal where
  "dec_ONE = \<lparr>dec_repr = 2 ^ 128\<rparr>"

definition dec_ZERO :: Decimal where
  "dec_ZERO = \<lparr>dec_repr = 0\<rparr>"

partial_function (option) pow10_loop ::
  "Decimal_ops \<Rightarrow> u32 \<Rightarrow> u512 \<Rightarrow> u512 \<Rightarrow> (u512, unit) result option" where
  "pow10_loop D exponent x y =
     (if 1 < exponent
      then
        case (if exponent mod 2 = 1 then d_mul D y x else Some y) of
          None \<Rightarrow> Some Panic
        | Some y' \<Rightarrow>
            (case d_mul D x x of
               None \<Rightarrow> Some Panic
             | Some x' \<Rightarrow> pow10_loop D (drop_bit 1 exponent) x' y')
      else Some (or_panic (d_mul D x y)))"

definition u512_pow10 :: "Decimal_ops \<Rightarrow> u32 \<Rightarrow> (u512, unit) result option" where
  "u512_pow10 D exponent = pow10_loop D exponent 10 1"

definition dec_is_zero :: "Decimal \<Rightarrow> bool" where
  "dec_is_zero d \<longleftrightarrow> dec_repr d = 0"

definition abs_exponent :: "32 word \<Rightarrow> u32" where
  "abs_exponent e = of_int \<bar>sint e\<bar>"

definition mul_pow10 :: "Decimal_ops \<Rightarrow> Decimal \<Rightarrow> 32 word \<Rightarrow> (Decimal option, unit) result option" where
  "mul_pow10 D d e =
     (if sint e = 0 \<or> dec_is_zero d then Some (Ok (Some d))
      else if WHOLE_DECIMAL_DIGITS + FRACTIONAL_DECIMAL_DIGITS < unat (abs_exponent e) then Some (Ok None)
      else
        map_option (\<lambda>r. and_then r (\<lambda>operand.
            if 0 \<le> sint e
            then
              let (repr, overflowed) = d_overflowing_mul D (dec_repr d) operand
              in Ok (if \<not> overflowed then Some \<lparr>dec_repr = repr\<rparr> else None)
            else
              and_then (or_panic (d_div D (dec_repr d) operand)) (\<lambda>repr.
                Ok (if repr \<noteq> 0 then Some \<lparr>dec_repr = repr\<rparr> else None))))
          (u512_pow10 D (abs_exponent e)))"

text \<open>The power of two.\<close>

definition pow2_int :: "Decimal_ops \<Rightarrow> u32 \<Rightarrow> Decimal option" where
  "pow2_int D exponent =
     (if 512 - FRACTIONAL_BITS < unat exponent then None
      else Some \<lparr>dec_repr = d_shl D (dec_repr dec_ONE) (unat exponent)\<rparr>)"

definition dec_add :: "Decimal_ops \<Rightarrow> Decimal \<Rightarrow> Decimal \<Rightarrow> (Decimal, unit) result" where
  "dec_add D a b = and_then (or_panic (d_add D (dec_repr a) (dec_repr b))) (\<lambda>r. Ok \<lparr>dec_repr = r\<rparr>)"

definition dec_sub :: "Decimal_ops \<Rightarrow> Decimal \<Rightarrow> Decimal \<Rightarrow> (Decimal, unit) result" where
  "dec_sub D a b = and_then (or_panic (d_sub D (dec_repr a) (dec_repr b))) (\<lambda>r. Ok \<lparr>dec_repr = r\<rparr>)"

definition dec_mul :: "Decimal_ops \<Rightarrow> Decimal \<Rightarrow> Decimal \<Rightarrow> (Decimal, unit) result" where
  "dec_mul D a b =
     (let shr = FRACTIONAL_BITS;
          shr_self = min (d_trailing_zeros D (dec_repr a)) shr;
          self_repr = d_shr D (dec_repr a) shr_self;
          shr = shr - shr_self;
          shr_rhs = min (d_trailing_zeros D (dec_repr b)) shr;
          rhs_repr = d_shr D (dec_repr b) shr_rhs;
          shr = shr - shr_rhs
      in and_then (or_panic (d_mul D self_repr rhs_repr)) (\<lambda>r. Ok \<lparr>dec_repr = d_shr D r shr\<rparr>))"

definition dec_div :: "Decimal_ops \<Rightarrow> Decimal \<Rightarrow> Decimal \<Rightarrow> (Decimal, unit) result" where
  "dec_div D a b =
     (let sh = FRACTIONAL_BITS;
          sh_self = min (d_leading_zeros D (dec_repr a)) sh;
          self_repr = d_shl D (dec_repr a) sh_self;
          sh = sh - sh_self;
          sh_rhs = min (d_trailing_zeros D (dec_repr b)) sh;
          rhs_repr = d_shr D (dec_repr b) sh_rhs;
          sh = sh - sh_rhs
      in and_then (or_panic (d_div D self_repr rhs_repr)) (\<lambda>r. Ok \<lparr>dec_repr = d_shl D r sh\<rparr>))"

definition dec_abs_diff :: "Decimal_ops \<Rightarrow> Decimal \<Rightarrow> Decimal \<Rightarrow> (Decimal, unit) result" where
  "dec_abs_diff D a b = (if dec_repr b < dec_repr a then dec_sub D a b else dec_sub D b a)"

definition to_u128_floor :: "Decimal_ops \<Rightarrow> Decimal \<Rightarrow> u128 option" where
  "to_u128_floor D d =
     (let truncated = d_shr D (dec_repr d) FRACTIONAL_BITS
      in if d_bits D truncated \<le> 128 then Some (ucast truncated) else None)"

definition fractional_part :: "Decimal \<Rightarrow> u512" where
  "fractional_part d = take_bit 128 (dec_repr d)"

definition to_u128_ceil :: "Decimal_ops \<Rightarrow> Decimal \<Rightarrow> u128 option" where
  "to_u128_ceil D d =
     (let truncated = d_shr D (dec_repr d) FRACTIONAL_BITS
      in if d_bits D truncated \<le> 128
         then if fractional_part d = 0 then Some (ucast truncated) else checked_add (ucast truncated) 1
         else None)"

definition dec_from :: "Decimal_ops \<Rightarrow> u128 \<Rightarrow> Decimal" where
  "dec_from D v = \<lparr>dec_repr = d_shl D (ucast v) FRACTIONAL_BITS\<rparr>"

section \<open>The contract of the 512-bit integers\<close>

text \<open>The number of 512-bit integers, kept folded in the proofs.\<close>

definition word512_size :: nat where
  "word512_size = 2 ^ 512"

locale decimal_spec =
  fixes D :: Decimal_ops
  assumes add_law: "d_add D a b = Some c \<longleftrightarrow> unat c = unat a + unat b"
    and sub_law: "d_sub D a b = Some c \<longleftrightarrow> unat a = unat b + unat c"
    and mul_law: "d_mul D a b = Some c \<longleftrightarrow> unat c = unat a * unat b"
    and div_law: "d_div D a b = Some c \<longleftrightarrow> b \<noteq> 0 \<and> unat c = unat a div unat b"
    and overflowing_law: "d_overflowing_mul D a b = (a * b, word512_size \<le> unat a * unat b)"
    and shl_law: "k < 512 \<Longrightarrow> unat (d_shl D a k) = unat a * 2 ^ k mod word512_size"
    and shr_law: "k < 512 \<Longrightarrow> unat (d_shr D a k) = unat a div 2 ^ k"
    and bits_law: "d_bits D a \<le> k \<longleftrightarrow> unat a < 2 ^ k"
    and trailing_law: "k \<le> 512 \<Longrightarrow> k \<le> d_trailing_zeros D a \<longleftrightarrow> 2 ^ k dvd unat a"
    and leading_law: "k \<le> 512 \<Longrightarrow> k \<le> d_leading_zeros D a \<longleftrightarrow> unat a < 2 ^ (512 - k)"

lemma unat_less_512: "unat (a :: u512) < word512_size"
  using unsigned_less [of a, where ?'a = nat] by (simp add: word512_size_def)

lemma unat_mult_512: "unat (a :: u512) * unat b < word512_size \<Longrightarrow> unat (a * b) = unat a * unat b"
  by (simp add: unat_word_ariths word512_size_def)

lemma unat_of_nat_512: "n < word512_size \<Longrightarrow> unat (of_nat n :: u512) = n"
  by (simp add: unat_of_nat take_bit_eq_mod word512_size_def)

lemma unat_p2_512: "k < 512 \<Longrightarrow> unat ((2 :: u512) ^ k) = 2 ^ k"
  using unat_of_nat_512 [of "2 ^ k"] power_strict_increasing [of k 512 "2 :: nat"]
  by (simp add: word512_size_def)

lemma eq_512: "unat (a :: u512) = unat b \<Longrightarrow> a = b"
  by (rule unsigned_word_eqI)

text \<open>The number of binary digits and of trailing zeros of a natural number.\<close>

fun digits2 :: "nat \<Rightarrow> nat" where
  "digits2 n = (if n = 0 then 0 else Suc (digits2 (n div 2)))"

fun zeros2 :: "nat \<Rightarrow> nat" where
  "zeros2 n = (if n = 0 \<or> odd n then 0 else Suc (zeros2 (n div 2)))"

declare digits2.simps [simp del] zeros2.simps [simp del]

definition checked_512 :: "nat \<Rightarrow> u512 option" where
  "checked_512 n = (if n < word512_size then Some (of_nat n) else None)"

definition word_decimal :: Decimal_ops where
  "word_decimal =
     \<lparr>d_add = (\<lambda>a b. checked_512 (unat a + unat b)),
      d_sub = (\<lambda>a b. if b \<le> a then Some (a - b) else None),
      d_mul = (\<lambda>a b. checked_512 (unat a * unat b)),
      d_div = (\<lambda>a b. if b = 0 then None else Some (a div b)),
      d_overflowing_mul = (\<lambda>a b. (a * b, word512_size \<le> unat a * unat b)),
      d_shl = (\<lambda>a k. a * 2 ^ k),
      d_shr = (\<lambda>a k. drop_bit k a),
      d_bits = (\<lambda>a. digits2 (unat a)),
      d_trailing_zeros = (\<lambda>a. if a = 0 then 512 else zeros2 (unat a)),
      d_leading_zeros = (\<lambda>a. 512 - digits2 (unat a))\<rparr>"

lemma digits2_le: "digits2 n \<le> k \<longleftrightarrow> n < 2 ^ k"
proof (induction n arbitrary: k rule: digits2.induct)
  case (1 n)
  show ?case
  proof (cases "n = 0 \<or> k = 0")
    case True
    then show ?thesis by (subst digits2.simps) auto
  next
    case False
    then obtain l where "k = Suc l" by (cases k) auto
    with 1 [of l] False show ?thesis by (subst digits2.simps) (auto simp: less_mult_imp_div_less)
  qed
qed

lemma zeros2_ge: "0 < n \<Longrightarrow> k \<le> zeros2 n \<longleftrightarrow> 2 ^ k dvd n"
proof (induction n arbitrary: k rule: zeros2.induct)
  case (1 n)
  show ?case
  proof (cases "odd n \<or> k = 0")
    case True
    have "k \<noteq> 0 \<Longrightarrow> odd n \<Longrightarrow> \<not> 2 ^ k dvd n" by (metis dvd_trans dvd_power neq0_conv)
    with True show ?thesis by (subst zeros2.simps) auto
  next
    case False
    then obtain l m where kl: "k = Suc l" "n = 2 * m" by (cases k) auto
    with "1.IH" [of l] "1.prems" show ?thesis by (subst zeros2.simps) auto
  qed
qed

lemma checked_512_eq_Some: "checked_512 n = Some c \<longleftrightarrow> unat c = n"
  using unat_less_512 [of c] unat_of_nat_512 [of n] by (auto simp: checked_512_def intro: eq_512)

interpretation words_decimal: decimal_spec word_decimal
proof
  fix a b c :: u512 and k :: nat
  show "d_add word_decimal a b = Some c \<longleftrightarrow> unat c = unat a + unat b"
    "d_mul word_decimal a b = Some c \<longleftrightarrow> unat c = unat a * unat b"
    by (simp_all add: word_decimal_def checked_512_eq_Some)
  show "d_sub word_decimal a b = Some c \<longleftrightarrow> unat a = unat b + unat c"
    using checked_sub_eq_Some [of a b c] by (simp add: word_decimal_def checked_sub_def)
  show "d_div word_decimal a b = Some c \<longleftrightarrow> b \<noteq> 0 \<and> unat c = unat a div unat b"
    by (auto simp: word_decimal_def unat_div intro: eq_512)
  show "d_overflowing_mul word_decimal a b = (a * b, word512_size \<le> unat a * unat b)"
    by (simp add: word_decimal_def)
  show "unat (d_shl word_decimal a k) = unat a * 2 ^ k mod word512_size" if "k < 512"
    using unat_p2_512 [OF that] by (simp add: word_decimal_def unat_word_ariths word512_size_def)
  show "unat (d_shr word_decimal a k) = unat a div 2 ^ k"
  proof -
    have "unat (drop_bit k a) = drop_bit k (unat a)"
      using unsigned_less [of a, where ?'a = nat] by (simp add: unsigned_drop_bit_eq take_bit_nat_eq_self)
    then show ?thesis by (simp add: word_decimal_def flip: drop_bit_eq_div)
  qed
  show "d_bits word_decimal a \<le> k \<longleftrightarrow> unat a < 2 ^ k"
    by (simp add: word_decimal_def digits2_le)
  show "k \<le> d_trailing_zeros word_decimal a \<longleftrightarrow> 2 ^ k dvd unat a" if "k \<le> 512"
    using that zeros2_ge [of "unat a" k] by (simp add: word_decimal_def unat_gt_0)
  show "k \<le> d_leading_zeros word_decimal a \<longleftrightarrow> unat a < 2 ^ (512 - k)" if "k \<le> 512"
    using that digits2_le [of "unat a" "512 - k"] digits2_le [of "unat a" 512] unat_less_512 [of a]
    by (auto simp: word_decimal_def word512_size_def)
qed

section \<open>What the operations return\<close>

lemma unat_abs_exponent: "unat (abs_exponent e) = nat \<bar>sint e\<bar>"
proof -
  have "\<bar>sint e\<bar> < 2 ^ 32" using sint_range_size [of e] by (auto simp: wsst_TYs)
  then show ?thesis
    by (simp add: abs_exponent_def unat_eq_nat_uint uint_word_of_int take_bit_int_eq_self)
qed

lemma unat_half: "unat (drop_bit 1 (e :: u32)) = unat e div 2"
  by (simp add: drop_bit_Suc unat_div)

lemma unat_mod2: "e mod 2 = 1 \<longleftrightarrow> odd (unat (e :: u32))"
proof -
  have "e mod 2 = 1 \<longleftrightarrow> unat (e mod 2) = unat (1 :: u32)" by (simp only: word_unat_eq_iff)
  also have "\<dots> \<longleftrightarrow> unat e mod 2 = 1" by (simp add: unat_mod)
  finally show ?thesis by (simp add: odd_iff_mod_2_eq_one)
qed

lemma square_pow: "(y :: nat) * x ^ n = (if odd n then y * x else y) * (x * x) ^ (n div 2)"
proof -
  have "x ^ n = x ^ (n mod 2) * (x * x) ^ (n div 2)"
    by (metis mod_mult_div_eq mult.commute power_add power_mult power2_eq_square)
  then show ?thesis by (auto simp: odd_iff_mod_2_eq_one even_iff_mod_2_eq_zero)
qed

lemma squared_fits: "0 < (y :: nat) \<Longrightarrow> 0 < x \<Longrightarrow> 2 \<le> n \<Longrightarrow> y * x \<le> y * x ^ n \<and> x * x \<le> y * x ^ n"
proof -
  assume pos: "0 < y" "0 < x" "2 \<le> n"
  have x1: "x ^ 1 \<le> x ^ n" and x2: "x ^ 2 \<le> x ^ n" using pos by (intro power_increasing; simp)+
  have "y * x \<le> y * x ^ n" using x1 by simp
  moreover have "x ^ n \<le> y * x ^ n" using pos by simp
  with x2 have "x * x \<le> y * x ^ n" unfolding power2_eq_square by (rule order_trans)
  ultimately show ?thesis ..
qed

context decimal_spec
begin

lemma mul_fits: "unat a * unat b < word512_size \<Longrightarrow> d_mul D a b = Some (a * b)"
  by (simp add: mul_law unat_mult_512)

lemma pow10_loop_returns:
  assumes "1 \<le> unat e" "0 < unat x" "0 < unat y" "unat y * unat x ^ unat e < word512_size"
  shows "\<exists>z. pow10_loop D e x y = Some (Ok z) \<and> unat z = unat y * unat x ^ unat e"
  using assms
proof (induction "unat e" arbitrary: e x y rule: less_induct)
  case less
  show ?case
  proof (cases "1 < e")
    case False
    then have "unat e = 1" using less.prems(1) by (simp add: word_less_nat_alt)
    with less.prems(4) False show ?thesis
      using mul_fits [of x y] unat_mult_512 [of x y]
      by (subst pow10_loop.simps) (simp add: or_panic_def mult.commute)
  next
    case True
    then have two: "2 \<le> unat e" by (simp add: word_less_nat_alt)
    note fits = squared_fits [OF less.prems(3,2) two]
    define y' where "y' = (if odd (unat e) then y * x else y)"
    have xx: "unat x * unat x < word512_size" and yx: "unat y * unat x < word512_size"
      using fits less.prems(4) by linarith+
    have y': "unat y' = (if odd (unat e) then unat y * unat x else unat y)"
      using unat_mult_512 [OF yx] by (simp add: y'_def)
    have step: "pow10_loop D e x y = pow10_loop D (drop_bit 1 e) (x * x) y'"
      using True mul_fits [OF xx] mul_fits [OF yx]
      by (subst pow10_loop.simps) (simp add: unat_mod2 y'_def)
    have eq: "unat y' * unat (x * x) ^ unat (drop_bit 1 e) = unat y * unat x ^ unat e"
      unfolding y' unat_mult_512 [OF xx] unat_half by (rule square_pow [symmetric])
    have "\<exists>z. pow10_loop D (drop_bit 1 e) (x * x) y' = Some (Ok z) \<and>
        unat z = unat y' * unat (x * x) ^ unat (drop_bit 1 e)"
    proof (rule less.hyps)
      show "unat (drop_bit 1 e) < unat e" "1 \<le> unat (drop_bit 1 e)" using two unfolding unat_half by linarith+
      show "0 < unat (x * x)" "0 < unat y'" using less.prems(2,3) unat_mult_512 [OF xx] y' by simp_all
      show "unat y' * unat (x * x) ^ unat (drop_bit 1 e) < word512_size" unfolding eq by (rule less.prems(4))
    qed
    then show ?thesis unfolding step eq .
  qed
qed

lemma u512_pow10_returns:
  assumes "1 \<le> unat e" "unat e \<le> 153"
  shows "\<exists>z. u512_pow10 D e = Some (Ok z) \<and> unat z = 10 ^ unat e"
proof -
  have "(10 :: nat) ^ unat e \<le> 10 ^ 153" using assms(2) by (intro power_increasing) simp_all
  also have "(10 :: nat) ^ 153 < word512_size" by (simp add: word512_size_def)
  finally show ?thesis
    using pow10_loop_returns [of e 10 1] assms(1) by (simp add: u512_pow10_def)
qed

lemma mul_pow10_cases:
  assumes "sint e \<noteq> 0" "dec_repr d \<noteq> 0" "nat \<bar>sint e\<bar> \<le> 153"
  shows "\<exists>z. unat z = 10 ^ nat \<bar>sint e\<bar> \<and> mul_pow10 D d e =
    Some (if 0 \<le> sint e
      then Ok (if unat (dec_repr d) * unat z < word512_size then Some \<lparr>dec_repr = dec_repr d * z\<rparr> else None)
      else and_then (or_panic (d_div D (dec_repr d) z)) (\<lambda>r. Ok (if r \<noteq> 0 then Some \<lparr>dec_repr = r\<rparr> else None)))"
proof -
  have "1 \<le> unat (abs_exponent e)" "unat (abs_exponent e) \<le> 153" using assms by (simp_all add: unat_abs_exponent)
  then obtain z where z: "u512_pow10 D (abs_exponent e) = Some (Ok z)" "unat z = 10 ^ nat \<bar>sint e\<bar>"
    using u512_pow10_returns [of "abs_exponent e"] by (auto simp: unat_abs_exponent)
  have "mul_pow10 D d e =
    Some (if 0 \<le> sint e
      then Ok (if unat (dec_repr d) * unat z < word512_size then Some \<lparr>dec_repr = dec_repr d * z\<rparr> else None)
      else and_then (or_panic (d_div D (dec_repr d) z)) (\<lambda>r. Ok (if r \<noteq> 0 then Some \<lparr>dec_repr = r\<rparr> else None)))"
    using assms by (simp add: mul_pow10_def dec_is_zero_def unat_abs_exponent WHOLE_DECIMAL_DIGITS_def
      FRACTIONAL_DECIMAL_DIGITS_def z(1) overflowing_law not_le)
  with z(2) show ?thesis by blast
qed

text \<open>Multiplication strips common powers of two first; it returns the exact floor or panics.\<close>

lemma trailing_dvd: "k \<le> 512 \<Longrightarrow> 2 ^ min (d_trailing_zeros D a) k dvd unat a"
  using trailing_law [of "min (d_trailing_zeros D a) k" a] by simp

lemma dec_mul_floor:
  assumes "dec_mul D a b = Ok c"
  shows "unat (dec_repr c) = unat (dec_repr a) * unat (dec_repr b) div 2 ^ 128"
proof -
  define s where "s = min (d_trailing_zeros D (dec_repr a)) 128"
  define t where "t = min (d_trailing_zeros D (dec_repr b)) (128 - s)"
  have st: "s \<le> 128" "t \<le> 128 - s" by (simp_all add: s_def t_def)
  obtain m where m: "unat (dec_repr a) = 2 ^ s * m" using trailing_dvd [of 128 "dec_repr a"] by (auto simp: s_def)
  have "2 ^ t dvd unat (dec_repr b)" unfolding t_def by (rule trailing_dvd) simp
  then obtain n where n: "unat (dec_repr b) = 2 ^ t * n" by (rule dvdE)
  obtain r where r: "d_mul D (d_shr D (dec_repr a) s) (d_shr D (dec_repr b) t) = Some r"
      "dec_repr c = d_shr D r (128 - s - t)"
    using assms by (auto simp: dec_mul_def Let_def FRACTIONAL_BITS_def or_panic_def s_def t_def split: option.splits)
  have "unat r = m * n"
    using r(1) st by (simp add: mul_law shr_law m n)
  then have "unat (dec_repr c) = m * n div 2 ^ (128 - s - t)" using r(2) st by (simp add: shr_law)
  also have "\<dots> = 2 ^ (s + t) * (m * n) div (2 ^ (s + t) * 2 ^ (128 - s - t))" by simp
  also have "(2 :: nat) ^ (s + t) * 2 ^ (128 - s - t) = 2 ^ 128" using st by (simp flip: power_add)
  also have "2 ^ (s + t) * (m * n) = unat (dec_repr a) * unat (dec_repr b)" by (simp add: m n power_add ac_simps)
  finally show ?thesis .
qed

lemma dec_mul_panics:
  "dec_mul D a b = Panic \<Longrightarrow> word512_size \<le> unat (dec_repr a) * unat (dec_repr b)"
proof (rule ccontr)
  assume panic: "dec_mul D a b = Panic" and fits: "\<not> word512_size \<le> unat (dec_repr a) * unat (dec_repr b)"
  define s where "s = min (d_trailing_zeros D (dec_repr a)) 128"
  define t where "t = min (d_trailing_zeros D (dec_repr b)) (128 - s)"
  have st: "s < 512" "t < 512" by (auto simp: s_def t_def)
  have "unat (d_shr D (dec_repr a) s) * unat (d_shr D (dec_repr b) t) \<le> unat (dec_repr a) * unat (dec_repr b)"
    unfolding shr_law [OF st(1)] shr_law [OF st(2)] by (intro mult_le_mono div_le_dividend)
  with fits have "d_mul D (d_shr D (dec_repr a) s) (d_shr D (dec_repr b) t) \<noteq> None"
    using mul_fits [of "d_shr D (dec_repr a) s" "d_shr D (dec_repr b) t"] by simp
  with panic show False
    by (auto simp: dec_mul_def Let_def FRACTIONAL_BITS_def or_panic_def s_def t_def split: option.splits)
qed

text \<open>Division is exact when the dividend leaves the 128 upper bits free.\<close>

lemma dec_div_floor:
  assumes "unat (dec_repr a) < 2 ^ 384" "dec_repr b \<noteq> 0"
  shows "\<exists>c. dec_div D a b = Ok c \<and> unat (dec_repr c) = unat (dec_repr a) * 2 ^ 128 div unat (dec_repr b)"
proof -
  have "128 \<le> d_leading_zeros D (dec_repr a)" using assms(1) leading_law [of 128 "dec_repr a"] by simp
  then have lz: "min (d_leading_zeros D (dec_repr a)) 128 = 128" by simp
  have "unat (dec_repr a) * 2 ^ 128 < 2 ^ 384 * 2 ^ 128" using assms(1) by (intro mult_strict_right_mono) simp_all
  also have "(2 :: nat) ^ 384 * 2 ^ 128 = word512_size" unfolding word512_size_def by (simp only: flip: power_add) simp
  finally have shl: "unat (d_shl D (dec_repr a) 128) = unat (dec_repr a) * 2 ^ 128" by (simp add: shl_law)
  have shr: "d_shr D (dec_repr b) 0 = dec_repr b" using shr_law [of 0 "dec_repr b"] by (simp add: eq_512)
  obtain q where q: "d_div D (d_shl D (dec_repr a) 128) (dec_repr b) = Some q"
      "unat q = unat (dec_repr a) * 2 ^ 128 div unat (dec_repr b)"
  proof -
    let ?n = "unat (d_shl D (dec_repr a) 128) div unat (dec_repr b)"
    have "?n < word512_size" by (rule le_less_trans [OF div_le_dividend unat_less_512])
    then have "d_div D (d_shl D (dec_repr a) 128) (dec_repr b) = Some (of_nat ?n)"
      using assms(2) by (simp only: div_law unat_of_nat_512) simp
    then show ?thesis using that div_law [of "d_shl D (dec_repr a) 128" "dec_repr b" "of_nat ?n"] shl by simp
  qed
  have "unat (d_shl D q 0) = unat q" using shl_law [of 0 q] unat_less_512 [of q] by simp
  with q lz shr show ?thesis by (simp add: dec_div_def Let_def FRACTIONAL_BITS_def or_panic_def)
qed

end

text \<open>
  The largest exponent that passes the guard of \<^const>\<open>pow2_int\<close> moves the only bit out of the word: the
  power 2 to the 384 comes out as zero. A quotient beyond the range of decimals wraps as well, since the
  final shift of the division drops the upper bits.
\<close>

lemma pow2_int_384: "decimal_spec D \<Longrightarrow> pow2_int D 384 = Some dec_ZERO"
proof -
  assume spec: "decimal_spec D"
  have "unat (d_shl D (2 ^ 128) 384) = 2 ^ 128 * 2 ^ 384 mod word512_size"
    using decimal_spec.shl_law [OF spec, of 384 "2 ^ 128"] unat_p2_512 [of 128] by simp
  also have "\<dots> = unat (0 :: u512)" by (simp add: word512_size_def)
  finally have "d_shl D (2 ^ 128) 384 = 0" by (rule eq_512)
  then show ?thesis by (simp add: pow2_int_def FRACTIONAL_BITS_def dec_ONE_def dec_ZERO_def)
qed

section \<open>Properties\<close>

text \<open>
  C40. Scaling a decimal by a power of ten ends with the exact result. For every decimal and every 32-bit
  exponent, under the documented behaviour of the 512-bit integers: \<^verbatim>\<open>mul_pow10\<close> returns, its squaring loop
  ends and none of its multiplications overflows; the result is the exact product or the floor of the
  exact quotient; and it is empty only for an exponent beyond 153 digits, a product that does not fit
  into 512 bits, or a quotient that is zero.
\<close>

theorem mul_pow10_returns:
  assumes "decimal_spec D"
  shows "\<exists>r. mul_pow10 D d e = Some (Ok r) \<and>
    (case r of
       Some q \<Rightarrow> unat (dec_repr q) =
         (if 0 \<le> sint e then unat (dec_repr d) * 10 ^ nat (sint e) else unat (dec_repr d) div 10 ^ nat (- sint e))
     | None \<Rightarrow> 153 < \<bar>sint e\<bar> \<or>
         (0 < sint e \<and> 2 ^ 512 \<le> unat (dec_repr d) * 10 ^ nat (sint e)) \<or>
         (sint e < 0 \<and> unat (dec_repr d) < 10 ^ nat (- sint e)))"
proof -
  consider "sint e = 0 \<or> dec_repr d = 0" | "sint e \<noteq> 0" "dec_repr d \<noteq> 0" "153 < nat \<bar>sint e\<bar>"
    | "sint e \<noteq> 0" "dec_repr d \<noteq> 0" "nat \<bar>sint e\<bar> \<le> 153"
    by linarith
  then show ?thesis
  proof cases
    case 1
    then show ?thesis by (auto simp: mul_pow10_def dec_is_zero_def)
  next
    case 2
    then have "153 < \<bar>sint e\<bar>" by linarith
    with 2 show ?thesis
      by (simp add: mul_pow10_def dec_is_zero_def unat_abs_exponent WHOLE_DECIMAL_DIGITS_def
        FRACTIONAL_DECIMAL_DIGITS_def)
  next
    case 3
    obtain z where z: "unat z = 10 ^ nat \<bar>sint e\<bar>" and eq: "mul_pow10 D d e =
        Some (if 0 \<le> sint e
          then Ok (if unat (dec_repr d) * unat z < word512_size then Some \<lparr>dec_repr = dec_repr d * z\<rparr> else None)
          else and_then (or_panic (d_div D (dec_repr d) z)) (\<lambda>r. Ok (if r \<noteq> 0 then Some \<lparr>dec_repr = r\<rparr> else None)))"
      using decimal_spec.mul_pow10_cases [OF assms 3] by blast
    show ?thesis
    proof (cases "0 \<le> sint e")
      case True
      then show ?thesis
        using eq z 3(1) unat_mult_512 [of "dec_repr d" z] by (auto simp: word512_size_def)
    next
      case False
      let ?n = "unat (dec_repr d) div unat z"
      have n: "?n < word512_size" by (rule le_less_trans [OF div_le_dividend unat_less_512])
      have "z \<noteq> 0" using z by auto
      then have div: "d_div D (dec_repr d) z = Some (of_nat ?n)"
        by (simp only: decimal_spec.div_law [OF assms] unat_of_nat_512 [OF n]) simp
      have abs: "nat \<bar>sint e\<bar> = nat (- sint e)" using False by simp
      have zero: "(of_nat ?n :: u512) = 0 \<longleftrightarrow> ?n = 0"
        using unat_of_nat_512 [OF n] unat_eq_zero [of "of_nat ?n :: u512"] by simp
      show ?thesis
      proof (cases "?n = 0")
        case True
        then have "unat (dec_repr d) < 10 ^ nat (- sint e)" using z abs by (simp add: div_eq_0_iff)
        with True False eq div show ?thesis by (simp add: or_panic_def)
      next
        case nonzero: False
        then have "mul_pow10 D d e = Some (Ok (Some \<lparr>dec_repr = of_nat ?n\<rparr>))"
          using False eq div zero by (simp add: or_panic_def)
        moreover have "unat (of_nat ?n :: u512) = unat (dec_repr d) div 10 ^ nat (- sint e)"
          using unat_of_nat_512 [OF n] unfolding z abs .
        ultimately show ?thesis using False by simp
      qed
    qed
  qed
qed

theorem mul_pow10_returns_witness:
  "\<exists>q. mul_pow10 word_decimal \<lparr>dec_repr = 7\<rparr> 3 = Some (Ok (Some q)) \<and> unat (dec_repr q) = 7000"
  using mul_pow10_returns [OF words_decimal.decimal_spec_axioms, of "\<lparr>dec_repr = 7\<rparr>" 3]
  by (auto split: option.splits)

end
