(* ===== verification/Spec2Isabelle.thy ===== *)
theory Spec2Isabelle
  imports Kernel_Properties Curator_Route Curator_Policy Curator_Access Curator_Governance Curator_Recovery Oracle_Proxy
    Primitives_Decimal
begin

text \<open>
  A verification library for the Templar Protocol contracts.
\<close>

end
